(* ===== verification/Hub_Prelude.thy ===== *)
theory Hub_Prelude
  imports Main "HOL-Library.Word"
begin

text \<open>
  Shared vocabulary of the development.

  \<^item> \<open>cell\<close>, \<open>mem\<close>: C memory as a list of cells; \<open>None\<close> is an indeterminate byte (what
    \<open>malloc\<close> returns, an array member that was never written). Reading one as a number
    is undefined behaviour and shows as a \<open>fault\<close>; copying one is allowed.
  \<^item> \<open>fault\<close>: the ways a call can fail to return: undefined behaviour, a C++ exception that
    escapes the call, or a loop that never ends.
  \<^item> \<open>bindF\<close>: sequencing of calls that may fail, with the rules the component proofs use.
  \<^item> \<open>load\<close>, \<open>store\<close>, \<open>cstr_at\<close>: bounds-checked access to an array, \<open>memcpy\<close> and the C string
    that starts at an index.
\<close>

named_theorems fault_simps \<open>rewrite rules for calls that may fail\<close>
named_theorems mem_simps \<open>rewrite rules for array access\<close>

section \<open>Machine types\<close>

type_synonym byte = "8 word"
type_synonym u16 = "16 word"
type_synonym i32 = "32 word"
type_synonym cell = "byte option"
type_synonym mem = "cell list"
type_synonym cstring = "byte list"
type_synonym uref = nat
type_synonym sref = nat

section \<open>Calls that may fail\<close>

datatype ub = OutOfBounds | UninitRead | SignedOverflow | HeapOverflow | NullDeref | UseAfterFree

datatype exn = SocketException int | EpollException int

datatype fault = Undefined ub | Throw exn | Diverge

type_synonym 'a res = "fault + 'a"

fun bindF :: "'e + 'a \<Rightarrow> ('a \<Rightarrow> 'e + 'b) \<Rightarrow> 'e + 'b" where
  "bindF (Inl e) f = Inl e"
| "bindF (Inr x) f = f x"

lemma bindF_Inr_iff [fault_simps]:
  "bindF m f = Inr y \<longleftrightarrow> (\<exists>x. m = Inr x \<and> f x = Inr y)"
  by (cases m) auto

lemma bindF_Inl_iff [fault_simps]:
  "bindF m f = Inl e \<longleftrightarrow> m = Inl e \<or> (\<exists>x. m = Inr x \<and> f x = Inl e)"
  by (cases m) auto

lemma bindF_assoc: "bindF (bindF m f) g = bindF m (\<lambda>x. bindF (f x) g)"
  by (cases m) auto

lemma bindF_Inr_right [simp]: "bindF m Inr = m"
  by (cases m) auto

lemma bindF_cong [fundef_cong]:
  "m = m' \<Longrightarrow> (\<And>x. m' = Inr x \<Longrightarrow> f x = g x) \<Longrightarrow> bindF m f = bindF m' g"
  by (cases m') auto

lemma bindF_InrE [elim]:
  assumes "bindF m f = Inr y"
  obtains x where "m = Inr x" and "f x = Inr y"
  using assms by (auto simp: bindF_Inr_iff)

text \<open>A loop over a list that stops at the first fault.\<close>

fun foldF :: "('a \<Rightarrow> 's \<Rightarrow> 'e + 's) \<Rightarrow> 'a list \<Rightarrow> 's \<Rightarrow> 'e + 's" where
  "foldF f [] s = Inr s"
| "foldF f (x # xs) s = bindF (f x s) (foldF f xs)"

lemma foldF_Nil_fun [simp]: "foldF f [] = Inr"
  by (rule ext) simp

lemma foldF_append: "foldF f (xs @ ys) s = bindF (foldF f xs s) (foldF f ys)"
  by (induction xs arbitrary: s) (auto simp: bindF_assoc intro: bindF_cong)

lemma foldF_invariant:
  assumes "foldF f xs s = Inr s'" "P s"
    and "\<And>x s s'. x \<in> set xs \<Longrightarrow> P s \<Longrightarrow> f x s = Inr s' \<Longrightarrow> P s'"
  shows "P s'"
  using assms
proof (induction xs arbitrary: s)
  case (Cons x xs)
  from Cons.prems(1) obtain t where "f x s = Inr t" "foldF f xs t = Inr s'" by auto
  with Cons.prems(2,3) show ?case using Cons.IH by (metis list.set_intros)
qed simp

text \<open>A pointer is \<open>None\<close> for \<open>NULL\<close>; the store maps live addresses to objects.\<close>

definition deref :: "(nat \<rightharpoonup> 'a) \<Rightarrow> nat option \<Rightarrow> 'a res" where
  "deref h p = (case p of None \<Rightarrow> Inl (Undefined NullDeref)
     | Some r \<Rightarrow> (case h r of None \<Rightarrow> Inl (Undefined UseAfterFree) | Some x \<Rightarrow> Inr x))"

lemma deref_Inr_iff [fault_simps]:
  "deref h p = Inr x \<longleftrightarrow> (\<exists>r. p = Some r \<and> h r = Some x)"
  by (auto simp: deref_def split: option.splits)

lemma deref_live [simp]: "h r = Some x \<Longrightarrow> deref h (Some r) = Inr x"
  by (simp add: deref_def)

lemma deref_dead [simp]: "h r = None \<Longrightarrow> deref h (Some r) = Inl (Undefined UseAfterFree)"
  by (simp add: deref_def)

lemma deref_null [simp]: "deref h None = Inl (Undefined NullDeref)"
  by (simp add: deref_def)

section \<open>Array access\<close>

text \<open>\<open>load m i n\<close>: the values of \<open>n\<close> bytes from index \<open>i\<close>.\<close>

definition load :: "mem \<Rightarrow> nat \<Rightarrow> nat \<Rightarrow> byte list res" where
  "load m i n =
     (if length m < i + n then Inl (Undefined OutOfBounds)
      else let cs = take n (drop i m) in
        if None \<in> set cs then Inl (Undefined UninitRead) else Inr (map the cs))"

text \<open>\<open>store m i cs\<close>: \<open>memcpy\<close> of the cells \<open>cs\<close> to index \<open>i\<close>.\<close>

definition store :: "mem \<Rightarrow> nat \<Rightarrow> mem \<Rightarrow> mem res" where
  "store m i cs =
     (if length m < i + length cs then Inl (Undefined OutOfBounds)
      else Inr (take i m @ cs @ drop (i + length cs) m))"

text \<open>The bytes of a C string from index \<open>i\<close> up to its terminator.\<close>

fun cstr :: "mem \<Rightarrow> cstring res" where
  "cstr [] = Inl (Undefined OutOfBounds)"
| "cstr (None # m) = Inl (Undefined UninitRead)"
| "cstr (Some b # m) = (if b = 0 then Inr [] else bindF (cstr m) (\<lambda>s. Inr (b # s)))"

definition cstr_at :: "mem \<Rightarrow> nat \<Rightarrow> cstring res" where
  "cstr_at m i = cstr (drop i m)"

lemma load_Inr [mem_simps]:
  "load m i n = Inr bs \<longleftrightarrow>
     i + n \<le> length m \<and> length bs = n \<and> take n (drop i m) = map Some bs"
  (is "?L \<longleftrightarrow> ?R")
proof
  assume ?L
  then have len: "i + n \<le> length m" and init: "None \<notin> set (take n (drop i m))"
    and bs: "bs = map the (take n (drop i m))"
    by (auto simp: load_def Let_def split: if_splits)
  have "map (Some \<circ> the) (take n (drop i m)) = take n (drop i m)"
    using init by (intro map_idI) (metis comp_def option.collapse)
  with len bs show ?R by simp
next
  assume ?R
  then show ?L by (simp add: load_def Let_def)
qed

lemma store_Inr [mem_simps]:
  "store m i cs = Inr m' \<longleftrightarrow>
     i + length cs \<le> length m \<and> m' = take i m @ cs @ drop (i + length cs) m"
  by (auto simp: store_def)

lemma length_store: "store m i cs = Inr m' \<Longrightarrow> length m' = length m"
  by (auto simp: mem_simps)

lemma store_ok: "i + length cs \<le> length m \<Longrightarrow>
   store m i cs = Inr (take i m @ cs @ drop (i + length cs) m)"
  by (simp add: store_def)

text \<open>Loading back what was stored.\<close>

lemma load_store:
  "store m i (map Some bs) = Inr m' \<Longrightarrow> load m' i (length bs) = Inr bs"
  by (auto simp: mem_simps)

text \<open>A store leaves every other range as it was.\<close>

lemma load_store_before:
  assumes "store m i cs = Inr m'" and "j + n \<le> i"
  shows "load m' j n = load m j n"
proof -
  have "take n (drop j m') = take n (drop j m)"
    using assms by (auto simp: mem_simps min_def drop_take)
  moreover have "length m' = length m"
    using assms(1) by (rule length_store)
  ultimately show ?thesis by (simp add: load_def)
qed

lemma load_store_after:
  assumes "store m i cs = Inr m'" and "i + length cs \<le> j"
  shows "load m' j n = load m j n"
proof -
  have "drop j m' = drop j m"
    using assms by (auto simp: mem_simps min_def)
  moreover have "length m' = length m"
    using assms(1) by (rule length_store)
  ultimately show ?thesis by (simp add: load_def)
qed

lemma cstr_terminated [simp]:
  "0 \<notin> set s \<Longrightarrow> cstr (map Some s @ Some 0 # rest) = Inr s"
  by (induction s) auto

lemma cstr_no_nul: "cstr m = Inr s \<Longrightarrow> 0 \<notin> set s"
  by (induction m arbitrary: s rule: cstr.induct) (auto simp: fault_simps split: if_splits)

lemma cstr_prefix: "cstr m = Inr s \<Longrightarrow> \<exists>rest. m = map Some s @ Some 0 # rest"
  by (induction m arbitrary: s rule: cstr.induct) (auto simp: fault_simps split: if_splits)

lemma cstr_iff: "cstr m = Inr s \<longleftrightarrow> 0 \<notin> set s \<and> (\<exists>rest. m = map Some s @ Some 0 # rest)"
  using cstr_no_nul cstr_prefix by fastforce

section \<open>Counting\<close>

definition count_if :: "('a \<Rightarrow> bool) \<Rightarrow> 'a list \<Rightarrow> nat" where
  "count_if P ps = length (filter P ps)"

lemma count_if_update:
  assumes "t < length ps"
  shows "count_if P (ps[t := p]) + (if P (ps ! t) then 1 else 0) = count_if P ps + (if P p then 1 else 0)"
  using assms
proof (induction ps arbitrary: t)
  case (Cons q ps)
  then show ?case by (cases t) (auto simp: count_if_def)
qed simp

lemma count_if_0: "count_if P ps = 0 \<longleftrightarrow> (\<forall>p \<in> set ps. \<not> P p)"
  by (auto simp: count_if_def filter_empty_conv)

lemma count_if_replicate: "\<not> P p \<Longrightarrow> count_if P (replicate n p) = 0"
  by (simp add: count_if_0)

text \<open>If at most one element has a property, any two positions with it are the same.\<close>

lemma count_if_unique:
  assumes "count_if P ps \<le> 1" "t < length ps" "t' < length ps" "P (ps ! t)" "P (ps ! t')"
  shows "t = t'"
proof -
  have "card {i. i < length ps \<and> P (ps ! i)} \<le> 1"
    using assms(1) by (simp add: count_if_def length_filter_conv_card)
  then show ?thesis using assms(2-5) by (auto simp: card_le_Suc0_iff_eq)
qed

section \<open>Transition systems\<close>

text \<open>The states a system can reach from its initial states.\<close>

inductive reach :: "('s \<Rightarrow> bool) \<Rightarrow> ('s \<Rightarrow> 's \<Rightarrow> bool) \<Rightarrow> 's \<Rightarrow> bool" for init step where
  start: "init s \<Longrightarrow> reach init step s"
| step: "reach init step s \<Longrightarrow> step s s' \<Longrightarrow> reach init step s'"

lemma reach_init: "reach (\<lambda>s. s = a) step a"
  by (rule reach.start) simp

lemma reach_steps: "step\<^sup>*\<^sup>* s s' \<Longrightarrow> reach init step s \<Longrightarrow> reach init step s'"
  by (induction rule: rtranclp_induct) (auto intro: reach.step)

text \<open>The contract of an inductive invariant: it holds at the start and no step breaks it.\<close>

locale inductive_invariant =
  fixes init :: "'s \<Rightarrow> bool" and step :: "'s \<Rightarrow> 's \<Rightarrow> bool" and inv :: "'s \<Rightarrow> bool"
  assumes init_inv: "init s \<Longrightarrow> inv s"
    and step_inv: "step s s' \<Longrightarrow> inv s \<Longrightarrow> inv s'"
begin

lemma steps_inv: "step\<^sup>*\<^sup>* s s' \<Longrightarrow> inv s \<Longrightarrow> inv s'"
  by (induction rule: rtranclp_induct) (auto intro: step_inv)

lemma reach_inv: "reach init step s \<Longrightarrow> inv s"
  by (induction rule: reach.induct) (auto intro: init_inv step_inv)

end

section \<open>Maps\<close>

lemma map_upd_Some_cases:
  assumes "(m(k \<mapsto> v)) k' = Some w"
  obtains "k' = k" and "w = v" | "k' \<noteq> k" and "m k' = Some w"
  using assms by (auto split: if_splits)

end
