(* ===== verification/Net_Util.thy ===== *)
theory Net_Util
  imports Hub_Prelude
begin

unbundle bit_operations_syntax

text \<open>
  \<open>src/src/socket/netutil.cpp\<close>: reading and writing integers in network byte order, and
  the comparison of socket addresses.

  A memory access through an \<open>int*\<close> uses the byte order of the host, so the accesses take
  it as a parameter (\<open>endian\<close>); the rest of the development runs on \<open>host_order\<close> (little-endian,
  x86-64). The lemmas \<open>toint_eq\<close> \<open>\<dots>\<close> show that with \<open>ntohl\<close>/\<open>htonl\<close> the choice does not
  matter.

  \<open>sockaddr_storage\<close> is the record of the fields that \<open>sockaddr_in\<close> and \<open>sockaddr_in6\<close> name
  in it: the family at offset 0, the port at offset 2 in both, \<open>sin_addr\<close> at offsets 4--7
  and \<open>sin6_addr\<close> at offsets 8--23, which do not overlap.
\<close>

section \<open>Byte order\<close>

datatype endian = Little | Big

definition host_order :: endian where "host_order = Little"

definition mk16 :: "byte \<Rightarrow> byte \<Rightarrow> u16" where
  "mk16 a b = push_bit 8 (ucast a) OR ucast b"

definition mk32 :: "byte \<Rightarrow> byte \<Rightarrow> byte \<Rightarrow> byte \<Rightarrow> i32" where
  "mk32 a b c d = push_bit 24 (ucast a) OR push_bit 16 (ucast b) OR push_bit 8 (ucast c) OR ucast d"

definition byte16 :: "nat \<Rightarrow> u16 \<Rightarrow> byte" where "byte16 k w = ucast (drop_bit (8 * k) w)"

definition byte32 :: "nat \<Rightarrow> i32 \<Rightarrow> byte" where "byte32 k w = ucast (drop_bit (8 * k) w)"

definition be16 :: "u16 \<Rightarrow> byte list" where "be16 w = [byte16 1 w, byte16 0 w]"

definition be32 :: "i32 \<Rightarrow> byte list" where
  "be32 w = [byte32 3 w, byte32 2 w, byte32 1 w, byte32 0 w]"

fun host16 :: "endian \<Rightarrow> u16 \<Rightarrow> byte list" where
  "host16 Little w = rev (be16 w)"
| "host16 Big w = be16 w"

fun host32 :: "endian \<Rightarrow> i32 \<Rightarrow> byte list" where
  "host32 Little w = rev (be32 w)"
| "host32 Big w = be32 w"

definition val16 :: "byte list \<Rightarrow> u16" where "val16 bs = mk16 (bs ! 0) (bs ! 1)"

definition val32 :: "byte list \<Rightarrow> i32" where
  "val32 bs = mk32 (bs ! 0) (bs ! 1) (bs ! 2) (bs ! 3)"

fun unhost16 :: "endian \<Rightarrow> byte list \<Rightarrow> u16" where
  "unhost16 Little bs = val16 (rev bs)"
| "unhost16 Big bs = val16 bs"

fun unhost32 :: "endian \<Rightarrow> byte list \<Rightarrow> i32" where
  "unhost32 Little bs = val32 (rev bs)"
| "unhost32 Big bs = val32 bs"

fun ntohs :: "endian \<Rightarrow> u16 \<Rightarrow> u16" where
  "ntohs Little w = val16 (rev (be16 w))"
| "ntohs Big w = w"

fun ntohl :: "endian \<Rightarrow> i32 \<Rightarrow> i32" where
  "ntohl Little w = val32 (rev (be32 w))"
| "ntohl Big w = w"

text \<open>\<open>htons\<close> and \<open>htonl\<close> are the same functions.\<close>

abbreviation htons :: "endian \<Rightarrow> u16 \<Rightarrow> u16" where "htons \<equiv> ntohs"
abbreviation htonl :: "endian \<Rightarrow> i32 \<Rightarrow> i32" where "htonl \<equiv> ntohl"

section \<open>toint, touint, toshort, toushort, tobytes\<close>

definition toint :: "endian \<Rightarrow> mem \<Rightarrow> nat \<Rightarrow> i32 res" where
  "toint e buf index = bindF (load buf index 4) (\<lambda>bs. Inr (ntohl e (unhost32 e bs)))"

definition touint :: "endian \<Rightarrow> mem \<Rightarrow> nat \<Rightarrow> i32 res" where
  "touint e buf index = bindF (load buf index 4) (\<lambda>bs. Inr (ntohl e (unhost32 e bs)))"

definition toshort :: "endian \<Rightarrow> mem \<Rightarrow> nat \<Rightarrow> u16 res" where
  "toshort e buf index = bindF (load buf index 2) (\<lambda>bs. Inr (ntohs e (unhost16 e bs)))"

definition toushort :: "endian \<Rightarrow> mem \<Rightarrow> nat \<Rightarrow> u16 res" where
  "toushort e buf index = bindF (load buf index 2) (\<lambda>bs. Inr (ntohs e (unhost16 e bs)))"

definition tobytes16 :: "endian \<Rightarrow> mem \<Rightarrow> nat \<Rightarrow> u16 \<Rightarrow> mem res" where
  "tobytes16 e buf index val =
     (let netval = htons e val in store buf index (map Some (host16 e netval)))"

definition tobytes32 :: "endian \<Rightarrow> mem \<Rightarrow> nat \<Rightarrow> i32 \<Rightarrow> mem res" where
  "tobytes32 e buf index val =
     (let netval = htonl e val in store buf index (map Some (host32 e netval)))"

section \<open>Socket addresses\<close>

record sockaddr_storage =
  ss_family :: u16
  sin_port :: u16
  sin_addr :: i32
  sin6_addr :: "byte list"

definition AF_INET :: u16 where "AF_INET = 2"
definition AF_INET6 :: u16 where "AF_INET6 = 10"

definition socket_equals :: "sockaddr_storage \<Rightarrow> sockaddr_storage \<Rightarrow> bool" where
  "socket_equals sa1 sa2 =
     (if ss_family sa1 \<noteq> ss_family sa2 then False
      else if ss_family sa1 = AF_INET
        then sin_addr sa1 = sin_addr sa2 \<and> sin_port sa1 = sin_port sa2
      else sin6_addr sa1 = sin6_addr sa2 \<and> sin_port sa1 = sin_port sa2)"

definition ip_equals :: "sockaddr_storage \<Rightarrow> sockaddr_storage \<Rightarrow> bool" where
  "ip_equals sa1 sa2 =
     (if ss_family sa1 \<noteq> ss_family sa2 then False
      else if ss_family sa1 = AF_INET then sin_addr sa1 = sin_addr sa2
      else sin6_addr sa1 = sin6_addr sa2)"

section \<open>Lemmas on byte order\<close>

lemma mk16_bytes [simp]: "mk16 (byte16 (Suc 0) w) (byte16 0 w) = w"
  unfolding mk16_def byte16_def
  by (rule bit_word_eqI) (auto simp: bit_simps)

lemma mk32_bytes [simp]: "mk32 (byte32 3 w) (byte32 2 w) (byte32 (Suc 0) w) (byte32 0 w) = w"
  unfolding mk32_def byte32_def
proof (rule bit_word_eqI)
  fix n assume n: "n < LENGTH(32)"
  consider "n < 8" | "8 \<le> n" "n < 16" | "16 \<le> n" "n < 24" | "24 \<le> n" by linarith
  then show "bit (push_bit 24 (ucast (ucast (drop_bit (8 * 3) w) :: byte)) OR
      push_bit 16 (ucast (ucast (drop_bit (8 * 2) w) :: byte)) OR
      push_bit 8 (ucast (ucast (drop_bit (8 * Suc 0) w) :: byte)) OR
      ucast (ucast (drop_bit (8 * 0) w) :: byte) :: i32) n = bit w n"
    by cases (use n in \<open>auto simp: bit_simps\<close>)
qed

lemma byte16_mk16 [simp]: "byte16 0 (mk16 a b) = b" "byte16 (Suc 0) (mk16 a b) = a"
  unfolding mk16_def byte16_def
  by (rule bit_word_eqI; auto simp: bit_simps dest: bit_imp_le_length)+

lemma byte32_mk32 [simp]:
  "byte32 0 (mk32 a b c d) = d" "byte32 (Suc 0) (mk32 a b c d) = c"
  "byte32 2 (mk32 a b c d) = b" "byte32 3 (mk32 a b c d) = a"
  unfolding mk32_def byte32_def
  by (rule bit_word_eqI; auto simp: bit_simps dest: bit_imp_le_length)+

lemma bytes_mk [simp]:
  "be16 (mk16 a b) = [a, b]" "be32 (mk32 a b c d) = [a, b, c, d]"
  by (simp_all add: be16_def be32_def)

lemma length_be [simp]: "length (be16 w) = 2" "length (be32 v) = 4"
  by (simp_all add: be16_def be32_def)

lemma length_host [simp]: "length (host16 e w) = 2" "length (host32 e v) = 4"
  by (cases e; simp)+

lemma val_be [simp]: "val16 (be16 w) = w" "val32 (be32 v) = v"
  by (simp_all add: val16_def val32_def be16_def be32_def)

lemma length_2_conv: "length xs = 2 \<longleftrightarrow> (\<exists>a b. xs = [a, b])"
  by (auto simp: numeral_eq_Suc length_Suc_conv)

lemma length_4_conv: "length xs = 4 \<longleftrightarrow> (\<exists>a b c d. xs = [a, b, c, d])"
  by (auto simp: numeral_eq_Suc length_Suc_conv)

lemma be16_val16: "length bs = 2 \<Longrightarrow> be16 (val16 bs) = bs"
  by (auto simp: length_2_conv val16_def)

lemma be32_val32: "length bs = 4 \<Longrightarrow> be32 (val32 bs) = bs"
  by (auto simp: length_4_conv val32_def)

text \<open>Storing in host order after \<open>htons\<close>/\<open>htonl\<close> writes the most significant byte first.\<close>

lemma host16_htons: "host16 e (htons e w) = be16 w"
  by (cases e) (simp_all add: be16_val16)

lemma host32_htonl: "host32 e (htonl e w) = be32 w"
  by (cases e) (simp_all add: be32_val32)

lemma ntohs_unhost16: "length bs = 2 \<Longrightarrow> ntohs e (unhost16 e bs) = val16 bs"
  by (cases e) (simp_all add: be16_val16)

lemma ntohl_unhost32: "length bs = 4 \<Longrightarrow> ntohl e (unhost32 e bs) = val32 bs"
  by (cases e) (simp_all add: be32_val32)

section \<open>The accessors are big-endian on every host\<close>

lemma load_length: "load buf i n = Inr bs \<Longrightarrow> length bs = n"
  by (simp add: load_Inr)

lemma toint_eq: "toint e buf i = bindF (load buf i 4) (\<lambda>bs. Inr (val32 bs))"
  unfolding toint_def by (rule bindF_cong) (auto dest: load_length simp: ntohl_unhost32)

lemma touint_eq: "touint e buf i = bindF (load buf i 4) (\<lambda>bs. Inr (val32 bs))"
  unfolding touint_def by (rule bindF_cong) (auto dest: load_length simp: ntohl_unhost32)

lemma toshort_eq: "toshort e buf i = bindF (load buf i 2) (\<lambda>bs. Inr (val16 bs))"
  unfolding toshort_def by (rule bindF_cong) (auto dest: load_length simp: ntohs_unhost16)

lemma toushort_eq: "toushort e buf i = bindF (load buf i 2) (\<lambda>bs. Inr (val16 bs))"
  unfolding toushort_def by (rule bindF_cong) (auto dest: load_length simp: ntohs_unhost16)

lemma tobytes16_eq: "tobytes16 e buf i w = store buf i (map Some (be16 w))"
  by (simp add: tobytes16_def host16_htons)

lemma tobytes32_eq: "tobytes32 e buf i w = store buf i (map Some (be32 w))"
  by (simp add: tobytes32_def host32_htonl)

lemmas net_simps = toint_eq touint_eq toshort_eq toushort_eq tobytes16_eq tobytes32_eq

end
