(* ===== verification/Circular_Buffer.thy ===== *)
theory Circular_Buffer
  imports Net_Util
begin

text \<open>
  \<open>src/src/util/CircularBuffer.cpp\<close>, \<open>src/include/util/CircularBuffer.h\<close>: the byte buffer each
  TCP session collects its input in.

  \<open>start\<close> and \<open>end\<close> only ever grow; they are reduced modulo the capacity when they index the
  array but compared unreduced, exactly as the code does. \<open>count\<close> is an \<open>int\<close> that can go
  negative. \<open>end += n\<close> and \<open>start += n\<close> are additions of \<open>int\<close>s: beyond \<open>INT_MAX\<close> they are
  undefined, which is a fault of the model.

  The theory shows that within its contract (room for what is added, enough bytes for what
  is taken) the buffer is a FIFO queue of bytes: \<open>cb_contents\<close> is the abstraction function,
  the locale \<open>byte_fifo\<close> the interface, interpreted on the model at the end.
\<close>

section \<open>The class\<close>

record cbuf =
  cb_buf :: mem
  cb_capacity :: nat
  cb_start :: nat
  cb_end :: nat
  cb_count :: int

definition int_max :: nat where "int_max = 2147483647"

definition CircularBuffer :: "nat \<Rightarrow> cbuf" where
  "CircularBuffer capacity =
     \<lparr>cb_buf = replicate capacity None, cb_capacity = capacity,
      cb_start = 0, cb_end = 0, cb_count = 0\<rparr>"

text \<open>The loop of \<open>add\<close>: the array, the loop index (which is also \<open>n\<close>), the source bytes left.\<close>

fun add_loop :: "nat \<Rightarrow> nat \<Rightarrow> nat \<Rightarrow> mem \<Rightarrow> nat \<Rightarrow> mem \<Rightarrow> mem \<times> nat" where
  "add_loop capacity start end' b i [] = (b, i)"
| "add_loop capacity start end' b i (x # xs) =
     (let j = (end' + i) mod capacity in
      if j = start \<and> i > 0 then (b, i)
      else add_loop capacity start end' (b[j := x]) (Suc i) xs)"

definition cb_add :: "cbuf \<Rightarrow> mem \<Rightarrow> (cbuf \<times> nat) res" where
  "cb_add cb src =
     (let (b, n) = add_loop (cb_capacity cb) (cb_start cb) (cb_end cb) (cb_buf cb) 0 src in
      if cb_end cb + n > int_max then Inl (Undefined SignedOverflow)
      else Inr (cb\<lparr>cb_buf := b, cb_end := cb_end cb + n, cb_count := cb_count cb + int n\<rparr>, n))"

text \<open>The loop of \<open>get\<close> and \<open>read\<close>: the bytes copied out, for \<open>k\<close> iterations left.\<close>

fun read_loop :: "nat \<Rightarrow> nat \<Rightarrow> nat \<Rightarrow> mem \<Rightarrow> nat \<Rightarrow> nat \<Rightarrow> mem" where
  "read_loop capacity start end' b i 0 = []"
| "read_loop capacity start end' b i (Suc k) =
     (let j = (start + i) mod capacity in
      if j = end' \<and> i > 0 then []
      else b ! j # read_loop capacity start end' b (Suc i) k)"

definition cb_read :: "cbuf \<Rightarrow> nat \<Rightarrow> mem" where
  "cb_read cb len = read_loop (cb_capacity cb) (cb_start cb) (cb_end cb) (cb_buf cb) 0 len"

definition cb_get :: "cbuf \<Rightarrow> nat \<Rightarrow> (cbuf \<times> mem) res" where
  "cb_get cb len =
     (let out = read_loop (cb_capacity cb) (cb_start cb) (cb_end cb) (cb_buf cb) 0 len;
          n = length out in
      if cb_start cb + n > int_max then Inl (Undefined SignedOverflow)
      else Inr (cb\<lparr>cb_start := cb_start cb + n, cb_count := cb_count cb - int n\<rparr>, out))"

definition cb_size :: "cbuf \<Rightarrow> int" where "cb_size cb = cb_count cb"

section \<open>Invariant and abstraction\<close>

definition cb_inv :: "cbuf \<Rightarrow> bool" where
  "cb_inv cb \<longleftrightarrow> 0 < cb_capacity cb \<and> length (cb_buf cb) = cb_capacity cb \<and>
     cb_start cb \<le> cb_end cb \<and> cb_end cb - cb_start cb \<le> cb_capacity cb \<and>
     cb_count cb = int (cb_end cb) - int (cb_start cb) \<and> cb_end cb \<le> int_max"

definition cb_contents :: "cbuf \<Rightarrow> mem" where
  "cb_contents cb =
     map (\<lambda>i. cb_buf cb ! ((cb_start cb + i) mod cb_capacity cb)) [0..<nat (cb_count cb)]"

lemma cb_inv_new: "0 < capacity \<Longrightarrow> cb_inv (CircularBuffer capacity)"
  by (simp add: cb_inv_def CircularBuffer_def int_max_def)

lemma cb_contents_new [simp]: "cb_contents (CircularBuffer capacity) = []"
  by (simp add: cb_contents_def CircularBuffer_def)

lemma length_cb_contents: "length (cb_contents cb) = nat (cb_count cb)"
  by (simp add: cb_contents_def)

lemma nth_cb_contents:
  "i < nat (cb_count cb) \<Longrightarrow>
   cb_contents cb ! i = cb_buf cb ! ((cb_start cb + i) mod cb_capacity cb)"
  by (simp add: cb_contents_def)

lemma mod_neq_near:
  fixes a b c :: nat
  assumes "a < b" "b < a + c" shows "a mod c \<noteq> b mod c"
  using assms mod_eq_dvd_iff_nat[of a b c] by (auto dest: dvd_imp_le)

text \<open>Inside the contract the wrap-around test of the loops never fires.\<close>

lemma add_loop_fits:
  assumes "0 < cap" "start \<le> end'" "end' - start + i + length xs \<le> cap" "length b = cap"
  shows "\<exists>b'. add_loop cap start end' b i xs = (b', i + length xs) \<and> length b' = cap \<and>
    (\<forall>m < length xs. b' ! ((end' + i + m) mod cap) = xs ! m) \<and>
    (\<forall>k. start \<le> k \<longrightarrow> k < end' + i \<longrightarrow> b' ! (k mod cap) = b ! (k mod cap))"
  using assms(3,4)
proof (induction xs arbitrary: b i)
  case Nil
  then show ?case by simp
next
  case (Cons x xs)
  let ?j = "(end' + i) mod cap"
  have no_break: "\<not> (?j = start \<and> i > 0)"
  proof
    assume a: "?j = start \<and> i > 0"
    then have "start < cap" using assms(1) by auto
    with a have "start mod cap = (end' + i) mod cap" by simp
    moreover have "start < end' + i" "end' + i < start + cap"
      using a assms(2) Cons.prems(1) by auto
    ultimately show False using mod_neq_near by blast
  qed
  have fit: "end' - start + Suc i + length xs \<le> cap" "length (b[?j := x]) = cap"
    using Cons.prems by simp_all
  from Cons.IH[OF fit] obtain b' where
    r: "add_loop cap start end' (b[?j := x]) (Suc i) xs = (b', Suc i + length xs)"
    and len: "length b' = cap"
    and new: "\<forall>m < length xs. b' ! ((end' + Suc i + m) mod cap) = xs ! m"
    and old: "\<And>k. start \<le> k \<Longrightarrow> k < end' + Suc i \<Longrightarrow> b' ! (k mod cap) = b[?j := x] ! (k mod cap)"
    by blast
  have "b' ! ((end' + i + m) mod cap) = (x # xs) ! m" if "m < length (x # xs)" for m
  proof (cases m)
    case 0
    then show ?thesis using old[of "end' + i"] assms(1,2) Cons.prems(2) by simp
  next
    case (Suc m')
    then show ?thesis using new that by (auto simp: add.assoc)
  qed
  moreover have "b' ! (k mod cap) = b ! (k mod cap)" if "start \<le> k" "k < end' + i" for k
  proof -
    have "k mod cap \<noteq> ?j"
      using mod_neq_near[of k "end' + i" cap] that Cons.prems(1) by simp
    then show ?thesis using old[of k] that by simp
  qed
  ultimately show ?case using r len no_break by (simp add: Let_def)
qed

lemma read_loop_fits:
  assumes "0 < cap" "start \<le> end'" "end' - start \<le> cap" "i + k \<le> end' - start"
  shows "read_loop cap start end' b i k = map (\<lambda>m. b ! ((start + m) mod cap)) [i..<i + k]"
  using assms(4)
proof (induction k arbitrary: i)
  case 0
  then show ?case by simp
next
  case (Suc k)
  have "\<not> ((start + i) mod cap = end' \<and> i > 0)"
  proof
    assume a: "(start + i) mod cap = end' \<and> i > 0"
    then have "end' < cap" using assms(1) by auto
    with a have "(start + i) mod cap = end' mod cap" by simp
    moreover have "start + i < end'" "end' < start + i + cap"
      using a assms(2,3) Suc.prems by auto
    ultimately show False using mod_neq_near by blast
  qed
  with Suc show ?case by (simp add: Let_def upt_conv_Cons del: upt_Suc)
qed

section \<open>The FIFO interface\<close>

locale byte_fifo =
  fixes new :: "nat \<Rightarrow> 'q"
    and add :: "'q \<Rightarrow> mem \<Rightarrow> ('q \<times> nat) res"
    and get :: "'q \<Rightarrow> nat \<Rightarrow> ('q \<times> mem) res"
    and read :: "'q \<Rightarrow> nat \<Rightarrow> mem"
    and size :: "'q \<Rightarrow> int"
    and capacity :: "'q \<Rightarrow> nat"
    and budget :: "'q \<Rightarrow> nat"
    and contents :: "'q \<Rightarrow> mem"
    and inv :: "'q \<Rightarrow> bool"
  assumes inv_new: "0 < c \<Longrightarrow> inv (new c)"
    and contents_new: "contents (new c) = []"
    and capacity_new: "capacity (new c) = c"
    and size_contents: "inv q \<Longrightarrow> size q = int (length (contents q))"
    and add_fits: "inv q \<Longrightarrow> length (contents q) + length xs \<le> capacity q \<Longrightarrow>
      length xs \<le> budget q \<Longrightarrow>
      \<exists>q'. add q xs = Inr (q', length xs) \<and> inv q' \<and> contents q' = contents q @ xs \<and>
           capacity q' = capacity q \<and> budget q' = budget q - length xs"
    and get_fits: "inv q \<Longrightarrow> n \<le> length (contents q) \<Longrightarrow>
      \<exists>q'. get q n = Inr (q', take n (contents q)) \<and> inv q' \<and> contents q' = drop n (contents q) \<and>
           capacity q' = capacity q \<and> budget q' = budget q"
    and read_fits: "inv q \<Longrightarrow> n \<le> length (contents q) \<Longrightarrow> read q n = take n (contents q)"
begin

text \<open>What is put in comes out again, in order and unchanged, behind what was there.\<close>

lemma add_get:
  assumes "inv q" "length (contents q) + length xs \<le> capacity q" "length xs \<le> budget q"
  shows "\<exists>q1 q2. add q xs = Inr (q1, length xs) \<and>
    get q1 (length (contents q)) = Inr (q2, contents q) \<and> contents q2 = xs \<and> inv q2"
proof -
  from add_fits[OF assms] obtain q1 where q1: "add q xs = Inr (q1, length xs)" "inv q1"
    "contents q1 = contents q @ xs" by blast
  with get_fits[of q1 "length (contents q)"] show ?thesis by auto
qed

text \<open>Any sequence of additions that fits in total accumulates all bytes in order.\<close>

fun add_all :: "'q \<Rightarrow> mem list \<Rightarrow> 'q res" where
  "add_all q [] = Inr q"
| "add_all q (xs # xss) = bindF (add q xs) (\<lambda>(q', _). add_all q' xss)"

lemma add_all_fits:
  assumes "inv q" "length (contents q) + length (concat xss) \<le> capacity q"
    and "length (concat xss) \<le> budget q"
  shows "\<exists>q'. add_all q xss = Inr q' \<and> inv q' \<and> contents q' = contents q @ concat xss"
  using assms
proof (induction xss arbitrary: q)
  case Nil
  then show ?case by simp
next
  case (Cons xs xss)
  from add_fits[of q xs] Cons.prems obtain q1 where
    q1: "add q xs = Inr (q1, length xs)" "inv q1" "contents q1 = contents q @ xs"
      "capacity q1 = capacity q" "budget q1 = budget q - length xs" by auto
  with Cons.IH[of q1] Cons.prems show ?case by auto
qed

end

definition cb_budget :: "cbuf \<Rightarrow> nat" where "cb_budget cb = int_max - cb_end cb"

lemma cb_add_fits:
  assumes "cb_inv cb" "length (cb_contents cb) + length xs \<le> cb_capacity cb"
    and "length xs \<le> cb_budget cb"
  shows "\<exists>cb'. cb_add cb xs = Inr (cb', length xs) \<and> cb_inv cb' \<and>
    cb_contents cb' = cb_contents cb @ xs \<and> cb_capacity cb' = cb_capacity cb \<and>
    cb_budget cb' = cb_budget cb - length xs"
proof -
  let ?s = "cb_start cb" and ?e = "cb_end cb" and ?c = "cb_capacity cb"
  have cnt: "nat (cb_count cb) = ?e - ?s" using assms(1) by (auto simp: cb_inv_def)
  have pre: "0 < ?c" "?s \<le> ?e" "?e - ?s + 0 + length xs \<le> ?c" "length (cb_buf cb) = ?c"
    using assms(1,2) cnt by (auto simp: cb_inv_def length_cb_contents)
  from add_loop_fits[OF pre] obtain b where
    b: "add_loop ?c ?s ?e (cb_buf cb) 0 xs = (b, length xs)" "length b = ?c"
      "\<forall>m < length xs. b ! ((?e + m) mod ?c) = xs ! m"
      "\<And>k. ?s \<le> k \<Longrightarrow> k < ?e \<Longrightarrow> b ! (k mod ?c) = cb_buf cb ! (k mod ?c)" by auto
  let ?cb' = "cb\<lparr>cb_buf := b, cb_end := ?e + length xs, cb_count := cb_count cb + int (length xs)\<rparr>"
  have small: "?e + length xs \<le> int_max"
    using assms(1,3) by (auto simp: cb_budget_def cb_inv_def)
  have n: "nat (cb_count cb + int (length xs)) = (?e - ?s) + length xs" using cnt assms(1)
    by (simp add: cb_inv_def)
  have "cb_contents ?cb' = cb_contents cb @ xs"
  proof (rule nth_equalityI)
    fix i assume "i < length (cb_contents ?cb')"
    then have i: "i < (?e - ?s) + length xs" by (simp add: length_cb_contents n)
    show "cb_contents ?cb' ! i = (cb_contents cb @ xs) ! i"
    proof (cases "i < ?e - ?s")
      case True
      then have "?s + i < ?e" by simp
      with True show ?thesis using b(4)[of "?s + i"] i
        by (simp add: nth_cb_contents n cnt nth_append length_cb_contents)
    next
      case False
      define m where "m = i - (?e - ?s)"
      then have m: "?s + i = ?e + m" "m < length xs" using False i pre(2) by auto
      have "cb_contents ?cb' ! i = b ! ((?s + i) mod ?c)"
        using i by (simp add: nth_cb_contents n)
      also have "\<dots> = xs ! m" using b(3) m by simp
      also have "\<dots> = (cb_contents cb @ xs) ! i"
        using False m_def by (simp add: nth_append length_cb_contents cnt)
      finally show ?thesis .
    qed
  qed (simp add: length_cb_contents n cnt)
  moreover have "cb_inv ?cb'" using assms(1) b(2) small pre
    by (auto simp: cb_inv_def)
  ultimately show ?thesis using b(1) small by (simp add: cb_add_def cb_budget_def)
qed

lemma cb_read_fits:
  assumes "cb_inv cb" "n \<le> length (cb_contents cb)"
  shows "read_loop (cb_capacity cb) (cb_start cb) (cb_end cb) (cb_buf cb) 0 n = take n (cb_contents cb)"
  using assms read_loop_fits[of "cb_capacity cb" "cb_start cb" "cb_end cb" 0 n "cb_buf cb"]
  by (simp add: cb_contents_def cb_inv_def take_map)

lemma cb_get_fits:
  assumes "cb_inv cb" "n \<le> length (cb_contents cb)"
  shows "\<exists>cb'. cb_get cb n = Inr (cb', take n (cb_contents cb)) \<and> cb_inv cb' \<and>
    cb_contents cb' = drop n (cb_contents cb) \<and> cb_capacity cb' = cb_capacity cb \<and>
    cb_budget cb' = cb_budget cb"
proof -
  have n: "n \<le> cb_end cb - cb_start cb" "cb_start cb \<le> cb_end cb" "cb_end cb \<le> int_max"
    using assms by (auto simp: cb_inv_def length_cb_contents)
  then have "nat (cb_count cb - int n) = nat (cb_count cb) - n" by simp
  moreover have "[n..<m] = map (\<lambda>i. i + n) [0..<m - n]" for m
    by (cases "n \<le> m") (simp_all add: map_add_upt)
  ultimately have "cb_contents (cb\<lparr>cb_start := cb_start cb + n, cb_count := cb_count cb - int n\<rparr>)
     = drop n (cb_contents cb)"
    by (simp add: cb_contents_def drop_map ac_simps)
  with n assms show ?thesis
    by (auto simp: cb_get_def cb_read_fits Let_def cb_inv_def cb_budget_def)
qed

interpretation cb: byte_fifo CircularBuffer cb_add cb_get cb_read cb_size cb_capacity cb_budget
  cb_contents cb_inv
proof unfold_locales
  show "cb_inv q \<Longrightarrow> cb_size q = int (length (cb_contents q))" for q
    by (simp add: cb_size_def length_cb_contents cb_inv_def)
  show "cb_inv q \<Longrightarrow> n \<le> length (cb_contents q) \<Longrightarrow> cb_read q n = take n (cb_contents q)" for q n
    by (simp add: cb_read_def cb_read_fits)
  show "cb_capacity (CircularBuffer c) = c" for c by (simp add: CircularBuffer_def)
qed (simp_all add: cb_inv_new cb_add_fits cb_get_fits)

section \<open>Behaviour at the limits\<close>

text \<open>Where the loops stop, in terms of the first index \<open>d\<close> at which the test fires.\<close>

lemma add_loop_stops:
  assumes "\<And>i. 0 < i \<Longrightarrow> i < d \<Longrightarrow> (end' + i) mod cap \<noteq> start"
    and "(end' + d) mod cap = start" and "0 < d" and "i \<le> d"
  shows "snd (add_loop cap start end' b i xs) = i + min (length xs) (d - i)"
  using assms(4)
proof (induction xs arbitrary: b i)
  case Nil
  then show ?case by simp
next
  case (Cons x xs)
  show ?case
  proof (cases "i = d")
    case True
    with assms(2,3) show ?thesis by simp
  next
    case False
    then have "\<not> ((end' + i) mod cap = start \<and> 0 < i)" using assms(1)[of i] Cons.prems by auto
    moreover have "d - i = Suc (d - Suc i)" using False Cons.prems by simp
    ultimately show ?thesis using False Cons.prems Cons.IH[of "Suc i"] by (simp add: Let_def)
  qed
qed

lemma add_loop_never_stops:
  "0 < cap \<Longrightarrow> cap \<le> start \<Longrightarrow> snd (add_loop cap start end' b i xs) = i + length xs"
proof (induction xs arbitrary: b i)
  case (Cons x xs)
  have "(end' + i) mod cap < cap" using Cons.prems by simp
  with Cons show ?case by (simp add: Let_def)
qed simp

lemma read_loop_never_stops:
  "0 < cap \<Longrightarrow> cap \<le> end' \<Longrightarrow> length (read_loop cap start end' b i k) = k"
proof (induction k arbitrary: i)
  case (Suc k)
  have "(start + i) mod cap < cap" using Suc.prems by simp
  with Suc show ?case by (simp add: Let_def)
qed simp

lemma read_loop_stops:
  assumes "\<And>i. 0 < i \<Longrightarrow> i < d \<Longrightarrow> (start + i) mod cap \<noteq> end'"
    and "(start + d) mod cap = end'" and "0 < d" and "i \<le> d"
  shows "length (read_loop cap start end' b i k) = min k (d - i)"
  using assms(4)
proof (induction k arbitrary: i)
  case 0
  then show ?case by simp
next
  case (Suc k)
  show ?case
  proof (cases "i = d")
    case True
    with assms(2,3) show ?thesis by simp
  next
    case False
    then have "\<not> ((start + i) mod cap = end' \<and> 0 < i)" using assms(1)[of i] Suc.prems by auto
    moreover have "d - i = Suc (d - Suc i)" using False Suc.prems by simp
    ultimately show ?thesis using False Suc.prems Suc.IH[of "Suc i"] by (simp add: Let_def)
  qed
qed

text \<open>
  How many bytes \<open>add\<close> accepts, for every state and every input. As long as \<open>start\<close> is
  below the capacity it accepts what fits, except that a full buffer accepts a whole further
  capacity; once \<open>capacity\<close> bytes have been taken out over the buffer's life
  it accepts everything it is given, whatever it holds.
\<close>

theorem cb_add_accepts:
  assumes "cb_inv cb" and "cb_add cb xs = Inr (cb', n)"
  shows "n = (if cb_capacity cb \<le> cb_start cb then length xs
              else min (length xs) (if cb_size cb = int (cb_capacity cb) then cb_capacity cb
                                    else cb_capacity cb - nat (cb_size cb)))"
proof -
  let ?s = "cb_start cb" and ?e = "cb_end cb" and ?c = "cb_capacity cb"
  have inv: "0 < ?c" "?s \<le> ?e" "?e - ?s \<le> ?c" "cb_size cb = int (?e - ?s)"
    using assms(1) by (auto simp: cb_inv_def cb_size_def)
  have n: "n = snd (add_loop ?c ?s ?e (cb_buf cb) 0 xs)"
    using assms(2) by (auto simp: cb_add_def Let_def split: prod.splits if_splits)
  show ?thesis
  proof (cases "?c \<le> ?s")
    case True
    then show ?thesis using n inv(1) by (simp add: add_loop_never_stops)
  next
    case False
    let ?d = "if ?e - ?s = ?c then ?c else ?c - (?e - ?s)"
    have "(?e + i) mod ?c \<noteq> ?s" if "0 < i" "i < ?d" for i
    proof (cases "?e - ?s = ?c")
      case True
      then have e: "?e = ?s + ?c" using inv(2) by simp
      with that True have "?s mod ?c \<noteq> (?s + i) mod ?c" by (intro mod_neq_near) auto
      moreover have "?e + i = ?s + i + ?c" using e by simp
      then have "(?e + i) mod ?c = (?s + i) mod ?c" by (simp only: mod_add_self2)
      ultimately show ?thesis using False by simp
    next
      case ne: False
      with that have "?s mod ?c \<noteq> (?e + i) mod ?c" using inv by (intro mod_neq_near) auto
      with False show ?thesis by simp
    qed
    moreover have "(?e + ?d) mod ?c = ?s"
    proof -
      have "?e + ?d = ?s + (if ?e - ?s = ?c then 2 else 1) * ?c" using inv by auto
      then show ?thesis using False by simp
    qed
    moreover have "0 < ?d" using inv by auto
    ultimately show ?thesis using n False inv add_loop_stops[of ?d ?e ?c ?s 0] by auto
  qed
qed

theorem cb_add_accepts_witness:
  "\<exists>n cb'. cb_inv (CircularBuffer 4) \<and>
    cb_add (CircularBuffer 4) [Some 1, Some 2, Some 3, Some 4, Some 5, Some 6] = Inr (cb', n) \<and> n = 4"
proof -
  let ?r = "cb_add (CircularBuffer 4) [Some 1, Some 2, Some 3, Some 4, Some 5, Some 6]"
  have inv: "cb_inv (CircularBuffer 4)" by (simp add: cb_inv_new)
  have "\<exists>cb' n. ?r = Inr (cb', n)"
    by (simp add: cb_add_def CircularBuffer_def Let_def int_max_def)
  then obtain cb' n where r: "?r = Inr (cb', n)" by blast
  from cb_add_accepts[OF inv r] have "n = 4"
    by (simp add: CircularBuffer_def cb_size_def)
  with inv r show ?thesis by blast
qed

lemma cb_read_length:
  assumes "cb_inv cb"
  shows "length (cb_read cb len) =
    (if cb_capacity cb \<le> cb_end cb then len
     else min len (if cb_size cb = 0 then cb_capacity cb else nat (cb_size cb)))"
proof -
  let ?s = "cb_start cb" and ?e = "cb_end cb" and ?c = "cb_capacity cb"
  have inv: "0 < ?c" "?s \<le> ?e" "?e - ?s \<le> ?c" "cb_size cb = int (?e - ?s)"
    using assms(1) by (auto simp: cb_inv_def cb_size_def)
  show ?thesis
  proof (cases "?c \<le> ?e")
    case True
    then show ?thesis using inv(1) by (simp add: cb_read_def read_loop_never_stops)
  next
    case False
    let ?d = "if ?e = ?s then ?c else ?e - ?s"
    have "(?s + i) mod ?c \<noteq> ?e" if "0 < i" "i < ?d" for i
    proof (cases "?e = ?s")
      case True
      with that have "?s mod ?c \<noteq> (?s + i) mod ?c" by (intro mod_neq_near) auto
      with True False show ?thesis by simp
    next
      case ne: False
      with that have "(?s + i) mod ?c \<noteq> ?e mod ?c" using inv by (intro mod_neq_near) auto
      with False show ?thesis by simp
    qed
    moreover have "(?s + ?d) mod ?c = ?e" using inv False by auto
    moreover have "0 < ?d" using inv by auto
    ultimately show ?thesis using False inv read_loop_stops[of ?d ?s ?c ?e 0]
      by (auto simp: cb_read_def)
  qed
qed

text \<open>
  How many bytes \<open>read\<close> (and \<open>get\<close>) deliver. A non-empty buffer whose \<open>end\<close> is still below
  the capacity delivers no more than it holds. An empty one delivers up to a whole
  capacity, and once \<open>capacity\<close> bytes have been added over the buffer's life every request
  is served in full, from bytes that are not in the buffer.
\<close>

theorem cb_read_delivers:
  assumes "cb_inv cb"
  shows "length (cb_read cb len) =
    (if cb_capacity cb \<le> cb_end cb then len
     else min len (if cb_size cb = 0 then cb_capacity cb else nat (cb_size cb)))"
  using assms by (rule cb_read_length)

theorem cb_read_delivers_witness:
  "cb_inv (CircularBuffer 4) \<and> length (cb_read (CircularBuffer 4) 3) = 3"
proof -
  have inv: "cb_inv (CircularBuffer 4)" by (simp add: cb_inv_new)
  with cb_read_delivers[OF inv, of 3] show ?thesis
    by (simp add: CircularBuffer_def cb_size_def)
qed

text \<open>
  C21: within its contract the buffer is a FIFO queue. If the bytes fit and the byte counters
  do not pass \<open>INT_MAX\<close>, \<open>add\<close> takes all of them and appends them to the contents; \<open>read\<close> and
  \<open>get\<close> of up to \<open>size\<close> bytes return the oldest bytes, and \<open>get\<close> removes exactly these.
\<close>

theorem cb_fifo:
  assumes "cb_inv cb" and "length (cb_contents cb) + length xs \<le> cb_capacity cb"
    and "cb_end cb + length xs \<le> int_max" and "m \<le> length (cb_contents cb) + length xs"
  shows "\<exists>cb1 cb2. cb_add cb xs = Inr (cb1, length xs) \<and> cb_inv cb1 \<and>
    cb_size cb1 = int (length (cb_contents cb @ xs)) \<and>
    cb_read cb1 m = take m (cb_contents cb @ xs) \<and>
    cb_get cb1 m = Inr (cb2, take m (cb_contents cb @ xs)) \<and> cb_inv cb2 \<and>
    cb_contents cb2 = drop m (cb_contents cb @ xs)"
proof -
  have "length xs \<le> cb_budget cb" using assms(3) by (simp add: cb_budget_def)
  from cb.add_fits[OF assms(1,2) this] obtain cb1 where
    1: "cb_add cb xs = Inr (cb1, length xs)" "cb_inv cb1" "cb_contents cb1 = cb_contents cb @ xs"
    by blast
  with assms(4) have m: "m \<le> length (cb_contents cb1)" by simp
  from cb.get_fits[OF 1(2) m] 1 cb.read_fits[OF 1(2) m] cb.size_contents[OF 1(2)] show ?thesis
    by auto
qed

theorem cb_fifo_witness:
  "\<exists>cb1 cb2. cb_add (CircularBuffer 8) [Some 1, Some 2, Some 3] = Inr (cb1, 3) \<and>
    cb_get cb1 2 = Inr (cb2, [Some 1, Some 2]) \<and> cb_contents cb2 = [Some 3]"
proof -
  have "cb_inv (CircularBuffer 8)" by (simp add: cb_inv_new)
  from cb_fifo[OF this, of "[Some 1, Some 2, Some 3]" 2] show ?thesis
    by (auto simp: CircularBuffer_def cb_contents_def int_max_def)
qed

end
