(* ===== verification/Cmd_Pkg.thy ===== *)
theory Cmd_Pkg
  imports Net_Util
begin

text \<open>
  \<open>src/src/server/CmdPkg.cpp\<close>, \<open>src/include/server/CmdPkg.h\<close>: packages of the TCP command
  channel: one byte of type, two bytes of length (the whole package, most significant byte
  first), data.

  A package either wraps a buffer of its caller (\<open>CmdPkg_ext\<close>, the constructor the receiver
  uses; \<open>pk_bytes\<close> is then the caller's whole array) or owns \<open>len + 1\<close> freshly allocated
  bytes (\<open>CmdPkg_new\<close>), which are indeterminate until written. Every access is checked
  against the array, so a write past its end is a fault.
\<close>

section \<open>Package types\<close>

definition REGISTER_NICK :: byte where "REGISTER_NICK = 1"
definition ADD_BUDDIES :: byte where "ADD_BUDDIES = 2"
definition REMOVE_BUDDIES :: byte where "REMOVE_BUDDIES = 3"
definition REGISTER_NICK_ACK :: byte where "REGISTER_NICK_ACK = 101"
definition ADD_BUDDIES_ACK :: byte where "ADD_BUDDIES_ACK = 102"
definition INITIALIZE_UDP :: byte where "INITIALIZE_UDP = 105"
definition INITIALIZE_UDP_ACK :: byte where "INITIALIZE_UDP_ACK = 106"
definition BUDDIES_IDS :: byte where "BUDDIES_IDS = 150"

lemmas pkg_type_defs = REGISTER_NICK_def ADD_BUDDIES_def REMOVE_BUDDIES_def
  REGISTER_NICK_ACK_def ADD_BUDDIES_ACK_def INITIALIZE_UDP_def INITIALIZE_UDP_ACK_def
  BUDDIES_IDS_def

section \<open>The class\<close>

record CmdPkg =
  pk_bytes :: mem
  is_extbuf :: bool

definition getLen :: "CmdPkg \<Rightarrow> u16 res" where
  "getLen p = toushort host_order (pk_bytes p) 1"

definition getType :: "CmdPkg \<Rightarrow> byte res" where
  "getType p = bindF (load (pk_bytes p) 0 1) (\<lambda>bs. Inr (hd bs))"

text \<open>\<open>getData()\<close> is a pointer to the third byte; as a C string:\<close>

definition getDataStr :: "CmdPkg \<Rightarrow> cstring res" where
  "getDataStr p = cstr_at (pk_bytes p) 3"

definition CmdPkg_ext :: "mem \<Rightarrow> CmdPkg res" where
  "CmdPkg_ext buf =
     (let p = \<lparr>pk_bytes = buf, is_extbuf = True\<rparr> in
      bindF (getLen p) (\<lambda>len.
      bindF (store (pk_bytes p) (unat len) [Some 0]) (\<lambda>b.
      Inr (p\<lparr>pk_bytes := b\<rparr>))))"

definition CmdPkg_new :: "byte \<Rightarrow> u16 \<Rightarrow> CmdPkg res" where
  "CmdPkg_new type len =
     (let bytes = replicate (unat len + 1) None in
      bindF (store bytes (unat len) [Some 0]) (\<lambda>bytes.
      bindF (store bytes 0 [Some type]) (\<lambda>bytes.
      bindF (tobytes16 host_order bytes 1 len) (\<lambda>bytes.
      Inr \<lparr>pk_bytes = bytes, is_extbuf = False\<rparr>))))"

definition setInt :: "CmdPkg \<Rightarrow> nat \<Rightarrow> i32 \<Rightarrow> CmdPkg res" where
  "setInt p data_index val =
     bindF (tobytes32 host_order (pk_bytes p) (3 + data_index) val) (\<lambda>b. Inr (p\<lparr>pk_bytes := b\<rparr>))"

definition setShort :: "CmdPkg \<Rightarrow> nat \<Rightarrow> u16 \<Rightarrow> CmdPkg res" where
  "setShort p data_index val =
     bindF (tobytes16 host_order (pk_bytes p) (3 + data_index) val) (\<lambda>b. Inr (p\<lparr>pk_bytes := b\<rparr>))"

definition setBytes :: "CmdPkg \<Rightarrow> nat \<Rightarrow> mem \<Rightarrow> CmdPkg res" where
  "setBytes p data_index buf =
     bindF (store (pk_bytes p) (3 + data_index) buf) (\<lambda>b. Inr (p\<lparr>pk_bytes := b\<rparr>))"

text \<open>\<open>getData()[i] = c\<close>\<close>

definition setDataByte :: "CmdPkg \<Rightarrow> nat \<Rightarrow> byte \<Rightarrow> CmdPkg res" where
  "setDataByte p i c =
     bindF (store (pk_bytes p) (3 + i) [Some c]) (\<lambda>b. Inr (p\<lparr>pk_bytes := b\<rparr>))"

text \<open>What \<open>Send(getBytes(), getLen())\<close> hands to the socket.\<close>

definition wire :: "CmdPkg \<Rightarrow> mem res" where
  "wire p = bindF (getLen p) (\<lambda>len. Inr (take (unat len) (pk_bytes p)))"

section \<open>Layout\<close>

text \<open>The array of a package of \<open>n\<close> bytes whose data part is \<open>d\<close>.\<close>

definition layout :: "byte \<Rightarrow> nat \<Rightarrow> mem \<Rightarrow> mem" where
  "layout type n d = Some type # map Some (be16 (of_nat n)) @ d @ [Some 0]"

lemma length_layout [simp]: "length (layout t n d) = length d + 4"
  by (simp add: layout_def)

lemma CmdPkg_new_layout:
  assumes "2 < unat len"
  shows "CmdPkg_new t len =
    Inr \<lparr>pk_bytes = layout t (unat len) (replicate (unat len - 3) None), is_extbuf = False\<rparr>"
proof -
  obtain k where k: "unat len = Suc (Suc (Suc k))"
    using assms by (metis less_imp_Suc_add numeral_2_eq_2 add_Suc)
  have l: "of_nat (unat len) = len" by simp
  have "take k (None # replicate k (None :: cell)) = replicate k None"
    using take_replicate[of k "Suc k" "None :: cell"] by simp
  then show ?thesis
    unfolding CmdPkg_new_def layout_def l
    by (simp add: k store_def net_simps be16_def)
qed

lemma load_layout_len: "load (layout t n d) (Suc 0) 2 = Inr (be16 (of_nat n))"
  by (simp add: load_Inr layout_def be16_def)

lemma getLen_layout: "pk_bytes p = layout t n d \<Longrightarrow> getLen p = Inr (of_nat n)"
  by (simp add: getLen_def net_simps load_layout_len)

lemma getType_layout: "pk_bytes p = layout t n d \<Longrightarrow> getType p = Inr t"
  by (simp add: getType_def load_def layout_def)

lemma store_layout:
  assumes "i + length cs \<le> length d"
  shows "store (layout t n d) (3 + i) cs = Inr (layout t n (take i d @ cs @ drop (i + length cs) d))"
  using assms by (simp add: store_def layout_def be16_def numeral_3_eq_3)

lemma wire_layout:
  assumes "n = 3 + length d" "n < 2 ^ 16" "pk_bytes p = layout t n d"
  shows "wire p = Inr (Some t # map Some (be16 (of_nat n)) @ d)"
proof -
  have "unat (of_nat n :: u16) = n" using assms(2) by (simp add: unat_of_nat)
  then show ?thesis
    using assms getLen_layout[OF assms(3)]
    by (simp add: wire_def) (simp add: layout_def be16_def numeral_3_eq_3)
qed

text \<open>A package the server builds, and the operations on it.\<close>

definition mk_pkg :: "byte \<Rightarrow> nat \<Rightarrow> mem \<Rightarrow> CmdPkg" where
  "mk_pkg t n d = \<lparr>pk_bytes = layout t n d, is_extbuf = False\<rparr>"

lemma CmdPkg_new_pkg:
  assumes "n = 3 + k" "n < 2 ^ 16"
  shows "CmdPkg_new t (of_nat n) = Inr (mk_pkg t n (replicate k None))"
proof -
  have "unat (of_nat n :: u16) = n" using assms(2) by (simp add: unat_of_nat)
  then show ?thesis using CmdPkg_new_layout[of "of_nat n" t] assms(1) by (simp add: mk_pkg_def)
qed

lemma setBytes_pkg:
  "i + length cs \<le> length d \<Longrightarrow>
   setBytes (mk_pkg t n d) i cs = Inr (mk_pkg t n (take i d @ cs @ drop (i + length cs) d))"
  by (simp add: setBytes_def mk_pkg_def store_layout)

lemma setDataByte_pkg:
  "i < length d \<Longrightarrow> setDataByte (mk_pkg t n d) i c = Inr (mk_pkg t n (take i d @ Some c # drop (Suc i) d))"
  using store_layout[of i "[Some c]" d t n] by (simp add: setDataByte_def mk_pkg_def)

lemma setInt_pkg:
  "i + 4 \<le> length d \<Longrightarrow>
   setInt (mk_pkg t n d) i v = Inr (mk_pkg t n (take i d @ map Some (be32 v) @ drop (i + 4) d))"
  using store_layout[of i "map Some (be32 v)" d t n]
  by (simp add: setInt_def mk_pkg_def net_simps)

lemma wire_pkg:
  "n = 3 + length d \<Longrightarrow> n < 2 ^ 16 \<Longrightarrow> wire (mk_pkg t n d) = Inr (Some t # map Some (be16 (of_nat n)) @ d)"
  by (rule wire_layout) (simp_all add: mk_pkg_def)

lemmas pkg_ops = setBytes_pkg setDataByte_pkg setInt_pkg

section \<open>Sending and receiving\<close>

lemma load_take: "i + n \<le> k \<Longrightarrow> k \<le> length m \<Longrightarrow> load (take k m) i n = load m i n"
  by (simp add: load_def drop_take min_def)

lemma CmdPkg_ext_ok:
  assumes "load buf 1 2 = Inr bs" and "unat (val16 bs) < length buf"
  shows "CmdPkg_ext buf = Inr \<lparr>pk_bytes = buf[unat (val16 bs) := Some 0], is_extbuf = True\<rparr>"
  using assms
  by (simp add: CmdPkg_ext_def getLen_def net_simps store_def upd_conv_take_nth_drop)

lemma CmdPkg_ext_overflow:
  assumes "load buf 1 2 = Inr bs" and "length buf \<le> unat (val16 bs)"
  shows "CmdPkg_ext buf = Inl (Undefined OutOfBounds)"
  using assms by (simp add: CmdPkg_ext_def getLen_def net_simps store_def)

text \<open>The receiving constructor on an array that starts with a package of \<open>n\<close> bytes.\<close>

lemma CmdPkg_ext_wire:
  assumes "0 \<notin> set data" and "n = 3 + length data" and "n < 2 ^ 16" and "rest \<noteq> []"
  shows "\<exists>q. CmdPkg_ext (map Some (t # be16 (of_nat n) @ data) @ rest) = Inr q \<and>
    getType q = Inr t \<and> getLen q = Inr (of_nat n) \<and> getDataStr q = Inr data \<and>
    length (pk_bytes q) = n + length rest"
proof -
  have u: "unat (of_nat n :: u16) = n" using assms(3) by (simp add: unat_of_nat)
  let ?buf = "map Some (t # be16 (of_nat n) @ data) @ rest"
  let ?q = "\<lparr>pk_bytes = layout t n (map Some data) @ tl rest, is_extbuf = True\<rparr>"
  have ld: "load ?buf 1 2 = Inr (be16 (of_nat n))"
    by (simp add: load_Inr be16_def)
  have buf': "?buf[n := Some 0] = layout t n (map Some data) @ tl rest"
    using assms(2,4) by (cases rest) (simp_all add: list_update_append layout_def be16_def)
  have "CmdPkg_ext ?buf = Inr ?q"
    using CmdPkg_ext_ok[OF ld] u assms(2,4) buf' by (cases rest) simp_all
  moreover have "getDataStr ?q = Inr data"
    using assms(1) by (simp add: getDataStr_def cstr_at_def layout_def be16_def numeral_3_eq_3)
  moreover have "getType ?q = Inr t"
    by (simp add: getType_def layout_def load_def)
  moreover have "getLen ?q = Inr (of_nat n)"
    by (simp add: getLen_def net_simps layout_def load_def be16_def val16_def)
  moreover have "length (pk_bytes ?q) = n + length rest" using assms(2,4) by (cases rest) simp_all
  ultimately show ?thesis by blast
qed

text \<open>
  C29: round trip of a command. A package of type \<open>t\<close> with \<open>data\<close> (no NUL byte) that
  \<open>CmdPkg_new\<close> and \<open>setBytes\<close> build goes over the wire as type, length and data, all of it
  initialised; received at the front of a longer array and wrapped by the receiving
  constructor it shows the same type, length and data.
\<close>

theorem CmdPkg_roundtrip:
  assumes "0 \<notin> set data" and "n = 3 + length data" and "n < 2 ^ 16"
    and "length rest = m" and "0 < m"
  shows "\<exists>p q. bindF (CmdPkg_new t (of_nat n)) (\<lambda>p. setBytes p 0 (map Some data)) = Inr p \<and>
    wire p = Inr (map Some (t # be16 (of_nat n) @ data)) \<and>
    CmdPkg_ext (map Some (t # be16 (of_nat n) @ data) @ rest) = Inr q \<and>
    getType q = Inr t \<and> getLen q = Inr (of_nat n) \<and> getDataStr q = Inr data"
proof -
  have u: "unat (of_nat n :: u16) = n" using assms(3) by (simp add: unat_of_nat)
  let ?p = "\<lparr>pk_bytes = layout t n (map Some data), is_extbuf = False\<rparr>"
  have new: "CmdPkg_new t (of_nat n) =
      Inr \<lparr>pk_bytes = layout t n (replicate (length data) None), is_extbuf = False\<rparr>"
    using CmdPkg_new_layout[of "of_nat n" t] u assms(2) by simp
  have st: "setBytes \<lparr>pk_bytes = layout t n (replicate (length data) None), is_extbuf = False\<rparr> 0
      (map Some data) = Inr ?p"
    using store_layout[of 0 "map Some data" "replicate (length data) None" t n]
    by (simp add: setBytes_def)
  have w: "wire ?p = Inr (map Some (t # be16 (of_nat n) @ data))"
    using wire_layout[of n "map Some data" ?p t] assms(2,3) by simp
  from CmdPkg_ext_wire[OF assms(1-3), of rest t] assms(4,5) new st w show ?thesis by auto
qed

theorem CmdPkg_roundtrip_witness:
  "\<exists>p q. bindF (CmdPkg_new REGISTER_NICK 6) (\<lambda>p. setBytes p 0 (map Some [102, 111, 111])) = Inr p \<and>
    wire p = Inr (map Some [1, 0, 6, 102, 111, 111]) \<and>
    CmdPkg_ext (map Some [1, 0, 6, 102, 111, 111] @ [None, None]) = Inr q \<and>
    getDataStr q = Inr [102, 111, 111]"
proof -
  have e: "be16 6 = [0, 6]" by code_simp
  have hyps: "(0::byte) \<notin> set [102, 111, 111]" "6 = 3 + length [102, 111, 111 :: byte]"
    "(6::nat) < 2 ^ 16" "length [None, None :: cell] = 2" "0 < (2::nat)" by simp_all
  from CmdPkg_roundtrip[OF hyps, of REGISTER_NICK, unfolded of_nat_numeral e append.simps]
  show ?thesis unfolding REGISTER_NICK_def by blast
qed

end
