(* ===== verification/Socket_Model.thy ===== *)
theory Socket_Model
  imports Net_Util
begin

text \<open>
  \<open>src/src/socket/Socket.cpp\<close>, \<open>src/include/socket/Socket.h\<close>, \<open>SocketException\<close>: the wrapper
  around a socket descriptor.

  What the kernel does is a script in the socket: \<open>sk_rx\<close> lists what \<open>recv\<close> will deliver
  (empty: it would block), \<open>sk_tx\<close> what the next \<open>send\<close>s will do (empty: they succeed in
  full) and \<open>sk_out\<close> collects the bytes the kernel accepted. A method that throws
  \<open>SocketException\<close> returns the \<open>errno\<close> the exception carries.
\<close>

section \<open>Results of system calls\<close>

definition EAGAIN :: int where "EAGAIN = 11"

text \<open>On Linux \<open>EWOULDBLOCK\<close> is the same number.\<close>

definition EWOULDBLOCK :: int where "EWOULDBLOCK = EAGAIN"

datatype recv_res = RecvData "byte list" | RecvErr int

datatype send_res = SendOk nat | SendErr int

text \<open>A \<open>char*\<close> member: indeterminate, \<open>NULL\<close> or a string.\<close>

datatype cptr = Indet | Null | Str cstring

record Socket =
  sockfd :: int
  sk_host :: cptr
  sk_port :: cptr
  socktype :: int
  sk_addr :: "sockaddr_storage option"
  sk_rx :: "recv_res list"
  sk_tx :: "send_res list"
  sk_out :: mem

section \<open>Construction\<close>

definition Socket_fd :: "int \<Rightarrow> Socket" where
  "Socket_fd sfd =
     \<lparr>sockfd = sfd, sk_host = Indet, sk_port = Indet, socktype = 0, sk_addr = None,
      sk_rx = [], sk_tx = [], sk_out = []\<rparr>"

definition Socket_new :: "cstring option \<Rightarrow> cstring option \<Rightarrow> int \<Rightarrow> Socket" where
  "Socket_new host port stype =
     \<lparr>sockfd = - 1,
      sk_host = (case host of None \<Rightarrow> Null | Some s \<Rightarrow> Str s),
      sk_port = (case port of None \<Rightarrow> Null | Some s \<Rightarrow> Str s),
      socktype = stype, sk_addr = None, sk_rx = [], sk_tx = [], sk_out = []\<rparr>"

text \<open>The destructor frees \<open>host\<close> and \<open>port\<close>; freeing an indeterminate pointer is undefined.\<close>

definition Socket_delete :: "Socket \<Rightarrow> unit res" where
  "Socket_delete s =
     (if sk_host s = Indet \<or> sk_port s = Indet then Inl (Undefined UninitRead) else Inr ())"

section \<open>Recv, Send, SendAll\<close>

definition Socket_Recv :: "Socket \<Rightarrow> nat \<Rightarrow> recv_res \<times> Socket" where
  "Socket_Recv s len =
     (case sk_rx s of
        [] \<Rightarrow> (RecvErr EAGAIN, s)
      | RecvErr e # r \<Rightarrow> (RecvErr e, s\<lparr>sk_rx := r\<rparr>)
      | RecvData bs # r \<Rightarrow>
          if length bs \<le> len then (RecvData bs, s\<lparr>sk_rx := r\<rparr>)
          else (RecvData (take len bs), s\<lparr>sk_rx := RecvData (drop len bs) # r\<rparr>))"

definition Socket_Send :: "Socket \<Rightarrow> mem \<Rightarrow> send_res \<times> Socket" where
  "Socket_Send s buf =
     (case sk_tx s of
        [] \<Rightarrow> (SendOk (length buf), s\<lparr>sk_out := sk_out s @ buf\<rparr>)
      | SendErr e # r \<Rightarrow> (SendErr e, s\<lparr>sk_tx := r\<rparr>)
      | SendOk k # r \<Rightarrow>
          (SendOk (min k (length buf)), s\<lparr>sk_tx := r, sk_out := sk_out s @ take k buf\<rparr>))"

lemma Socket_Send_progress:
  "Socket_Send s buf = (SendOk n, s') \<Longrightarrow> buf \<noteq> [] \<Longrightarrow> length (sk_tx s') < length (sk_tx s) \<or> 0 < n"
  by (auto simp: Socket_Send_def split: list.splits send_res.splits)

lemma Socket_Send_tx_le: "Socket_Send s buf = (r, s') \<Longrightarrow> length (sk_tx s') \<le> length (sk_tx s)"
  by (auto simp: Socket_Send_def split: list.splits send_res.splits)

text \<open>
  \<open>SendAll\<close>: the bytes left to send; the result is the number sent and whether it threw.
  A \<open>send\<close> that reports 0 makes no progress and consumes one entry of the script.
\<close>

function SendAll_loop :: "Socket \<Rightarrow> mem \<Rightarrow> nat \<Rightarrow> (nat \<times> int option) \<times> Socket" where
  "SendAll_loop s buf tot =
     (if tot < length buf then
        (case Socket_Send s (drop tot buf) of
           (SendErr e, s') \<Rightarrow> ((tot, Some e), s')
         | (SendOk n, s') \<Rightarrow> SendAll_loop s' buf (tot + n))
      else ((tot, None), s))"
  by pat_completeness auto

termination
proof (relation "measure (\<lambda>(s, buf, tot). length (sk_tx s) + (length buf - tot))")
  fix s :: Socket and buf tot r s' n
  assume a: "tot < length buf" "(r, s') = Socket_Send s (drop tot buf)" "r = SendOk n"
  then have "length (sk_tx s') < length (sk_tx s) \<or> 0 < n" "length (sk_tx s') \<le> length (sk_tx s)"
    using Socket_Send_progress[of s "drop tot buf" n s'] Socket_Send_tx_le[of s "drop tot buf" r s']
    by auto
  with a(1) show "((s', buf, tot + n), (s, buf, tot)) \<in>
      measure (\<lambda>(s, buf, tot). length (sk_tx s) + (length buf - tot))"
    by auto
qed simp

declare SendAll_loop.simps [simp del]

definition Socket_SendAll :: "Socket \<Rightarrow> mem \<Rightarrow> (nat \<times> int option) \<times> Socket" where
  "Socket_SendAll s buf = SendAll_loop s buf 0"

section \<open>Lemmas\<close>

lemma Socket_Send_all: "sk_tx s = [] \<Longrightarrow> Socket_Send s buf = (SendOk (length buf), s\<lparr>sk_out := sk_out s @ buf\<rparr>)"
  by (simp add: Socket_Send_def)

lemma Socket_Send_frame:
  "Socket_Send s buf = (r, s') \<Longrightarrow> sockfd s' = sockfd s \<and> sk_addr s' = sk_addr s \<and> sk_rx s' = sk_rx s \<and>
     sk_host s' = sk_host s \<and> sk_port s' = sk_port s"
  by (auto simp: Socket_Send_def split: list.splits send_res.splits)

lemma Socket_Send_out:
  "Socket_Send s buf = (r, s') \<Longrightarrow>
   (case r of SendOk n \<Rightarrow> n \<le> length buf \<and> sk_out s' = sk_out s @ take n buf
            | SendErr e \<Rightarrow> sk_out s' = sk_out s)"
  by (auto simp: Socket_Send_def min_def split: list.splits send_res.splits)

lemma SendAll_loop_out:
  assumes "SendAll_loop s buf tot = ((n, err), s')" "tot \<le> length buf"
  shows "tot \<le> n \<and> n \<le> length buf \<and> sk_out s' = sk_out s @ drop tot (take n buf) \<and>
    (err = None \<longrightarrow> n = length buf)"
  using assms
proof (induction s buf tot rule: SendAll_loop.induct)
  case (1 s buf tot)
  show ?case
  proof (cases "tot < length buf")
    case False
    with "1.prems" show ?thesis by (auto simp: SendAll_loop.simps[of s buf tot])
  next
    case True
    obtain r s1 where r: "Socket_Send s (drop tot buf) = (r, s1)" by fastforce
    show ?thesis
    proof (cases r)
      case (SendErr e)
      with True r "1.prems" Socket_Send_out[OF r] show ?thesis
        by (auto simp: SendAll_loop.simps[of s buf tot])
    next
      case (SendOk k)
      with Socket_Send_out[OF r] have k: "k \<le> length buf - tot"
        "sk_out s1 = sk_out s @ take k (drop tot buf)" by auto
      have "SendAll_loop s1 buf (tot + k) = ((n, err), s')"
        using True r SendOk "1.prems"(1) by (simp add: SendAll_loop.simps[of s buf tot])
      with "1.IH"[OF True r[symmetric] SendOk] k True
      have IH: "tot + k \<le> n" "n \<le> length buf"
        "sk_out s' = sk_out s1 @ drop (tot + k) (take n buf)" "err = None \<longrightarrow> n = length buf"
        by auto
      have "take k (drop tot buf) @ drop (tot + k) (take n buf) = drop tot (take n buf)"
      proof -
        have "take k (drop tot (take n buf)) = take k (drop tot buf)"
          using IH(1,2) by (simp add: drop_take min_def)
        then show ?thesis
          by (metis append_take_drop_id drop_drop add.commute)
      qed
      with IH k show ?thesis by auto
    qed
  qed
qed

text \<open>
  C30: \<open>SendAll\<close> returns for every behaviour of \<open>send\<close>; the peer gets a prefix of the buffer,
  in order and without gaps, of exactly the length reported, and the whole buffer unless
  it throws.
\<close>

theorem SendAll_spec:
  assumes "Socket_SendAll s buf = ((n, err), s')"
  shows "n \<le> length buf \<and> sk_out s' = sk_out s @ take n buf \<and> (err = None \<longrightarrow> n = length buf)"
  using SendAll_loop_out[of s buf 0 n err s'] assms unfolding Socket_SendAll_def by simp

theorem SendAll_spec_witness:
  "\<exists>s'. Socket_SendAll ((Socket_fd 4)\<lparr>sk_tx := [SendOk 1, SendOk 0]\<rparr>) [Some 1, Some 2, Some 3] =
     ((3, None), s') \<and> sk_out s' = [Some 1, Some 2, Some 3]"
proof -
  let ?s = "(Socket_fd 4)\<lparr>sk_tx := [SendOk 1, SendOk 0]\<rparr>"
  have r: "Socket_SendAll ?s [Some 1, Some 2, Some 3] =
      ((3, None), (Socket_fd 4)\<lparr>sk_out := [Some 1, Some 2, Some 3]\<rparr>)"
    by (simp add: Socket_SendAll_def SendAll_loop.simps Socket_Send_def Socket_fd_def)
  from SendAll_spec[OF r] r show ?thesis by (simp add: Socket_fd_def)
qed

end
