(* ===== verification/Socket_Setup.thy ===== *)
theory Socket_Setup
  imports Socket_Model
begin

text \<open>
  The rest of \<open>src/src/socket/Socket.cpp\<close>: opening a socket (\<open>Getaddrinfo\<close>, \<open>Bind\<close>, \<open>Connect\<close>),
  \<open>Listen\<close>, \<open>addFlags\<close>, \<open>Accept\<close>, \<open>Close\<close>, the datagram calls, and the printing functions of
  \<open>src/src/socket/netutil.cpp\<close>.

  What the kernel and the resolver answer is an argument: the result of \<open>getaddrinfo\<close>, for
  every candidate address the descriptor \<open>socket\<close> returns (-1 for failure) and whether \<open>bind\<close>
  (or \<open>connect\<close>) succeeds, the result of \<open>accept\<close>, \<open>fcntl\<close> and \<open>close\<close>. \<open>inet_ntop\<close> is a
  parameter too.
\<close>

section \<open>Bind and Connect\<close>

record addrinfo =
  ai_addr :: sockaddr_storage
  ai_fd :: int
  ai_ok :: bool

datatype open_error = AlreadyInitialized | GaiFailed int | NoneOpened

text \<open>
  The loop over the candidates; the result is the candidate it stopped at, the socket, and the
  descriptors it closed.
\<close>

fun open_loop :: "addrinfo list \<Rightarrow> Socket \<Rightarrow> int list \<Rightarrow> addrinfo option \<times> Socket \<times> int list" where
  "open_loop [] s closed = (None, s, closed)"
| "open_loop (p # ps) s closed =
     (let s = s\<lparr>sockfd := ai_fd p\<rparr> in
      if sockfd s = - 1 then open_loop ps s closed
      else if \<not> ai_ok p then open_loop ps s (closed @ [sockfd s])
      else (Some p, s, closed))"

definition Getaddrinfo :: "int + addrinfo list \<Rightarrow> open_error + addrinfo list" where
  "Getaddrinfo gai = (case gai of Inl rv \<Rightarrow> Inl (GaiFailed rv) | Inr servinfo \<Rightarrow> Inr servinfo)"

text \<open>The exception thrown (if any), the socket afterwards and the descriptors closed.\<close>

definition Socket_Bind :: "int + addrinfo list \<Rightarrow> Socket \<Rightarrow> open_error option \<times> Socket \<times> int list" where
  "Socket_Bind gai s =
     (if sockfd s \<noteq> - 1 then (Some AlreadyInitialized, s, [])
      else (case Getaddrinfo gai of
              Inl e \<Rightarrow> (Some e, s, [])
            | Inr servinfo \<Rightarrow>
                (case open_loop servinfo s [] of
                   (None, s, closed) \<Rightarrow> (Some NoneOpened, s, closed)
                 | (Some p, s, closed) \<Rightarrow> (None, s\<lparr>sk_addr := Some (ai_addr p)\<rparr>, closed))))"

definition Socket_Connect :: "int + addrinfo list \<Rightarrow> Socket \<Rightarrow> open_error option \<times> Socket \<times> int list" where
  "Socket_Connect gai s =
     (if sockfd s \<noteq> - 1 then (Some AlreadyInitialized, s, [])
      else (case Getaddrinfo gai of
              Inl e \<Rightarrow> (Some e, s, [])
            | Inr servinfo \<Rightarrow>
                (case open_loop servinfo s [] of
                   (None, s, closed) \<Rightarrow> (Some NoneOpened, s, closed)
                 | (Some p, s, closed) \<Rightarrow> (None, s\<lparr>sk_addr := Some (ai_addr p)\<rparr>, closed))))"

section \<open>Listen, addFlags, Close\<close>

definition Socket_Listen :: "int option \<Rightarrow> unit res" where
  "Socket_Listen err = (case err of None \<Rightarrow> Inr () | Some e \<Rightarrow> Inl (Throw (SocketException e)))"

text \<open>\<open>flags\<close>: what \<open>F_GETFL\<close> returns or its errno; \<open>set_err\<close>: the errno of \<open>F_SETFL\<close>. The result
  is the new flag word of the descriptor.\<close>

definition addFlags :: "int + i32 \<Rightarrow> int option \<Rightarrow> i32 \<Rightarrow> i32 res" where
  "addFlags flags set_err new_flags =
     (case flags of
        Inl e \<Rightarrow> Inl (Throw (SocketException e))
      | Inr fl \<Rightarrow> (case set_err of
            Some e \<Rightarrow> Inl (Throw (SocketException e))
          | None \<Rightarrow> Inr (or fl new_flags)))"

definition Socket_Close :: "int option \<Rightarrow> unit res" where
  "Socket_Close err = (case err of None \<Rightarrow> Inr () | Some e \<Rightarrow> Inl (Throw (SocketException e)))"

section \<open>Accept and the text of addresses\<close>

text \<open>\<open>sprintf("%u")\<close>: the decimal digits.\<close>

fun dec :: "nat \<Rightarrow> cstring" where
  "dec n = (if n < 10 then [of_nat (48 + n)] else dec (n div 10) @ [of_nat (48 + n mod 10)])"

declare dec.simps [simp del]

text \<open>
  The socket for an accepted connection with descriptor \<open>fd\<close> and address \<open>a\<close>. The port is
  printed without \<open>ntohs\<close>; the block it is printed into has 6 bytes.
\<close>

definition PORT_BUF :: nat where "PORT_BUF = 6"

definition print_port :: "sockaddr_storage \<Rightarrow> cstring res" where
  "print_port a =
     (let t = dec (unat (sin_port a)) in
      if length t + 1 > PORT_BUF then Inl (Undefined HeapOverflow) else Inr t)"

definition Socket_Accept ::
  "(sockaddr_storage \<Rightarrow> cstring) \<Rightarrow> int + int \<times> sockaddr_storage \<Rightarrow> Socket res" where
  "Socket_Accept inet_ntop acc =
     (case acc of
        Inl e \<Rightarrow> Inl (Throw (SocketException e))
      | Inr (fd, a) \<Rightarrow>
          let s = (Socket_fd fd)\<lparr>sk_addr := Some a\<rparr> in
          if ss_family a = AF_INET \<or> ss_family a = AF_INET6
          then bindF (print_port a) (\<lambda>t. Inr (s\<lparr>sk_host := Str (inet_ntop a), sk_port := Str t\<rparr>))
          else Inr s)"

text \<open>\<open>ip_printable\<close> and \<open>socket_printable\<close>: what they write to \<open>out_buf\<close> (\<open>None\<close>: nothing).\<close>

definition ip_printable :: "(sockaddr_storage \<Rightarrow> cstring) \<Rightarrow> sockaddr_storage \<Rightarrow> cstring option" where
  "ip_printable inet_ntop a =
     (if ss_family a = AF_INET \<or> ss_family a = AF_INET6 then Some (inet_ntop a) else None)"

definition socket_printable :: "(sockaddr_storage \<Rightarrow> cstring) \<Rightarrow> sockaddr_storage \<Rightarrow> cstring option" where
  "socket_printable inet_ntop a =
     (if ss_family a = AF_INET \<or> ss_family a = AF_INET6
      then Some (inet_ntop a @ [58] @ dec (unat (sin_port a))) else None)"

text \<open>
  The stream operator for sockets, which the log messages use: \<open>localhost\<close> for a null host; a null or
  indeterminate string is undefined.
\<close>

definition show_cptr :: "cptr \<Rightarrow> cstring res" where
  "show_cptr p = (case p of Indet \<Rightarrow> Inl (Undefined UninitRead) | Null \<Rightarrow> Inl (Undefined NullDeref) | Str t \<Rightarrow> Inr t)"

definition show_socket :: "Socket \<Rightarrow> cstring res" where
  "show_socket s =
     bindF (if sk_host s = Null then Inr [108, 111, 99, 97, 108, 104, 111, 115, 116] else show_cptr (sk_host s)) (\<lambda>host.
     bindF (show_cptr (sk_port s)) (\<lambda>port. Inr (host @ [58] @ port)))"

lemma show_socket_Accept:
  assumes "Socket_Accept inet_ntop (Inr (fd, a)) = Inr s" "ss_family a = AF_INET \<or> ss_family a = AF_INET6"
  shows "show_socket s = Inr (inet_ntop a @ [58] @ dec (unat (sin_port a)))"
  using assms by (auto simp: Socket_Accept_def print_port_def show_socket_def show_cptr_def Let_def fault_simps split: if_splits)

text \<open>A socket that the stream operator accepts can be deleted: neither string is indeterminate.\<close>

lemma show_socket_delete: "show_socket s = Inr t \<Longrightarrow> Socket_delete s = Inr ()"
  by (auto simp: show_socket_def show_cptr_def Socket_delete_def fault_simps split: if_splits)

section \<open>Opening a socket\<close>

text \<open>A candidate that can be opened.\<close>

definition opens :: "addrinfo \<Rightarrow> bool" where "opens p \<longleftrightarrow> ai_fd p \<noteq> - 1 \<and> ai_ok p"

definition leftovers :: "addrinfo list \<Rightarrow> int list" where
  "leftovers ps = map ai_fd (filter (\<lambda>p. ai_fd p \<noteq> - 1) ps)"

lemma open_loop_skip:
  "\<forall>p \<in> set ps. \<not> opens p \<Longrightarrow>
   open_loop (ps @ qs) s closed =
     open_loop qs (if ps = [] then s else s\<lparr>sockfd := ai_fd (last ps)\<rparr>) (closed @ leftovers ps)"
proof (induction ps arbitrary: s closed)
  case (Cons p ps)
  then show ?case by (auto simp: opens_def leftovers_def Let_def)
qed (simp add: leftovers_def)

lemma open_loop_found:
  "opens p \<Longrightarrow> open_loop (p # qs) s closed = (Some p, s\<lparr>sockfd := ai_fd p\<rparr>, closed)"
  by (simp add: opens_def)

text \<open>
  \<open>Bind\<close> takes the first candidate that can be opened: the socket gets its descriptor and
  its address, and every descriptor opened on the way is closed. When none can be opened it
  throws, all descriptors it opened are closed again, but \<open>sockfd\<close> keeps the number of the last
  one tried: unless that attempt failed in \<open>socket\<close>, the object counts as initialised for
  ever after and a second \<open>Bind\<close> is refused whatever the resolver then offers.
\<close>

theorem Bind_spec:
  assumes fresh: "sockfd s = - 1" and no: "\<forall>p \<in> set ps. \<not> opens p"
  shows "(opens p \<longrightarrow> Socket_Bind (Inr (ps @ p # qs)) s =
      (None, s\<lparr>sockfd := ai_fd p, sk_addr := Some (ai_addr p)\<rparr>, leftovers ps)) \<and>
    (ps \<noteq> [] \<longrightarrow> Socket_Bind (Inr ps) s =
      (Some NoneOpened, s\<lparr>sockfd := ai_fd (last ps)\<rparr>, leftovers ps)) \<and>
    (ps \<noteq> [] \<longrightarrow> ai_fd (last ps) \<noteq> - 1 \<longrightarrow>
      fst (Socket_Bind gai (fst (snd (Socket_Bind (Inr ps) s)))) = Some AlreadyInitialized)"
proof -
  have "open_loop (ps @ [] ) s [] = (None, s\<lparr>sockfd := ai_fd (last ps)\<rparr>, leftovers ps)" if "ps \<noteq> []"
    using open_loop_skip[OF no, of "[]" s "[]"] that by simp
  moreover have "open_loop (ps @ p # qs) s [] = (Some p, s\<lparr>sockfd := ai_fd p\<rparr>, leftovers ps)" if "opens p"
    using open_loop_skip[OF no, of "p # qs" s "[]"] open_loop_found[OF that] by simp
  ultimately show ?thesis using fresh by (auto simp: Socket_Bind_def Getaddrinfo_def)
qed

theorem Bind_spec_witness:
  "Socket_Bind (Inr [\<lparr>ai_addr = \<lparr>ss_family = 2, sin_port = 0, sin_addr = 0, sin6_addr = []\<rparr>, ai_fd = 7, ai_ok = False\<rparr>])
     (Socket_new None None 1) =
   (Some NoneOpened, (Socket_new None None 1)\<lparr>sockfd := 7\<rparr>, [7])"
proof -
  let ?p = "\<lparr>ai_addr = \<lparr>ss_family = 2, sin_port = 0, sin_addr = 0, sin6_addr = []\<rparr>, ai_fd = 7, ai_ok = False\<rparr>"
  have a: "sockfd (Socket_new None None 1) = - 1" by (simp add: Socket_new_def)
  have b: "\<forall>p \<in> set [?p]. \<not> opens p" by (simp add: opens_def)
  from Bind_spec[OF a b] show ?thesis by (simp add: leftovers_def)
qed

section \<open>The text of a port\<close>

definition undec :: "cstring \<Rightarrow> nat" where
  "undec t = foldl (\<lambda>a d. 10 * a + (unat d - 48)) 0 t"

lemma unat_digit: "d < 10 \<Longrightarrow> unat (of_nat (48 + d) :: byte) = 48 + d"
  by (simp only: unat_of_nat) simp

lemma undec_dec [simp]: "undec (dec n) = n"
proof (induction n rule: dec.induct)
  case (1 n)
  show ?case
  proof (cases "n < 10")
    case True
    then show ?thesis using unat_digit[of n] by (subst dec.simps) (simp add: undec_def)
  next
    case False
    have d: "n mod 10 < 10" by simp
    from False 1 have IH: "undec (dec (n div 10)) = n div 10" by simp
    have "undec (dec n) = 10 * undec (dec (n div 10)) + (unat (of_nat (48 + n mod 10) :: byte) - 48)"
      using False by (subst dec.simps) (simp add: undec_def)
    also have "\<dots> = 10 * (n div 10) + n mod 10" unfolding IH unat_digit[OF d] by simp
    finally show ?thesis by simp
  qed
qed

lemma length_dec: "n < 10 ^ Suc k \<Longrightarrow> length (dec n) \<le> Suc k"
proof (induction k arbitrary: n)
  case 0
  then show ?case by (subst dec.simps) simp
next
  case (Suc k)
  have "n div 10 < 10 ^ Suc k" using Suc.prems by (simp add: less_mult_imp_div_less)
  from Suc.IH[OF this] show ?case by (subst dec.simps) simp
qed

lemma length_dec_u16: "length (dec (unat (w :: u16))) \<le> 5"
proof -
  have "unat w < 2 ^ 16" using unsigned_less[of w] by simp
  then have "unat w < 10 ^ Suc 4" by simp
  then show ?thesis using length_dec[of "unat w" 4] by simp
qed

text \<open>
  The text of an accepted connection's port. The five digits and the NUL always fit the
  6-byte block, so \<open>Accept\<close> never writes past it; read back as a number the text is the port
  field as stored, in network byte order, so on the little-endian host it is the peer's port
  with its two bytes swapped.
\<close>

theorem Accept_port:
  assumes "ss_family a = AF_INET \<or> ss_family a = AF_INET6"
  shows "\<exists>s t. Socket_Accept inet_ntop (Inr (fd, a)) = Inr s \<and> sockfd s = fd \<and> sk_addr s = Some a \<and>
    sk_host s = Str (inet_ntop a) \<and> sk_port s = Str t \<and> length t + 1 \<le> PORT_BUF \<and>
    undec t = unat (sin_port a) \<and>
    (undec t = unat (ntohs host_order (sin_port a)) \<longleftrightarrow> byte16 0 (sin_port a) = byte16 1 (sin_port a))"
proof -
  let ?w = "sin_port a"
  let ?t = "dec (unat ?w)"
  have sw: "ntohs host_order ?w = mk16 (byte16 0 ?w) (byte16 1 ?w)"
    by (simp add: host_order_def be16_def val16_def)
  have "?w = mk16 (byte16 0 ?w) (byte16 1 ?w) \<longleftrightarrow> byte16 0 ?w = byte16 1 ?w"
  proof
    assume "?w = mk16 (byte16 0 ?w) (byte16 1 ?w)"
    from arg_cong[OF this, of "byte16 0"] show "byte16 0 ?w = byte16 1 ?w" by simp
  next
    assume "byte16 0 ?w = byte16 1 ?w"
    then show "?w = mk16 (byte16 0 ?w) (byte16 1 ?w)" using mk16_bytes[of ?w] by simp
  qed
  then have eq: "unat ?w = unat (ntohs host_order ?w) \<longleftrightarrow> byte16 0 ?w = byte16 1 ?w"
    unfolding sw by (simp only: unsigned_word_eqI word_unat_eq_iff)
  have "length ?t + 1 \<le> PORT_BUF" using length_dec_u16[of ?w] by (simp add: PORT_BUF_def)
  with assms eq show ?thesis
    by (auto simp: Socket_Accept_def print_port_def Let_def Socket_fd_def)
qed

theorem Accept_port_witness:
  "\<exists>s t. Socket_Accept (\<lambda>_. [49]) (Inr (9, \<lparr>ss_family = 2, sin_port = 36895, sin_addr = 1, sin6_addr = []\<rparr>)) = Inr s \<and>
     sk_port s = Str t \<and> length t + 1 \<le> PORT_BUF"
  using Accept_port[of "\<lparr>ss_family = 2, sin_port = 36895, sin_addr = 1, sin6_addr = []\<rparr>" "\<lambda>_. [49]" 9]
  by (auto simp: AF_INET_def)

end
