(* ===== verification/Epoll_Model.thy ===== *)
theory Epoll_Model
  imports Hub_Prelude
begin

unbundle bit_operations_syntax

text \<open>
  \<open>src/src/socket/Epoll.cpp\<close>, \<open>src/include/socket/Epoll.h\<close>, \<open>EpollException\<close>: the event loop
  shared by both servers.

  \<open>ep_interest\<close> is the kernel's interest list (descriptor to event object and flags):
  \<open>epoll_ctl\<close> refuses to add a descriptor twice and to remove one that is not there;
  \<open>ep_ctl\<close> scripts further failures (an errno, 0 for none). \<open>ep_events\<close> is the array
  \<open>epoll_wait\<close> fills; \<open>malloc\<close> leaves its entries indeterminate (\<open>None\<close>).

  The loop is generic in the state \<open>'s\<close> its callbacks run on: \<open>epl\<close> reads the \<open>Epoll\<close> object
  out of it, so a callback that adds or removes events is seen by the rest of the batch.
\<close>

type_synonym evref = nat

section \<open>Flags\<close>

definition EPOLLIN :: i32 where "EPOLLIN = 1"
definition EPOLLOUT :: i32 where "EPOLLOUT = 4"
definition EPOLLERR :: i32 where "EPOLLERR = 8"
definition EPOLLHUP :: i32 where "EPOLLHUP = 16"
definition EPOLLRDHUP :: i32 where "EPOLLRDHUP = 8192"
definition EPOLLET :: i32 where "EPOLLET = 2147483648"

lemmas epoll_flag_defs = EPOLLIN_def EPOLLOUT_def EPOLLERR_def EPOLLHUP_def EPOLLRDHUP_def EPOLLET_def

definition has_flag :: "i32 \<Rightarrow> i32 \<Rightarrow> bool" where "has_flag events fl \<longleftrightarrow> events AND fl \<noteq> 0"

definition EINTR :: int where "EINTR = 4"
definition EEXIST :: int where "EEXIST = 17"
definition ENOENT :: int where "ENOENT = 2"

section \<open>The class\<close>

record Epoll =
  ep_loop :: bool
  ep_timeout :: int
  ep_edelta :: int
  ep_events_size :: int
  ep_nevents :: int
  ep_events :: "(evref \<times> i32) option list"
  ep_interest :: "(int \<times> evref \<times> i32) list"
  ep_ctl :: "int list"
  ep_stop_fd :: int
  ep_stop_event :: evref
  ep_stop_written :: bool

definition DEFAULT_EDELTA :: int where "DEFAULT_EDELTA = 64"

definition malloc_events :: "int \<Rightarrow> (evref \<times> i32) option list" where
  "malloc_events n = replicate (nat n) None"

definition registered :: "Epoll \<Rightarrow> int \<Rightarrow> bool" where
  "registered ep fd \<longleftrightarrow> fd \<in> fst ` set (ep_interest ep)"

text \<open>\<open>epoll_ctl(EPOLL_CTL_ADD)\<close> and \<open>epoll_ctl(EPOLL_CTL_DEL)\<close>: the errno, 0 for success.\<close>

definition ctl_add :: "Epoll \<Rightarrow> int \<Rightarrow> evref \<Rightarrow> i32 \<Rightarrow> int \<times> Epoll" where
  "ctl_add ep fd ev fl =
     (let e = (case ep_ctl ep of [] \<Rightarrow> 0 | x # _ \<Rightarrow> x); ep = ep\<lparr>ep_ctl := tl (ep_ctl ep)\<rparr> in
      if e \<noteq> 0 then (e, ep) else if registered ep fd then (EEXIST, ep)
      else (0, ep\<lparr>ep_interest := (fd, ev, fl) # ep_interest ep\<rparr>))"

definition ctl_del :: "Epoll \<Rightarrow> int \<Rightarrow> int \<times> Epoll" where
  "ctl_del ep fd =
     (let e = (case ep_ctl ep of [] \<Rightarrow> 0 | x # _ \<Rightarrow> x); ep = ep\<lparr>ep_ctl := tl (ep_ctl ep)\<rparr> in
      if e \<noteq> 0 then (e, ep) else if \<not> registered ep fd then (ENOENT, ep)
      else (0, ep\<lparr>ep_interest := filter (\<lambda>x. fst x \<noteq> fd) (ep_interest ep)\<rparr>))"

definition addEvent :: "Epoll \<Rightarrow> int \<Rightarrow> evref \<Rightarrow> i32 \<Rightarrow> Epoll res" where
  "addEvent ep fd eev eflags =
     (let ep = (if ep_nevents ep + 1 > ep_events_size ep
                then ep\<lparr>ep_events_size := ep_events_size ep + ep_edelta ep,
                        ep_events := malloc_events (ep_events_size ep + ep_edelta ep)\<rparr>
                else ep);
          (s, ep) = ctl_add ep fd eev eflags in
      if s \<noteq> 0 then Inl (Throw (EpollException s))
      else Inr (ep\<lparr>ep_nevents := ep_nevents ep + 1\<rparr>))"

definition removeEvent :: "Epoll \<Rightarrow> int \<Rightarrow> Epoll res" where
  "removeEvent ep fd =
     (let (s, ep) = ctl_del ep fd in
      if s \<noteq> 0 then Inl (Throw (EpollException s))
      else let ep = ep\<lparr>ep_nevents := ep_nevents ep - 1\<rparr> in
        if ep_nevents ep + 2 * ep_edelta ep \<le> ep_events_size ep
        then Inr (ep\<lparr>ep_events_size := ep_events_size ep - ep_edelta ep,
                     ep_events := malloc_events (ep_events_size ep - ep_edelta ep)\<rparr>)
        else Inr ep)"

text \<open>
  \<open>initStopPipe\<close>, with the read end \<open>pipe\<close> returned or its errno; the write end is not watched.
\<close>

definition initStopPipe :: "int + int \<Rightarrow> Epoll \<Rightarrow> Epoll res" where
  "initStopPipe pipe ep =
     (case pipe of
        Inl e \<Rightarrow> Inl (Throw (EpollException e))
      | Inr fd \<Rightarrow> addEvent (ep\<lparr>ep_stop_fd := fd, ep_stop_written := False\<rparr>) fd (ep_stop_event ep)
                    (EPOLLIN OR EPOLLET))"

text \<open>The constructor \<open>Epoll(edelta)\<close>, with the result of \<open>epoll_create1\<close> and of \<open>pipe\<close>.\<close>

definition Epoll_new :: "int \<Rightarrow> int option \<Rightarrow> int + int \<Rightarrow> evref \<Rightarrow> Epoll res" where
  "Epoll_new edelta create_err pipe stop_event =
     (case create_err of
        Some e \<Rightarrow> Inl (Throw (EpollException e))
      | None \<Rightarrow> initStopPipe pipe
          \<lparr>ep_loop = True, ep_timeout = - 1, ep_edelta = edelta, ep_events_size = edelta,
           ep_nevents = 0, ep_events = malloc_events edelta, ep_interest = [], ep_ctl = [],
           ep_stop_fd = - 1, ep_stop_event = stop_event, ep_stop_written = False\<rparr>)"

definition Epoll_stop :: "Epoll \<Rightarrow> Epoll" where
  "Epoll_stop ep = ep\<lparr>ep_loop := False, ep_stop_written := True\<rparr>"

definition setTimeout :: "Epoll \<Rightarrow> int \<Rightarrow> Epoll" where
  "setTimeout ep t = ep\<lparr>ep_timeout := t\<rparr>"

section \<open>The loop\<close>

text \<open>\<open>epoll_wait\<close>: an errno, or the ready events; at most \<open>events_size\<close> of them are stored.\<close>

datatype wait_res = WaitErr int | Ready "(evref \<times> i32) list"

definition fill_events :: "Epoll \<Rightarrow> (evref \<times> i32) list \<Rightarrow> Epoll" where
  "fill_events ep evs =
     ep\<lparr>ep_events := map Some evs @ drop (length evs) (ep_events ep)\<rparr>"

text \<open>The inner \<open>for\<close> loop: \<open>k\<close> events left from index \<open>i\<close>; \<open>act\<close> is its body.\<close>

fun Epoll_batch :: "('s \<Rightarrow> Epoll) \<Rightarrow> (evref \<Rightarrow> i32 \<Rightarrow> 's \<Rightarrow> 's res) \<Rightarrow> nat \<Rightarrow> nat \<Rightarrow> 's \<Rightarrow> 's res" where
  "Epoll_batch epl act i 0 s = Inr s"
| "Epoll_batch epl act i (Suc k) s =
     (if i < length (ep_events (epl s)) then
        (case ep_events (epl s) ! i of
           None \<Rightarrow> Inl (Undefined UninitRead)
         | Some (eev, events) \<Rightarrow> bindF (act eev events s) (Epoll_batch epl act (Suc i) k))
      else Inl (Undefined OutOfBounds))"

text \<open>
  The body: \<open>ends\<close> is \<open>end_event_clbk\<close>, \<open>restart\<close> what the loop does for the stop pipe,
  \<open>clbk\<close> the callback of the event, \<open>fd\<close> its descriptor.
\<close>

definition Epoll_body ::
  "('s \<Rightarrow> Epoll) \<Rightarrow> (evref \<Rightarrow> 's \<Rightarrow> int res) \<Rightarrow> (evref \<Rightarrow> i32 \<Rightarrow> 's \<Rightarrow> 's res) \<Rightarrow> ('s \<Rightarrow> 's res) \<Rightarrow>
   (evref \<Rightarrow> i32 \<Rightarrow> 's \<Rightarrow> 's res) \<Rightarrow> evref \<Rightarrow> i32 \<Rightarrow> 's \<Rightarrow> 's res" where
  "Epoll_body epl fd ends restart clbk eev events s =
     (if has_flag events EPOLLERR \<or> has_flag events EPOLLHUP \<or> has_flag events EPOLLRDHUP
      then bindF (fd eev s) (\<lambda>d.
        if d \<noteq> ep_stop_fd (epl s) then ends eev events s else restart s)
      else clbk eev events s)"

text \<open>One round of \<open>while (_loop)\<close>; \<open>timeout_clbk\<close> is \<open>None\<close> for a null pointer.\<close>

definition Epoll_round ::
  "('s \<Rightarrow> Epoll) \<Rightarrow> (Epoll \<Rightarrow> 's \<Rightarrow> 's) \<Rightarrow> ('s \<Rightarrow> 's res) option \<Rightarrow> (evref \<Rightarrow> i32 \<Rightarrow> 's \<Rightarrow> 's res) \<Rightarrow>
   wait_res \<Rightarrow> 's \<Rightarrow> 's res" where
  "Epoll_round epl set_epl timeout_clbk body w s =
     (case w of
        WaitErr e \<Rightarrow> if e = EINTR then Inr s else Inl (Throw (EpollException e))
      | Ready evs \<Rightarrow>
          if evs = [] \<and> timeout_clbk \<noteq> None then the timeout_clbk s
          else Epoll_batch epl body 0 (length evs) (set_epl (fill_events (epl s) evs) s))"

text \<open>\<open>Epoll::loop\<close> over the results \<open>epoll_wait\<close> gives, until \<open>_loop\<close> is false.\<close>

fun Epoll_loop ::
  "('s \<Rightarrow> Epoll) \<Rightarrow> (Epoll \<Rightarrow> 's \<Rightarrow> 's) \<Rightarrow> ('s \<Rightarrow> 's res) option \<Rightarrow> (evref \<Rightarrow> i32 \<Rightarrow> 's \<Rightarrow> 's res) \<Rightarrow>
   wait_res list \<Rightarrow> 's \<Rightarrow> 's res" where
  "Epoll_loop epl set_epl tc body [] s = Inr s"
| "Epoll_loop epl set_epl tc body (w # ws) s =
     (if ep_loop (epl s)
      then bindF (Epoll_round epl set_epl tc body w s) (Epoll_loop epl set_epl tc body ws)
      else Inr s)"

section \<open>Invariant of the bookkeeping\<close>

text \<open>
  The array has room for every registered event, is never more than two growth steps too
  big, grows and shrinks by whole steps, and \<open>nevents\<close> is the size of the interest list.
\<close>

definition ep_inv :: "Epoll \<Rightarrow> bool" where
  "ep_inv ep \<longleftrightarrow> 0 < ep_edelta ep \<and> ep_nevents ep \<le> ep_events_size ep \<and>
     ep_events_size ep < ep_nevents ep + 2 * ep_edelta ep \<and>
     ep_edelta ep dvd ep_events_size ep \<and> int (length (ep_events ep)) = ep_events_size ep \<and>
     ep_nevents ep = int (length (ep_interest ep)) \<and> distinct (map fst (ep_interest ep))"

lemma ctl_add_cases:
  assumes "ctl_add ep fd ev fl = (s, ep')"
  shows "s = 0 \<Longrightarrow> \<not> registered ep fd \<and>
      ep' = ep\<lparr>ep_ctl := tl (ep_ctl ep), ep_interest := (fd, ev, fl) # ep_interest ep\<rparr>"
  using assms by (auto simp: ctl_add_def Let_def EEXIST_def registered_def split: if_splits list.splits)

lemma ctl_del_cases:
  assumes "ctl_del ep fd = (s, ep')"
  shows "s = 0 \<Longrightarrow> registered ep fd \<and>
      ep' = ep\<lparr>ep_ctl := tl (ep_ctl ep), ep_interest := filter (\<lambda>x. fst x \<noteq> fd) (ep_interest ep)\<rparr>"
  using assms by (auto simp: ctl_del_def Let_def ENOENT_def registered_def split: if_splits list.splits)

lemma addEvent_inv:
  assumes "ep_inv ep" "addEvent ep fd ev fl = Inr ep'"
  shows "ep_inv ep' \<and> registered ep' fd \<and> ep_nevents ep' = ep_nevents ep + 1"
proof -
  let ?g = "if ep_nevents ep + 1 > ep_events_size ep
    then ep\<lparr>ep_events_size := ep_events_size ep + ep_edelta ep,
            ep_events := malloc_events (ep_events_size ep + ep_edelta ep)\<rparr> else ep"
  obtain s e1 where c: "ctl_add ?g fd ev fl = (s, e1)" by fastforce
  with assms(2) have s: "s = 0" and ep': "ep' = e1\<lparr>ep_nevents := ep_nevents e1 + 1\<rparr>"
    by (auto simp: addEvent_def Let_def split: if_splits)
  from ctl_add_cases[OF c s] ep' assms(1) show ?thesis
    by (auto simp: ep_inv_def registered_def malloc_events_def rev_image_eqI)
qed

lemma addEvent_grows:
  assumes "addEvent ep fd ev fl = Inr ep'" "ep_nevents ep + 1 > ep_events_size ep"
  shows "ep_events ep' = malloc_events (ep_events_size ep + ep_edelta ep)"
  using assms by (auto simp: addEvent_def Let_def ctl_add_def EEXIST_def split: if_splits list.splits)

lemma filter_fst_neq_length:
  "distinct (map fst xs) \<Longrightarrow> k \<in> fst ` set xs \<Longrightarrow> length (filter (\<lambda>x. fst x \<noteq> k) xs) = length xs - 1"
proof (induction xs)
  case (Cons x xs)
  show ?case
  proof (cases "fst x = k")
    case True
    with Cons.prems(1) have "k \<notin> fst ` set xs" by simp
    then have "filter (\<lambda>x. fst x \<noteq> k) xs = xs" by (intro filter_True) auto
    with True show ?thesis by simp
  next
    case False
    with Cons have "k \<in> fst ` set xs" by auto
    then have "0 < length xs" by auto
    with False Cons \<open>k \<in> fst ` set xs\<close> show ?thesis by simp
  qed
qed simp

lemma removeEvent_inv:
  assumes "ep_inv ep" "removeEvent ep fd = Inr ep'"
  shows "ep_inv ep' \<and> \<not> registered ep' fd \<and> ep_nevents ep' = ep_nevents ep - 1"
proof -
  obtain s e1 where c: "ctl_del ep fd = (s, e1)" by fastforce
  with assms(2) have s: "s = 0" by (auto simp: removeEvent_def split: if_splits)
  from ctl_del_cases[OF c s] have r: "registered ep fd"
    and e1: "e1 = ep\<lparr>ep_ctl := tl (ep_ctl ep),
       ep_interest := filter (\<lambda>x. fst x \<noteq> fd) (ep_interest ep)\<rparr>" by auto
  have "length (filter (\<lambda>x. fst x \<noteq> fd) (ep_interest ep)) = length (ep_interest ep) - 1"
    using assms(1) r by (intro filter_fst_neq_length) (auto simp: ep_inv_def registered_def)
  moreover have "0 < length (ep_interest ep)" using r by (auto simp: registered_def)
  ultimately have len: "int (length (filter (\<lambda>x. fst x \<noteq> fd) (ep_interest ep))) =
      int (length (ep_interest ep)) - 1" by linarith
  have d: "distinct (map fst (filter (\<lambda>x. fst x \<noteq> fd) (ep_interest ep)))"
    using assms(1) by (simp add: ep_inv_def distinct_map_filter)
  have dvd: "ep_edelta ep dvd ep_events_size ep - ep_edelta ep"
    using assms(1) by (simp add: ep_inv_def)
  from assms c s e1 len d dvd show ?thesis
    by (auto simp: removeEvent_def Let_def ep_inv_def registered_def malloc_events_def
        simp del: distinct_map_filter split: if_splits)
qed

lemma Epoll_new_inv:
  "0 < edelta \<Longrightarrow> Epoll_new edelta ce p ev = Inr ep \<Longrightarrow> ep_inv ep"
  by (auto simp: Epoll_new_def initStopPipe_def ep_inv_def malloc_events_def
      split: option.splits sum.splits dest!: addEvent_inv[rotated])

lemmas ep_inv_intros = addEvent_inv removeEvent_inv Epoll_new_inv

lemma length_fill_events:
  "length evs \<le> length (ep_events ep) \<Longrightarrow> length (ep_events (fill_events ep evs)) = length (ep_events ep)"
  by (simp add: fill_events_def)

text \<open>A batch whose callbacks leave the array alone handles every event, in order.\<close>

lemma Epoll_batch_all:
  assumes "\<And>ev fl s s'. act ev fl s = Inr s' \<Longrightarrow> ep_events (epl s') = ep_events (epl s)"
    and "\<forall>j < k. i + j < length (ep_events (epl s)) \<and> ep_events (epl s) ! (i + j) = Some (evs ! j)"
    and "length evs = k"
  shows "Epoll_batch epl act i k s = foldl (\<lambda>r (ev, fl). bindF r (act ev fl)) (Inr s) evs"
  using assms(2,3)
proof (induction k arbitrary: i s evs)
  case 0
  then show ?case by simp
next
  case (Suc k)
  then obtain e evs' where evs: "evs = e # evs'" "length evs' = k" by (cases evs) auto
  obtain ev fl where e: "e = (ev, fl)" by fastforce
  have here: "i < length (ep_events (epl s))" "ep_events (epl s) ! i = Some (ev, fl)"
    using Suc.prems(1)[rule_format, of 0] evs e by auto
  have stop: "foldl (\<lambda>r (ev, fl). bindF r (act ev fl)) (Inl f) xs = Inl f" for f xs
    by (induction xs) auto
  show ?case
  proof (cases "act ev fl s")
    case (Inl f)
    then show ?thesis using here evs e by (simp add: stop)
  next
    case (Inr s')
    then have arr: "ep_events (epl s') = ep_events (epl s)" by (rule assms(1))
    have "\<forall>j<k. Suc i + j < length (ep_events (epl s')) \<and> ep_events (epl s') ! (Suc i + j) = Some (evs' ! j)"
      using Suc.prems(1)[rule_format, of "Suc j" for j] arr evs by auto
    from Suc.IH[OF this evs(2)] Inr show ?thesis using here evs e by simp
  qed
qed

text \<open>
  C28: the bookkeeping of the event array. Construction establishes, and every successful
  \<open>addEvent\<close> and \<open>removeEvent\<close> keeps, the invariant: there is an array slot for every
  registered event (so \<open>epoll_wait\<close> can report all of them at once), fewer than two growth
  steps are spare, and the count is that of the descriptors the kernel watches.
\<close>

theorem Epoll_bookkeeping:
  "(0 < edelta \<longrightarrow> Epoll_new edelta ce pipe ev = Inr ep0 \<longrightarrow> ep_inv ep0) \<and>
   (ep_inv ep \<longrightarrow> addEvent ep fd ev fl = Inr ep1 \<longrightarrow>
      ep_inv ep1 \<and> registered ep1 fd \<and> ep_nevents ep1 = ep_nevents ep + 1) \<and>
   (ep_inv ep \<longrightarrow> removeEvent ep fd = Inr ep2 \<longrightarrow>
      ep_inv ep2 \<and> \<not> registered ep2 fd \<and> ep_nevents ep2 = ep_nevents ep - 1)"
  using Epoll_new_inv addEvent_inv removeEvent_inv by blast

theorem Epoll_bookkeeping_witness:
  "\<exists>ep0 ep1. Epoll_new 1 None (Inr 5) 0 = Inr ep0 \<and> ep_inv ep0 \<and>
     addEvent ep0 7 1 EPOLLIN = Inr ep1 \<and> ep_inv ep1 \<and> registered ep1 7"
proof -
  obtain ep0 where 0: "Epoll_new 1 None (Inr 5) 0 = Inr ep0" "\<not> registered ep0 7" "ep_ctl ep0 = []"
    by (simp add: Epoll_new_def initStopPipe_def addEvent_def ctl_add_def registered_def)
  have "\<exists>ep1. addEvent ep0 7 1 EPOLLIN = Inr ep1"
    using 0(2,3) by (simp add: addEvent_def ctl_add_def registered_def Let_def)
  then obtain ep1 where 1: "addEvent ep0 7 1 EPOLLIN = Inr ep1" ..
  have inv0: "ep_inv ep0"
    using Epoll_bookkeeping[of 1 None "Inr 5" 0 ep0 ep0 7 EPOLLIN ep0 ep0] 0(1) by simp
  then have "ep_inv ep1 \<and> registered ep1 7"
    using Epoll_bookkeeping[of 1 None "Inr 5" 1 ep0 ep0 7 EPOLLIN ep1 ep0] 1 by simp
  with 0(1) 1 inv0 show ?thesis by blast
qed

text \<open>
  A callback that makes \<open>addEvent\<close> grow the array invalidates the rest of its batch.
  The old array is freed and the new one is not filled, so the loop reads an indeterminate
  entry for the next event of the batch.
\<close>

theorem Epoll_growth_in_batch:
  assumes "ep_inv (epl s)" and "ep_nevents (epl s) = ep_events_size (epl s)"
    and "ep_events (epl s) ! i = Some (ev, fl)" and "int (Suc i) < ep_events_size (epl s)"
    and "act ev fl s = Inr s'" and "addEvent (epl s) fd ev' fl' = Inr (epl s')"
  shows "Epoll_batch epl act i (Suc (Suc k)) s = Inl (Undefined UninitRead)"
proof -
  have size: "int (length (ep_events (epl s))) = ep_events_size (epl s)" "0 < ep_edelta (epl s)"
    using assms(1) by (simp_all add: ep_inv_def)
  have "ep_events (epl s') = malloc_events (ep_events_size (epl s) + ep_edelta (epl s))"
    using addEvent_grows[OF assms(6)] assms(2) by simp
  then have "Suc i < length (ep_events (epl s'))" "ep_events (epl s') ! Suc i = None"
    using assms(4) size by (auto simp: malloc_events_def)
  then show ?thesis using assms(3,4,5) size by simp
qed

theorem Epoll_growth_in_batch_witness:
  "\<exists>ep :: Epoll. ep_inv ep \<and>
     Epoll_batch (\<lambda>s. s) (\<lambda>ev fl s. addEvent s 9 3 EPOLLIN) 0 2 ep = Inl (Undefined UninitRead)"
proof -
  let ?ep = "\<lparr>ep_loop = True, ep_timeout = - 1, ep_edelta = 2, ep_events_size = 2, ep_nevents = 2,
    ep_events = [Some (0, EPOLLIN), Some (2, EPOLLIN)],
    ep_interest = [(5, 0, EPOLLIN), (7, 2, EPOLLIN)], ep_ctl = [], ep_stop_fd = 5,
    ep_stop_event = 0, ep_stop_written = False\<rparr>"
  let ?act = "\<lambda>ev fl s. addEvent s 9 3 EPOLLIN"
  have inv: "ep_inv ?ep" by (simp add: ep_inv_def)
  have "\<exists>ep'. addEvent ?ep 9 3 EPOLLIN = Inr ep'"
    by (simp add: addEvent_def ctl_add_def registered_def Let_def)
  then obtain ep' where a: "addEvent ?ep 9 3 EPOLLIN = Inr ep'" ..
  have "Epoll_batch (\<lambda>s. s) ?act 0 (Suc (Suc 0)) ?ep = Inl (Undefined UninitRead)"
    by (rule Epoll_growth_in_batch[where epl = "\<lambda>s. s" and s = ?ep and i = 0 and ev = 0
          and fl = EPOLLIN and act = ?act and s' = ep' and fd = 9 and ev' = 3 and fl' = EPOLLIN])
      (simp_all add: a inv)
  with inv show ?thesis unfolding numeral_2_eq_2 by blast
qed

lemma removeEvent_shrinks:
  assumes "removeEvent ep fd = Inr ep'"
  shows "ep_events ep' = (if ep_nevents ep - 1 + 2 * ep_edelta ep \<le> ep_events_size ep
    then malloc_events (ep_events_size ep - ep_edelta ep) else ep_events ep)"
  using assms by (auto simp: removeEvent_def ctl_del_def Let_def split: if_splits prod.splits)

text \<open>
  C39: resizing inside a batch. A callback that makes \<open>addEvent\<close> grow the array, or \<open>removeEvent\<close> shrink it (the end
  of a connection does), invalidates the rest of its batch: the array the loop goes through is freed and
  the new one is not filled. The loop then reads an indeterminate entry, or one past the end of the smaller array.
\<close>

theorem Epoll_resize_in_batch:
  assumes "ep_events (epl s) ! i = Some (ev, fl)" "i < length (ep_events (epl s))" "act ev fl s = Inr s'"
    and "ep_nevents (epl s) = ep_events_size (epl s) \<and> addEvent (epl s) fd ev' fl' = Inr (epl s') \<or>
      ep_nevents (epl s) - 1 + 2 * ep_edelta (epl s) \<le> ep_events_size (epl s) \<and> removeEvent (epl s) fd = Inr (epl s')"
  shows "\<exists>u \<in> {UninitRead, OutOfBounds}. Epoll_batch epl act i (Suc (Suc k)) s = Inl (Undefined u)"
proof -
  obtain n where n: "ep_events (epl s') = malloc_events n"
    using assms(4) addEvent_grows removeEvent_shrinks by fastforce
  then have "Epoll_batch epl act (Suc i) (Suc k) s' = Inl (Undefined (if Suc i < nat n then UninitRead else OutOfBounds))"
    by (simp add: malloc_events_def)
  with assms(1-3) show ?thesis by simp
qed

theorem Epoll_resize_in_batch_witness:
  "\<exists>ep :: Epoll. ep_inv ep \<and> registered ep 7 \<and>
     (\<exists>u. Epoll_batch (\<lambda>s. s) (\<lambda>ev fl s. removeEvent s 7) 0 2 ep = Inl (Undefined u))"
proof -
  let ?ep = "\<lparr>ep_loop = True, ep_timeout = - 1, ep_edelta = 2, ep_events_size = 6, ep_nevents = 3,
    ep_events = [Some (3, EPOLLIN), Some (4, EPOLLIN), None, None, None, None],
    ep_interest = [(5, 0, EPOLLIN), (7, 3, EPOLLIN), (8, 4, EPOLLIN)], ep_ctl = [], ep_stop_fd = 5,
    ep_stop_event = 0, ep_stop_written = False\<rparr>"
  have inv: "ep_inv ?ep" by (simp add: ep_inv_def)
  have "\<exists>ep'. removeEvent ?ep 7 = Inr ep'"
    by (simp add: removeEvent_def ctl_del_def registered_def Let_def)
  then obtain ep' where r: "removeEvent ?ep 7 = Inr ep'" ..
  have "\<exists>u \<in> {UninitRead, OutOfBounds}.
      Epoll_batch (\<lambda>s. s) (\<lambda>ev fl s. removeEvent s 7) 0 (Suc (Suc 0)) ?ep = Inl (Undefined u)"
    by (rule Epoll_resize_in_batch[where ev = 3 and fl = EPOLLIN and s' = ep' and fd = 7]) (simp_all add: r)
  then have "\<exists>u. Epoll_batch (\<lambda>s. s) (\<lambda>ev fl s. removeEvent s 7) 0 (Suc (Suc 0)) ?ep = Inl (Undefined u)" by blast
  with inv show ?thesis unfolding numeral_2_eq_2 by (intro exI[of _ ?ep]) (simp add: registered_def)
qed

end
