(* ===== verification/Sync_Containers.thy ===== *)
theory Sync_Containers
  imports Hub_Prelude "HOL-Library.List_Lexorder"
begin

text \<open>
  \<open>src/include/thread/SyncHashMap.h\<close>, \<open>SyncMap.h\<close>, \<open>SyncHashSet.h\<close>, \<open>SyncSet.h\<close> and
  \<open>src/include/util/hashmaphelper.h\<close>: the shared containers and the functors they are
  instantiated with. Each operation runs under the container's lock, so it is one step of
  the model; what the locks guarantee is in \<open>Map_Locking\<close> and \<open>Buddies_Copy\<close>.

  The maps hold pointers: \<open>Some None\<close> is an entry whose value is \<open>NULL\<close>. \<open>get\<close> is
  \<open>map[key]\<close>, which inserts such an entry when the key is absent.

  The hash map is a partial function, the hash set a distinct list in iteration order; the
  ordered containers are lists sorted by the key. The locales \<open>ptr_map\<close> and
  \<open>item_set\<close> are the contracts, interpreted on all four.
\<close>

section \<open>Functors (hashmaphelper.h)\<close>

text \<open>\<open>strcmp\<close> on the bytes before the terminator; only its sign is specified.\<close>

fun strcmp :: "cstring \<Rightarrow> cstring \<Rightarrow> int" where
  "strcmp [] [] = 0"
| "strcmp [] (b # t) = - 1"
| "strcmp (a # s) [] = 1"
| "strcmp (a # s) (b # t) = (if a = b then strcmp s t else if a < b then - 1 else 1)"

definition StrCompare :: "cstring \<Rightarrow> cstring \<Rightarrow> bool" where
  "StrCompare str1 str2 \<longleftrightarrow> strcmp str1 str2 < 0"

definition StrEqual :: "cstring \<Rightarrow> cstring \<Rightarrow> bool" where
  "StrEqual str1 str2 \<longleftrightarrow> strcmp str1 str2 = 0"

text \<open>\<open>coll\<close> stands for \<open>std::collate<char>::hash\<close> on the bytes of the string.\<close>

definition StrHash :: "(byte list \<Rightarrow> 64 word) \<Rightarrow> cstring \<Rightarrow> 64 word" where
  "StrHash coll str = coll (take (length str) str)"

definition IntHash :: "i32 \<Rightarrow> 64 word" where "IntHash i = scast i"

definition IntEqual :: "i32 \<Rightarrow> i32 \<Rightarrow> bool" where "IntEqual i1 i2 \<longleftrightarrow> i1 = i2"

lemma strcmp_eq_0: "strcmp s t = 0 \<longleftrightarrow> s = t"
  by (induction s t rule: strcmp.induct) auto

lemma strcmp_less: "strcmp s t < 0 \<longleftrightarrow> s < t"
  by (induction s t rule: strcmp.induct) (auto simp: Cons_less_Cons)

text \<open>What the unordered containers require of their hash and equality functors.\<close>

locale hash_equal =
  fixes Hash :: "'k \<Rightarrow> 64 word" and Equal :: "'k \<Rightarrow> 'k \<Rightarrow> bool"
  assumes equal_eq: "Equal x y \<longleftrightarrow> x = y"
begin

lemma equivalence: "Equal x x" "Equal x y \<Longrightarrow> Equal y x" "Equal x y \<Longrightarrow> Equal y z \<Longrightarrow> Equal x z"
  by (simp_all add: equal_eq)

lemma hash_compatible: "Equal x y \<Longrightarrow> Hash x = Hash y"
  by (simp add: equal_eq)

end

interpretation str_hash: hash_equal "StrHash coll" StrEqual for coll
  by unfold_locales (simp add: StrEqual_def strcmp_eq_0)

interpretation int_hash: hash_equal IntHash IntEqual
  by unfold_locales (simp add: IntEqual_def)

text \<open>
  The functors meet the requirements of the containers. \<open>StrEqual\<close> is equality of the
  strings and \<open>StrCompare\<close> a strict total order on them, consistent with each other, and
  equal keys hash equally.
\<close>

theorem functors_lawful:
  "(StrEqual s t \<longleftrightarrow> s = t) \<and> (StrEqual s t \<longrightarrow> StrHash coll s = StrHash coll t) \<and>
   \<not> StrCompare s s \<and> (StrCompare s t \<and> StrCompare t u \<longrightarrow> StrCompare s u) \<and>
   (StrCompare s t \<or> StrEqual s t \<or> StrCompare t s) \<and>
   (IntEqual i j \<longrightarrow> IntHash i = IntHash j)"
  using str_hash.hash_compatible[of s t coll] int_hash.hash_compatible[of i j]
  by (auto simp: StrEqual_def StrCompare_def strcmp_eq_0 strcmp_less)

theorem functors_lawful_witness:
  "StrEqual [102, 111] [102, 111] \<and> StrHash (\<lambda>_. 7) [102, 111] = StrHash (\<lambda>_. 7) [102, 111] \<and>
   StrCompare [102] [102, 111] \<and> StrCompare [102, 111] [103] \<and> StrCompare [102] [103]"
  using functors_lawful[of "[102, 111]" "[102, 111]" "\<lambda>_. 7" "[]" 0 0]
    functors_lawful[of "[102]" "[102, 111]" "\<lambda>_. 7" "[103]" 0 0]
  by (simp add: StrEqual_def StrCompare_def)

section \<open>SyncHashMap\<close>

type_synonym ('k, 'p) SyncHashMap = "'k \<rightharpoonup> 'p option"

definition SyncHashMap_put :: "('k, 'p) SyncHashMap \<Rightarrow> 'k \<Rightarrow> 'p option \<Rightarrow> ('k, 'p) SyncHashMap" where
  "SyncHashMap_put m key data = m(key \<mapsto> data)"

definition SyncHashMap_get :: "('k, 'p) SyncHashMap \<Rightarrow> 'k \<Rightarrow> 'p option \<times> ('k, 'p) SyncHashMap" where
  "SyncHashMap_get m key =
     (case m key of Some data \<Rightarrow> (data, m) | None \<Rightarrow> (None, m(key \<mapsto> None)))"

definition SyncHashMap_count :: "('k, 'p) SyncHashMap \<Rightarrow> 'k \<Rightarrow> nat" where
  "SyncHashMap_count m key = (case m key of None \<Rightarrow> 0 | Some _ \<Rightarrow> 1)"

definition SyncHashMap_erase :: "('k, 'p) SyncHashMap \<Rightarrow> 'k \<Rightarrow> ('k, 'p) SyncHashMap" where
  "SyncHashMap_erase m key = m(key := None)"

lemmas SyncHashMap_defs = SyncHashMap_put_def SyncHashMap_get_def SyncHashMap_count_def
  SyncHashMap_erase_def

text \<open>The entries with a value that is not \<open>NULL\<close>.\<close>

definition live :: "('k, 'p) SyncHashMap \<Rightarrow> 'k \<Rightarrow> 'p option" where
  "live m k = (case m k of None \<Rightarrow> None | Some p \<Rightarrow> p)"

lemma live_eq_Some: "live m k = Some p \<longleftrightarrow> m k = Some (Some p)"
  by (auto simp: live_def split: option.splits)

section \<open>SyncMap\<close>

type_synonym ('k, 'p) SyncMap = "('k \<times> 'p option) list"

fun SyncMap_put :: "('k::linorder, 'p) SyncMap \<Rightarrow> 'k \<Rightarrow> 'p option \<Rightarrow> ('k, 'p) SyncMap" where
  "SyncMap_put [] key data = [(key, data)]"
| "SyncMap_put ((k, d) # m) key data =
     (if key < k then (key, data) # (k, d) # m
      else if k < key then (k, d) # SyncMap_put m key data
      else (k, data) # m)"

fun SyncMap_find :: "('k::linorder, 'p) SyncMap \<Rightarrow> 'k \<Rightarrow> 'p option option" where
  "SyncMap_find [] key = None"
| "SyncMap_find ((k, d) # m) key =
     (if key < k then None else if k < key then SyncMap_find m key else Some d)"

definition SyncMap_get :: "('k::linorder, 'p) SyncMap \<Rightarrow> 'k \<Rightarrow> 'p option \<times> ('k, 'p) SyncMap" where
  "SyncMap_get m key =
     (case SyncMap_find m key of Some data \<Rightarrow> (data, m) | None \<Rightarrow> (None, SyncMap_put m key None))"

definition SyncMap_count :: "('k::linorder, 'p) SyncMap \<Rightarrow> 'k \<Rightarrow> nat" where
  "SyncMap_count m key = (case SyncMap_find m key of None \<Rightarrow> 0 | Some _ \<Rightarrow> 1)"

fun SyncMap_erase :: "('k::linorder, 'p) SyncMap \<Rightarrow> 'k \<Rightarrow> ('k, 'p) SyncMap" where
  "SyncMap_erase [] key = []"
| "SyncMap_erase ((k, d) # m) key =
     (if key < k then (k, d) # m
      else if k < key then (k, d) # SyncMap_erase m key
      else m)"

abbreviation SyncMap_inv :: "('k::linorder, 'p) SyncMap \<Rightarrow> bool" where
  "SyncMap_inv m \<equiv> sorted_wrt (<) (map fst m)"

lemma SyncMap_find_less: "\<forall>x\<in>set m. k < fst x \<Longrightarrow> SyncMap_find m k = None"
  by (cases m) auto

lemma set_SyncMap_put: "x \<in> set (SyncMap_put m k d) \<Longrightarrow> x = (k, d) \<or> x \<in> set m"
  by (induction m k d rule: SyncMap_put.induct) (auto split: if_splits)

lemma SyncMap_inv_put: "SyncMap_inv m \<Longrightarrow> SyncMap_inv (SyncMap_put m k d)"
  by (induction m k d rule: SyncMap_put.induct) (auto dest!: set_SyncMap_put)

lemma SyncMap_find_put:
  "SyncMap_inv m \<Longrightarrow> SyncMap_find (SyncMap_put m k d) k' = (if k' = k then Some d else SyncMap_find m k')"
  by (induction m k d rule: SyncMap_put.induct) auto

lemma set_SyncMap_erase: "x \<in> set (SyncMap_erase m k) \<Longrightarrow> x \<in> set m"
  by (induction m k rule: SyncMap_erase.induct) (auto split: if_splits)

lemma SyncMap_inv_erase: "SyncMap_inv m \<Longrightarrow> SyncMap_inv (SyncMap_erase m k)"
  by (induction m k rule: SyncMap_erase.induct) (auto dest!: set_SyncMap_erase)

lemma SyncMap_find_erase:
  "SyncMap_inv m \<Longrightarrow> SyncMap_find (SyncMap_erase m k) k' = (if k' = k then None else SyncMap_find m k')"
proof (induction m k rule: SyncMap_erase.induct)
  case (2 k d m key)
  have low: "k' \<le> k \<Longrightarrow> SyncMap_find m k' = None"
    using "2.prems" by (intro SyncMap_find_less) auto
  show ?case
    using 2 low by (cases "k' < k"; cases "k < k'") auto
qed simp

section \<open>The map contract\<close>

locale ptr_map =
  fixes put :: "'m \<Rightarrow> 'k \<Rightarrow> 'p option \<Rightarrow> 'm"
    and get :: "'m \<Rightarrow> 'k \<Rightarrow> 'p option \<times> 'm"
    and count :: "'m \<Rightarrow> 'k \<Rightarrow> nat"
    and erase :: "'m \<Rightarrow> 'k \<Rightarrow> 'm"
    and find :: "'m \<Rightarrow> 'k \<Rightarrow> 'p option option"
    and inv :: "'m \<Rightarrow> bool"
  assumes find_put: "inv m \<Longrightarrow> find (put m k d) k' = (if k' = k then Some d else find m k')"
    and find_erase: "inv m \<Longrightarrow> find (erase m k) k' = (if k' = k then None else find m k')"
    and get_present: "inv m \<Longrightarrow> find m k = Some d \<Longrightarrow> get m k = (d, m)"
    and get_absent: "inv m \<Longrightarrow> find m k = None \<Longrightarrow> get m k = (None, put m k None)"
    and count_find: "inv m \<Longrightarrow> count m k = (if find m k = None then 0 else 1)"
    and inv_put: "inv m \<Longrightarrow> inv (put m k d)"
    and inv_erase: "inv m \<Longrightarrow> inv (erase m k)"
begin

lemma inv_get: "inv m \<Longrightarrow> inv (snd (get m k))"
  by (cases "find m k") (auto simp: get_present get_absent inv_put)

lemma put_get: "inv m \<Longrightarrow> get (put m k d) k = (d, put m k d)"
  by (simp add: get_present find_put inv_put)

lemma put_get_other: "inv m \<Longrightarrow> k' \<noteq> k \<Longrightarrow> fst (get (put m k d) k') = fst (get m k')"
  by (cases "find m k'") (auto simp: get_present get_absent find_put inv_put)

lemma erase_count: "inv m \<Longrightarrow> count (erase m k) k' = (if k' = k then 0 else count m k')"
  by (simp add: count_find find_erase inv_erase)

lemma get_inserts: "inv m \<Longrightarrow> count (snd (get m k)) k = 1"
  by (cases "find m k") (auto simp: get_present get_absent count_find find_put inv_put)

lemma get_keeps_values: "inv m \<Longrightarrow> fst (get (snd (get m k)) k') = fst (get m k')"
  by (cases "find m k"; cases "find m k'"; cases "k' = k")
    (auto simp: get_present get_absent find_put inv_put)

end

interpretation shm: ptr_map SyncHashMap_put SyncHashMap_get SyncHashMap_count SyncHashMap_erase
  "\<lambda>m. m" "\<lambda>_. True"
  by unfold_locales (auto simp: SyncHashMap_defs split: option.splits)

interpretation smap: ptr_map SyncMap_put SyncMap_get SyncMap_count SyncMap_erase SyncMap_find
  SyncMap_inv
  by unfold_locales
    (auto simp: SyncMap_find_put SyncMap_find_erase SyncMap_get_def SyncMap_count_def
      SyncMap_inv_put SyncMap_inv_erase split: option.splits)

text \<open>
  What a lookup of the hash map does. A key that is present gives its value and leaves
  the map alone; a key that is absent gives \<open>NULL\<close> and makes the key present (with value
  \<open>NULL\<close>), so a later \<open>count\<close> of it is 1. No lookup changes the value any lookup returns.
\<close>

theorem SyncHashMap_get_spec:
  "fst (SyncHashMap_get m k) = live m k \<and>
   (SyncHashMap_count m k = 1 \<longrightarrow> snd (SyncHashMap_get m k) = m) \<and>
   SyncHashMap_count (snd (SyncHashMap_get m k)) k = 1 \<and>
   (k' \<noteq> k \<longrightarrow> SyncHashMap_count (snd (SyncHashMap_get m k)) k' = SyncHashMap_count m k') \<and>
   fst (SyncHashMap_get (snd (SyncHashMap_get m k)) k') = fst (SyncHashMap_get m k')"
  using shm.get_inserts[of m k] shm.get_keeps_values[of m k k']
  by (auto simp: SyncHashMap_get_def SyncHashMap_count_def live_def split: option.splits)

theorem SyncHashMap_get_spec_witness:
  "SyncHashMap_count (Map.empty((5::i32) \<mapsto> Some (0::uref))) 5 = 1 \<and>
   snd (SyncHashMap_get (Map.empty((5::i32) \<mapsto> Some (0::uref))) 5) = Map.empty(5 \<mapsto> Some 0)"
  using SyncHashMap_get_spec[of "Map.empty((5::i32) \<mapsto> Some (0::uref))" 5 6]
  by (simp add: SyncHashMap_count_def)

section \<open>SyncHashSet and SyncSet\<close>

type_synonym 'a SyncHashSet = "'a list"

definition SyncHashSet_insert :: "'a SyncHashSet \<Rightarrow> 'a \<Rightarrow> 'a SyncHashSet" where
  "SyncHashSet_insert s item = (if item \<in> set s then s else s @ [item])"

definition SyncHashSet_erase :: "'a SyncHashSet \<Rightarrow> 'a \<Rightarrow> 'a SyncHashSet" where
  "SyncHashSet_erase s item = removeAll item s"

definition SyncHashSet_count :: "'a SyncHashSet \<Rightarrow> 'a \<Rightarrow> nat" where
  "SyncHashSet_count s item = (if item \<in> set s then 1 else 0)"

type_synonym 'a SyncSet = "'a list"

fun SyncSet_insert :: "'a::linorder SyncSet \<Rightarrow> 'a \<Rightarrow> 'a SyncSet" where
  "SyncSet_insert [] key = [key]"
| "SyncSet_insert (k # s) key =
     (if key < k then key # k # s else if k < key then k # SyncSet_insert s key else k # s)"

fun SyncSet_count :: "'a::linorder SyncSet \<Rightarrow> 'a \<Rightarrow> nat" where
  "SyncSet_count [] key = 0"
| "SyncSet_count (k # s) key =
     (if key < k then 0 else if k < key then SyncSet_count s key else 1)"

fun SyncSet_erase :: "'a::linorder SyncSet \<Rightarrow> 'a \<Rightarrow> 'a SyncSet" where
  "SyncSet_erase [] key = []"
| "SyncSet_erase (k # s) key =
     (if key < k then k # s else if k < key then k # SyncSet_erase s key else s)"

locale item_set =
  fixes insrt :: "'s \<Rightarrow> 'a \<Rightarrow> 's" and erase :: "'s \<Rightarrow> 'a \<Rightarrow> 's" and count :: "'s \<Rightarrow> 'a \<Rightarrow> nat"
    and items :: "'s \<Rightarrow> 'a set" and inv :: "'s \<Rightarrow> bool"
  assumes items_insert: "inv s \<Longrightarrow> items (insrt s x) = insert x (items s)"
    and items_erase: "inv s \<Longrightarrow> items (erase s x) = items s - {x}"
    and count_items: "inv s \<Longrightarrow> count s x = (if x \<in> items s then 1 else 0)"
    and inv_insert: "inv s \<Longrightarrow> inv (insrt s x)"
    and inv_erase: "inv s \<Longrightarrow> inv (erase s x)"
begin

lemma inv_foldl_insert: "inv s \<Longrightarrow> inv (foldl insrt s xs)"
  by (induction xs arbitrary: s) (auto simp: inv_insert)

lemma inv_foldl_erase: "inv s \<Longrightarrow> inv (foldl erase s xs)"
  by (induction xs arbitrary: s) (auto simp: inv_erase)

lemma items_foldl_insert: "inv s \<Longrightarrow> items (foldl insrt s xs) = items s \<union> set xs"
  by (induction xs arbitrary: s) (auto simp: items_insert inv_insert)

lemma items_foldl_erase: "inv s \<Longrightarrow> items (foldl erase s xs) = items s - set xs"
  by (induction xs arbitrary: s) (auto simp: items_erase inv_erase)

end

lemma SyncSet_sorted: "sorted_wrt (<) s \<Longrightarrow> sorted_wrt (<) (SyncSet_insert s x) \<and>
    set (SyncSet_insert s x) = insert x (set s)"
  by (induction s x rule: SyncSet_insert.induct) auto

lemma SyncSet_erase_sorted: "sorted_wrt (<) s \<Longrightarrow> sorted_wrt (<) (SyncSet_erase s x) \<and>
    set (SyncSet_erase s x) = set s - {x}"
  by (induction s x rule: SyncSet_erase.induct) auto

lemma SyncSet_count_iff: "sorted_wrt (<) s \<Longrightarrow> SyncSet_count s x = (if x \<in> set s then 1 else 0)"
  by (induction s x rule: SyncSet_count.induct) auto

interpretation shs: item_set SyncHashSet_insert SyncHashSet_erase SyncHashSet_count set distinct
  by unfold_locales
    (auto simp: SyncHashSet_insert_def SyncHashSet_erase_def SyncHashSet_count_def distinct_removeAll)

interpretation sset: item_set SyncSet_insert SyncSet_erase SyncSet_count set "sorted_wrt (<)"
  by unfold_locales (simp_all add: SyncSet_sorted SyncSet_erase_sorted SyncSet_count_iff)

end
