(* ===== verification/User_Model.thy ===== *)
theory User_Model
  imports Sync_Containers Net_Util
begin

text \<open>
  \<open>src/src/user\<close> and \<open>src/include/user\<close>: users, their coordinate slots and the generator of
  user ids.

  \<open>empty\<close> and \<open>ready\<close> point to one of the two slots a user owns, so a slot pointer is a
  \<open>slot\<close>. The constructor of \<open>User\<close> does not set \<open>addr_udp\<close> and \<open>token\<close>: they are \<open>None\<close>
  (indeterminate) until written.

  The generator runs \<open>while (n <= ULONG_MAX)\<close> with a 32-bit \<open>n\<close>, a test that is always
  true, so it is a \<^theory_text>\<open>partial_function\<close>; the theory proves exactly when it returns.
\<close>

section \<open>User (User.cpp, Coordinates.h)\<close>

record Coordinates =
  longitude :: i32
  latitude :: i32
  altitude :: i32

datatype slot = Slot1 | Slot2

record User =
  u_id :: i32
  u_nick :: cstring
  u_buddies :: "cstring SyncHashSet"
  u_slot1 :: Coordinates
  u_slot2 :: Coordinates
  u_empty :: slot
  u_ready :: "slot option"
  u_addr_udp :: "sockaddr_storage option"
  u_udp_ready :: bool
  u_sock :: "sref option"
  u_token :: "i32 option"

definition zero_coords :: Coordinates where
  "zero_coords = \<lparr>longitude = 0, latitude = 0, altitude = 0\<rparr>"

definition newUser :: "i32 \<Rightarrow> cstring \<Rightarrow> User" where
  "newUser ident nick =
     \<lparr>u_id = ident, u_nick = nick, u_buddies = [], u_slot1 = zero_coords, u_slot2 = zero_coords,
      u_empty = Slot1, u_ready = None, u_addr_udp = None, u_udp_ready = False, u_sock = None,
      u_token = None\<rparr>"

fun slotOf :: "User \<Rightarrow> slot \<Rightarrow> Coordinates" where
  "slotOf u Slot1 = u_slot1 u"
| "slotOf u Slot2 = u_slot2 u"

fun setSlot :: "User \<Rightarrow> slot \<Rightarrow> Coordinates \<Rightarrow> User" where
  "setSlot u Slot1 c = u\<lparr>u_slot1 := c\<rparr>"
| "setSlot u Slot2 c = u\<lparr>u_slot2 := c\<rparr>"

definition setEmpty :: "User \<Rightarrow> slot \<Rightarrow> User" where "setEmpty u c = u\<lparr>u_empty := c\<rparr>"

definition setReady :: "User \<Rightarrow> slot option \<Rightarrow> User" where "setReady u c = u\<lparr>u_ready := c\<rparr>"

definition setAddrUdp :: "User \<Rightarrow> sockaddr_storage \<Rightarrow> User" where
  "setAddrUdp u addr = u\<lparr>u_addr_udp := Some addr, u_udp_ready := True\<rparr>"

definition setSockPtr :: "User \<Rightarrow> sref option \<Rightarrow> User" where "setSockPtr u s = u\<lparr>u_sock := s\<rparr>"

definition setToken :: "User \<Rightarrow> i32 \<Rightarrow> User" where "setToken u t = u\<lparr>u_token := Some t\<rparr>"

lemmas user_setters = setEmpty_def setReady_def setAddrUdp_def setSockPtr_def setToken_def

lemma slotOf_setSlot [simp]: "slotOf (setSlot u s c) s' = (if s' = s then c else slotOf u s')"
  by (cases s; cases s') auto

lemma setSlot_frame [simp]:
  "u_id (setSlot u s c) = u_id u" "u_nick (setSlot u s c) = u_nick u"
  "u_buddies (setSlot u s c) = u_buddies u" "u_empty (setSlot u s c) = u_empty u"
  "u_ready (setSlot u s c) = u_ready u" "u_addr_udp (setSlot u s c) = u_addr_udp u"
  "u_udp_ready (setSlot u s c) = u_udp_ready u" "u_sock (setSlot u s c) = u_sock u"
  "u_token (setSlot u s c) = u_token u"
  by (cases s; simp)+

text \<open>The maps of \<open>dstypes.h\<close>.\<close>

type_synonym IdUserMap = "(i32, uref) SyncHashMap"
type_synonym NickUserMap = "(cstring, uref) SyncHashMap"

section \<open>UserIdGenerator\<close>

definition ULONG_MAX :: "64 word" where "ULONG_MAX = - 1"

partial_function (option) generate_loop :: "IdUserMap \<Rightarrow> i32 \<Rightarrow> i32 \<Rightarrow> (i32 \<times> i32) option" where
  "generate_loop id_umap current n =
     (if (ucast n :: 64 word) \<le> ULONG_MAX
      then let current = current + 1 in
        if SyncHashMap_count id_umap current = 0 \<and> 0 < current then Some (current, current)
        else generate_loop id_umap current (n + 1)
      else Some (0, current))"

text \<open>The id and the new value of \<open>current\<close>; \<open>None\<close> when the call does not return.\<close>

definition generate :: "IdUserMap \<Rightarrow> i32 \<Rightarrow> (i32 \<times> i32) option" where
  "generate id_umap current = generate_loop id_umap current 0"

lemma guard_always_true: "(ucast n :: 64 word) \<le> ULONG_MAX"
  by (simp add: ULONG_MAX_def)

lemma generate_loop_unfold:
  "generate_loop m c n =
     (if m (c + 1) = None \<and> c + 1 \<noteq> 0 then Some (c + 1, c + 1) else generate_loop m (c + 1) (n + 1))"
  by (subst generate_loop.simps)
    (simp add: guard_always_true Let_def SyncHashMap_count_def word_neq_0_conv split: option.splits)

definition free_id :: "IdUserMap \<Rightarrow> i32 \<Rightarrow> bool" where
  "free_id m w \<longleftrightarrow> m w = None \<and> w \<noteq> 0"

text \<open>From a current value, the first free id in cyclic order is returned.\<close>

lemma generate_loop_first:
  assumes "free_id m (c + of_nat (Suc k))" and "\<And>j. j < k \<Longrightarrow> \<not> free_id m (c + of_nat (Suc j))"
  shows "generate_loop m c n = Some (c + of_nat (Suc k), c + of_nat (Suc k))"
  using assms
proof (induction k arbitrary: c n)
  case 0
  then show ?case by (subst generate_loop_unfold) (simp add: free_id_def)
next
  case (Suc k)
  have "\<not> free_id m (c + 1)" using Suc.prems(2)[of 0] by simp
  then have "generate_loop m c n = generate_loop m (c + 1) (n + 1)"
    by (subst generate_loop_unfold) (auto simp: free_id_def)
  moreover have "generate_loop m (c + 1) (n + 1) =
      Some (c + 1 + of_nat (Suc k), c + 1 + of_nat (Suc k))"
  proof (rule Suc.IH)
    show "free_id m (c + 1 + of_nat (Suc k))"
      using Suc.prems(1) by (simp add: add.assoc)
    show "\<not> free_id m (c + 1 + of_nat (Suc j))" if "j < k" for j
      using Suc.prems(2)[of "Suc j"] that by (simp add: add.assoc)
  qed
  ultimately show ?case by (simp add: add.assoc)
qed

lemma word_reachable: "\<exists>k. w = c + of_nat (Suc k)" for c w :: i32
proof -
  obtain k where "unat (w - c - 1) = k" by simp
  then have "of_nat k = w - c - 1" by (metis of_nat_unat ucast_id)
  then have "w = c + of_nat (Suc k)" by simp
  then show ?thesis by blast
qed

lemma generate_returns:
  assumes "free_id m w"
  shows "\<exists>i k. generate m c = Some (i, i) \<and> free_id m i \<and> i = c + of_nat (Suc k) \<and>
    (\<forall>j < k. \<not> free_id m (c + of_nat (Suc j)))"
proof -
  obtain k0 where "free_id m (c + of_nat (Suc k0))" using assms word_reachable[of w c] by metis
  then obtain k where k: "free_id m (c + of_nat (Suc k))"
    and least: "\<And>j. j < k \<Longrightarrow> \<not> free_id m (c + of_nat (Suc j))"
    using exists_least_iff[of "\<lambda>k. free_id m (c + of_nat (Suc k))"] by auto
  with generate_loop_first[OF k least] show ?thesis by (auto simp: generate_def)
qed

lemma generate_loop_result: "generate_loop m c n = Some (i, c') \<Longrightarrow> free_id m i \<and> c' = i"
proof -
  assume r: "generate_loop m c n = Some (i, c')"
  have "\<forall>i c'. (i, c') = r' \<longrightarrow> free_id m i \<and> c' = i" if "generate_loop m c n = Some r'" for r'
  proof (rule generate_loop.raw_induct[where P = "\<lambda>m' c n r'. m' = m \<longrightarrow>
        (\<forall>i c'. (i, c') = r' \<longrightarrow> free_id m i \<and> c' = i)", OF _ that, THEN mp, OF _ refl])
    fix f id_umap current n y
    assume IH: "\<And>id_umap current n y. f id_umap current n = Some y \<Longrightarrow> id_umap = m \<longrightarrow>
        (\<forall>i c'. (i, c') = y \<longrightarrow> free_id m i \<and> c' = i)"
      and eq: "(if ucast n \<le> ULONG_MAX then let current = current + 1 in
        if SyncHashMap_count id_umap current = 0 \<and> 0 < current then Some (current, current)
        else f id_umap current (n + 1) else Some (0, current)) = Some y"
    show "id_umap = m \<longrightarrow> (\<forall>i c'. (i, c') = y \<longrightarrow> free_id m i \<and> c' = i)"
      using eq IH[of id_umap "current + 1" "n + 1" y]
      by (auto simp: guard_always_true Let_def SyncHashMap_count_def free_id_def word_neq_0_conv
          split: if_splits option.splits)
  qed
  with r show ?thesis by blast
qed

text \<open>
  C31: the generator returns exactly when an id is free, and then gives the first free one
  after \<open>current\<close> (wrapping around), never 0 and never one that is in the map. When every id
  is taken the loop does not end: the value 0 that is meant to report it is never returned.
\<close>

theorem generate_spec:
  "(case generate m c of
      Some (i, c') \<Rightarrow> c' = i \<and> i \<noteq> 0 \<and> SyncHashMap_count m i = 0 \<and>
        (\<exists>k. i = c + of_nat (Suc k) \<and> (\<forall>j < k. m (c + of_nat (Suc j)) \<noteq> None \<or> c + of_nat (Suc j) = 0))
    | None \<Rightarrow> (\<forall>w. w \<noteq> 0 \<longrightarrow> SyncHashMap_count m w = 1)) \<and>
   ((\<exists>w. w \<noteq> 0 \<and> SyncHashMap_count m w = 0) \<longrightarrow> generate m c \<noteq> None)"
proof (cases "\<exists>w. free_id m w")
  case True
  then obtain w where "free_id m w" ..
  from generate_returns[OF this, of c] show ?thesis
    by (auto simp: free_id_def SyncHashMap_count_def)
next
  case False
  then have "generate m c = None"
    using generate_loop_result[of m c 0] by (cases "generate m c") (auto simp: generate_def)
  moreover have "SyncHashMap_count m w = 1" if "w \<noteq> 0" for w
    using False that by (auto simp: free_id_def SyncHashMap_count_def split: option.splits)
  ultimately show ?thesis by fastforce
qed

theorem generate_spec_witness:
  "generate (Map.empty(1 \<mapsto> Some 0)) 0 \<noteq> None \<and> SyncHashMap_count (Map.empty((1::i32) \<mapsto> Some (0::uref))) 2 = 0"
proof -
  have "SyncHashMap_count (Map.empty((1::i32) \<mapsto> Some (0::uref))) 2 = 0"
    by (simp add: SyncHashMap_count_def)
  moreover have "(2::i32) \<noteq> 0" by simp
  ultimately show ?thesis using generate_spec[of "Map.empty(1 \<mapsto> Some 0)" 0] by blast
qed

end
