(* ===== verification/Hub_State.thy ===== *)
theory Hub_State
  imports Circular_Buffer Cmd_Pkg Socket_Setup Epoll_Model User_Model
begin

text \<open>
  The state the server's components share: the heap objects (users, sockets, sessions, event
  objects), the two user maps, the id generator, and the members of the two servers. An
  object that was deleted is absent from its store, so a use of it shows as a fault.

  \<open>env\<close> is what the code relies on but does not define: the values \<open>rand()\<close> returns and
  how many bytes may be written to the block that \<open>new char(n + 1)\<close> returns. That
  expression allocates a single \<open>char\<close> (initialised to \<open>n + 1\<close>), so the language guarantees
  1; an allocator may round up.
\<close>

record env =
  e_rand :: "nat \<Rightarrow> i32"
  e_char_block :: nat

datatype clbk = NoClbk | IncomingConnectionClbk | ClientSocketClbk | IncomingDataClbk

record EpollEvent =
  ev_fd :: int
  ev_ptr :: "nat option"
  ev_clbk :: clbk

record Session =
  se_sock :: sref
  se_buf :: cbuf
  se_user :: "uref option"
  se_queue :: "CmdPkg list"

text \<open>
  A connection waiting to be accepted: the descriptor and address \<open>accept\<close> will return, and
  what \<open>fcntl\<close> will answer for it.
\<close>

record conn =
  cn_fd :: int
  cn_addr :: sockaddr_storage
  cn_getfl :: "int + i32"
  cn_setfl :: "int option"

record hub =
  users :: "uref \<rightharpoonup> User"
  socks :: "sref \<rightharpoonup> Socket"
  sessions :: "nat \<rightharpoonup> Session"
  evs :: "evref \<rightharpoonup> EpollEvent"
  id_umap :: IdUserMap
  nick_umap :: NickUserMap
  idgen_current :: i32
  next_ref :: nat
  rand_calls :: nat
  cmd_buf :: mem
  cmd_epl :: Epoll
  uqueue :: "i32 list"
  gps_buf :: mem
  their_addr :: sockaddr_storage
  pending_cmd_queue :: "(CmdPkg \<times> sref) list"
  udp_out :: "(sockaddr_storage \<times> mem) list"
  backlog :: "conn list"

text \<open>
  The members as the constructors leave them; \<open>ep\<close> is the command server's epoll object.
  \<open>BUF_LEN\<close> of \<open>GpsDataServer.h\<close> is 128, \<open>CMDPKG_MAX\<close> of \<open>CommandServer.h\<close> 512.
\<close>

definition CMDPKG_MAX :: nat where "CMDPKG_MAX = 512"

definition BUF_LEN :: nat where "BUF_LEN = 128"

definition no_addr :: sockaddr_storage where
  "no_addr = \<lparr>ss_family = 0, sin_port = 0, sin_addr = 0, sin6_addr = replicate 16 0\<rparr>"

definition hub_start :: "Epoll \<Rightarrow> hub" where
  "hub_start ep =
     \<lparr>users = Map.empty, socks = Map.empty, sessions = Map.empty, evs = Map.empty,
      id_umap = Map.empty, nick_umap = Map.empty, idgen_current = 0, next_ref = 0,
      rand_calls = 0, cmd_buf = replicate CMDPKG_MAX None, cmd_epl = ep, uqueue = [],
      gps_buf = replicate BUF_LEN None, their_addr = no_addr, pending_cmd_queue = [],
      udp_out = [], backlog = []\<rparr>"

text \<open>An epoll object as \<open>Epoll()\<close> leaves it, with the stop pipe's descriptor 3.\<close>

definition epoll_start :: Epoll where
  "epoll_start = (case Epoll_new DEFAULT_EDELTA None (Inr 3) 0 of Inr ep \<Rightarrow> ep)"

text \<open>A server with one connected client: session 0 on socket 0 with descriptor 5.\<close>

definition hub_one :: hub where
  "hub_one = (hub_start epoll_start)\<lparr>
     socks := Map.empty(0 \<mapsto> (Socket_fd 5)\<lparr>sk_addr := Some no_addr\<rparr>),
     sessions := Map.empty(0 \<mapsto> \<lparr>se_sock = 0, se_buf = CircularBuffer (2 * CMDPKG_MAX),
                                  se_user = None, se_queue = []\<rparr>),
     next_ref := 1\<rparr>"

definition env0 :: env where
  "env0 = \<lparr>e_rand = (\<lambda>k. of_nat (k + 77)), e_char_block = 24\<rparr>"

section \<open>The registry invariant\<close>

text \<open>
  Every live user is registered under its nick and under its id, every entry of the nick
  map and every non-null entry of the id map is a live user with that nick or id, and no
  user has id 0.
\<close>

definition reg_inv :: "hub \<Rightarrow> bool" where
  "reg_inv h \<longleftrightarrow>
     (\<forall>r u. users h r = Some u \<longrightarrow>
        r < next_ref h \<and> u_id u \<noteq> 0 \<and> distinct (u_buddies u) \<and>
        nick_umap h (u_nick u) = Some (Some r) \<and> id_umap h (u_id u) = Some (Some r)) \<and>
     (\<forall>n p. nick_umap h n = Some p \<longrightarrow> (\<exists>r u. p = Some r \<and> users h r = Some u \<and> u_nick u = n)) \<and>
     (\<forall>i r. id_umap h i = Some (Some r) \<longrightarrow> (\<exists>u. users h r = Some u \<and> u_id u = i))"

lemma reg_inv_user:
  assumes "reg_inv h" "users h r = Some u"
  shows "r < next_ref h" "u_id u \<noteq> 0" "distinct (u_buddies u)"
    "nick_umap h (u_nick u) = Some (Some r)" "id_umap h (u_id u) = Some (Some r)"
  using assms by (auto simp: reg_inv_def)

lemma reg_inv_nick:
  assumes "reg_inv h" "nick_umap h n = Some p"
  obtains r u where "p = Some r" "users h r = Some u" "u_nick u = n"
  using assms unfolding reg_inv_def by blast

lemma reg_inv_id:
  assumes "reg_inv h" "id_umap h i = Some (Some r)"
  obtains u where "users h r = Some u" "u_id u = i"
  using assms unfolding reg_inv_def by blast

lemma reg_invI:
  assumes "\<And>r u. users h r = Some u \<Longrightarrow> r < next_ref h \<and> u_id u \<noteq> 0 \<and> distinct (u_buddies u) \<and>
        nick_umap h (u_nick u) = Some (Some r) \<and> id_umap h (u_id u) = Some (Some r)"
    and "\<And>n p. nick_umap h n = Some p \<Longrightarrow> \<exists>r u. p = Some r \<and> users h r = Some u \<and> u_nick u = n"
    and "\<And>i r. id_umap h i = Some (Some r) \<Longrightarrow> \<exists>u. users h r = Some u \<and> u_id u = i"
  shows "reg_inv h"
  using assms unfolding reg_inv_def by blast

text \<open>Nicks and ids identify live users.\<close>

lemma reg_inv_unique:
  assumes "reg_inv h" "users h r = Some u" "users h r' = Some u'"
  shows "u_nick u = u_nick u' \<longleftrightarrow> r = r'" "u_id u = u_id u' \<longleftrightarrow> r = r'"
  using reg_inv_user[OF assms(1,2)] reg_inv_user[OF assms(1,3)] assms(2,3) by auto

text \<open>The invariant depends on these fields only.\<close>

lemma reg_inv_cong:
  "users h' = users h \<Longrightarrow> id_umap h' = id_umap h \<Longrightarrow> nick_umap h' = nick_umap h \<Longrightarrow>
   next_ref h \<le> next_ref h' \<Longrightarrow> reg_inv h \<Longrightarrow> reg_inv h'"
  unfolding reg_inv_def by fastforce

lemma reg_inv_upd_user:
  assumes "reg_inv h" "users h r = Some u" "u_id u' = u_id u" "u_nick u' = u_nick u"
    "distinct (u_buddies u')"
  shows "reg_inv (h\<lparr>users := (users h)(r \<mapsto> u')\<rparr>)"
proof (rule reg_invI)
  fix q v assume "users (h\<lparr>users := (users h)(r \<mapsto> u')\<rparr>) q = Some v"
  then show "q < next_ref (h\<lparr>users := (users h)(r \<mapsto> u')\<rparr>) \<and> u_id v \<noteq> 0 \<and> distinct (u_buddies v) \<and>
      nick_umap (h\<lparr>users := (users h)(r \<mapsto> u')\<rparr>) (u_nick v) = Some (Some q) \<and>
      id_umap (h\<lparr>users := (users h)(r \<mapsto> u')\<rparr>) (u_id v) = Some (Some q)"
    using assms reg_inv_user[OF assms(1)] by (auto split: if_splits)
next
  fix n p assume "nick_umap (h\<lparr>users := (users h)(r \<mapsto> u')\<rparr>) n = Some p"
  then have "nick_umap h n = Some p" by simp
  from reg_inv_nick[OF assms(1) this] obtain q v
    where "p = Some q" "users h q = Some v" "u_nick v = n" by blast
  then show "\<exists>q v. p = Some q \<and> users (h\<lparr>users := (users h)(r \<mapsto> u')\<rparr>) q = Some v \<and> u_nick v = n"
    using assms(2,4) by auto
next
  fix i q assume "id_umap (h\<lparr>users := (users h)(r \<mapsto> u')\<rparr>) i = Some (Some q)"
  then have "id_umap h i = Some (Some q)" by simp
  from reg_inv_id[OF assms(1) this] obtain v where "users h q = Some v" "u_id v = i" by blast
  then show "\<exists>v. users (h\<lparr>users := (users h)(r \<mapsto> u')\<rparr>) q = Some v \<and> u_id v = i"
    using assms(2,3) by auto
qed

text \<open>A lookup in the id map keeps the invariant, though it may add a null entry.\<close>

lemma reg_inv_get_id:
  "reg_inv h \<Longrightarrow> reg_inv (h\<lparr>id_umap := snd (SyncHashMap_get (id_umap h) i)\<rparr>)"
  unfolding reg_inv_def SyncHashMap_get_def by (auto split: option.splits if_splits)

lemma get_present_nick:
  "SyncHashMap_count (nick_umap h) n > 0 \<Longrightarrow> snd (SyncHashMap_get (nick_umap h) n) = nick_umap h"
  by (auto simp: SyncHashMap_count_def SyncHashMap_get_def split: option.splits)

text \<open>Publishing a new user under a nick and an id that are not in the maps.\<close>

lemma reg_inv_register:
  assumes inv: "reg_inv h" and r: "next_ref h \<le> r" and fresh: "nick_umap h (u_nick u) = None"
    "id_umap h (u_id u) = None" "u_id u \<noteq> 0" "distinct (u_buddies u)"
    and h': "users h' = (users h)(r \<mapsto> u)" "nick_umap h' = (nick_umap h)(u_nick u \<mapsto> Some r)"
    "id_umap h' = (id_umap h)(u_id u \<mapsto> Some r)" "r < next_ref h'"
  shows "reg_inv h'"
proof (rule reg_invI)
  fix q v assume "users h' q = Some v"
  then show "q < next_ref h' \<and> u_id v \<noteq> 0 \<and> distinct (u_buddies v) \<and>
      nick_umap h' (u_nick v) = Some (Some q) \<and> id_umap h' (u_id v) = Some (Some q)"
    using reg_inv_user[OF inv, of q v] r fresh h' by (auto split: if_splits)
next
  fix n p assume p: "nick_umap h' n = Some p"
  show "\<exists>q v. p = Some q \<and> users h' q = Some v \<and> u_nick v = n"
  proof (cases "n = u_nick u")
    case True
    with p h' show ?thesis by auto
  next
    case False
    with p h' have "nick_umap h n = Some p" by simp
    from reg_inv_nick[OF inv this] obtain q v where v: "p = Some q" "users h q = Some v" "u_nick v = n" .
    from reg_inv_user(1)[OF inv v(2)] r have "q \<noteq> r" by simp
    with v h' show ?thesis by auto
  qed
next
  fix i q assume p: "id_umap h' i = Some (Some q)"
  show "\<exists>v. users h' q = Some v \<and> u_id v = i"
  proof (cases "i = u_id u")
    case True
    with p h' show ?thesis by auto
  next
    case False
    with p h' have "id_umap h i = Some (Some q)" by simp
    from reg_inv_id[OF inv this] obtain v where v: "users h q = Some v" "u_id v = i" .
    from reg_inv_user(1)[OF inv v(1)] r have "q \<noteq> r" by simp
    with v h' show ?thesis by auto
  qed
qed

text \<open>Withdrawing a user from both maps together with its object.\<close>

lemma reg_inv_unregister:
  assumes inv: "reg_inv h" and u: "users h r = Some u"
    and h': "users h' = (users h)(r := None)" "nick_umap h' = (nick_umap h)(u_nick u := None)"
    "id_umap h' = (id_umap h)(u_id u := None)" "next_ref h' = next_ref h"
  shows "reg_inv h'"
proof (rule reg_invI)
  fix q v assume "users h' q = Some v"
  then have v: "users h q = Some v" "q \<noteq> r" using h' by (auto split: if_splits)
  with reg_inv_unique[OF inv u v(1)] reg_inv_user[OF inv v(1)] h'
  show "q < next_ref h' \<and> u_id v \<noteq> 0 \<and> distinct (u_buddies v) \<and>
      nick_umap h' (u_nick v) = Some (Some q) \<and> id_umap h' (u_id v) = Some (Some q)"
    by auto
next
  fix n p assume "nick_umap h' n = Some p"
  then have n: "nick_umap h n = Some p" "n \<noteq> u_nick u" using h' by (auto split: if_splits)
  from reg_inv_nick[OF inv n(1)] obtain q v where v: "p = Some q" "users h q = Some v" "u_nick v = n" .
  with n(2) u h' show "\<exists>q v. p = Some q \<and> users h' q = Some v \<and> u_nick v = n" by auto
next
  fix i q assume "id_umap h' i = Some (Some q)"
  then have i: "id_umap h i = Some (Some q)" "i \<noteq> u_id u" using h' by (auto split: if_splits)
  from reg_inv_id[OF inv i(1)] obtain v where v: "users h q = Some v" "u_id v = i" .
  with i(2) u h' show "\<exists>v. users h' q = Some v \<and> u_id v = i" by auto
qed

lemma reg_inv_start: "reg_inv (hub_start ep)"
  by (simp add: reg_inv_def hub_start_def)

lemma reg_inv_one: "reg_inv hub_one"
  by (simp add: reg_inv_def hub_one_def hub_start_def)

definition sock_one :: Socket where
  "sock_one = (Socket_fd 5)\<lparr>sk_addr := Some no_addr\<rparr>"

definition session_one :: Session where
  "session_one = \<lparr>se_sock = 0, se_buf = CircularBuffer (2 * CMDPKG_MAX), se_user = None, se_queue = []\<rparr>"

lemma hub_one_sel [simp]:
  "users hub_one = Map.empty" "nick_umap hub_one = Map.empty" "id_umap hub_one = Map.empty"
  "idgen_current hub_one = 0" "next_ref hub_one = 1" "rand_calls hub_one = 0"
  "socks hub_one = Map.empty(0 \<mapsto> sock_one)" "sessions hub_one = Map.empty(0 \<mapsto> session_one)"
  "cmd_buf hub_one = replicate CMDPKG_MAX None" "uqueue hub_one = []" "udp_out hub_one = []"
  "pending_cmd_queue hub_one = []"
  by (simp_all add: hub_one_def hub_start_def sock_one_def session_one_def)

lemma sock_one_sel [simp]: "sk_tx sock_one = []" "sk_rx sock_one = []" "sk_out sock_one = []" "sockfd sock_one = 5"
  "sk_addr sock_one = Some no_addr"
  by (simp_all add: sock_one_def Socket_fd_def)

lemma session_one_sel [simp]: "se_sock session_one = 0" "se_user session_one = None"
  "se_buf session_one = CircularBuffer (2 * CMDPKG_MAX)" "se_queue session_one = []"
  by (simp_all add: session_one_def)

end
