(* ===== verification/Command_Handler.thy ===== *)
theory Command_Handler
  imports Hub_State
begin

text \<open>
  \<open>src/src/server/CommandHandler.cpp\<close> and the method of \<open>CommandServer.cpp\<close> it sends with: the
  commands of the TCP channel (register a nick, add and remove buddies, quit).

  A session is a reference into \<open>sessions\<close>; a package is the \<open>CmdPkg\<close> that wraps the server's
  receive buffer. Every handler returns the new state or the fault that stops it. Logging is
  left out: it changes no state.
\<close>

section \<open>CommandServer::send\<close>

definition send :: "nat \<Rightarrow> CmdPkg \<Rightarrow> hub \<Rightarrow> hub res" where
  "send s p h =
     bindF (deref (sessions h) (Some s)) (\<lambda>se.
     bindF (deref (socks h) (Some (se_sock se))) (\<lambda>sk.
     bindF (wire p) (\<lambda>bytes.
     (case Socket_Send sk bytes of
        (SendOk _, sk') \<Rightarrow> Inr (h\<lparr>socks := (socks h)(se_sock se \<mapsto> sk')\<rparr>)
      | (SendErr e, sk') \<Rightarrow>
          if e \<noteq> EWOULDBLOCK then Inl (Throw (SocketException e))
          else Inr (h\<lparr>socks := (socks h)(se_sock se \<mapsto> sk'),
                      sessions := (sessions h)(s \<mapsto> se\<lparr>se_queue := se_queue se @ [p]\<rparr>)\<rparr>)))))"

section \<open>registerNick\<close>

text \<open>The failure reply: an acknowledgement with one byte of status.\<close>

definition nick_nack :: "byte \<Rightarrow> nat \<Rightarrow> hub \<Rightarrow> hub res" where
  "nick_nack status s h =
     bindF (CmdPkg_new REGISTER_NICK_ACK 4) (\<lambda>p.
     bindF (setDataByte p 0 status) (\<lambda>p. send s p h))"

definition registerNick :: "env \<Rightarrow> CmdPkg \<Rightarrow> nat \<Rightarrow> hub \<Rightarrow> hub res" where
  "registerNick env pkg s h =
     bindF (getDataStr pkg) (\<lambda>nick.
     if SyncHashMap_count (nick_umap h) nick > 0 then nick_nack 0 s h
     else
       (case generate (id_umap h) (idgen_current h) of
          None \<Rightarrow> Inl Diverge
        | Some (ident, current) \<Rightarrow>
            let h = h\<lparr>idgen_current := current\<rparr> in
            if ident = 0 then nick_nack 2 s h
            else
              bindF (deref (sessions h) (Some s)) (\<lambda>se.
              let r = next_ref h;
                  usr = setSockPtr (newUser ident nick) (Some (se_sock se));
                  h = h\<lparr>users := (users h)(r \<mapsto> usr), next_ref := r + 1,
                         nick_umap := SyncHashMap_put (nick_umap h) nick (Some r),
                         id_umap := SyncHashMap_put (id_umap h) ident (Some r),
                         sessions := (sessions h)(s \<mapsto> se\<lparr>se_user := Some r\<rparr>)\<rparr> in
              bindF (CmdPkg_new REGISTER_NICK_ACK 8) (\<lambda>p.
              bindF (setDataByte p 0 1) (\<lambda>p.
              bindF (setInt p 1 ident) (\<lambda>p.
              bindF (send s p h) (\<lambda>h.
              let token = e_rand env (rand_calls h);
                  h = h\<lparr>rand_calls := rand_calls h + 1\<rparr> in
              bindF (deref (users h) (Some r)) (\<lambda>usr.
              let h = h\<lparr>users := (users h)(r \<mapsto> setToken usr token)\<rparr> in
              bindF (CmdPkg_new INITIALIZE_UDP 7) (\<lambda>p.
              bindF (setInt p 0 token) (\<lambda>p.
              send s p h))))))))))"

section \<open>The loop over a comma separated list\<close>

text \<open>
  Both buddy commands run over the characters of the list, the terminator included, with
  \<open>i\<close> the position and \<open>a\<close> the start of the current name. \<open>addBuddies\<close> skips an empty name
  with \<open>continue\<close>, before \<open>a\<close> is moved (\<open>skip\<close>); \<open>removeBuddies\<close> does not. \<open>body\<close> is what is
  done with a name.
\<close>

definition COMMA :: byte where "COMMA = 44"

fun nick_loop :: "bool \<Rightarrow> (cstring \<Rightarrow> 's \<Rightarrow> 's res) \<Rightarrow> cstring \<Rightarrow> byte list \<Rightarrow> nat \<Rightarrow> nat \<Rightarrow> 's \<Rightarrow> 's res" where
  "nick_loop skip body data [] i a st = Inr st"
| "nick_loop skip body data (c # cs) i a st =
     (if c = COMMA \<or> c = 0 then
        let n = i - a in
        if skip \<and> n = 0 then nick_loop skip body data cs (Suc i) a st
        else bindF (body (take n (drop a data)) st) (nick_loop skip body data cs (Suc i) (Suc i))
      else nick_loop skip body data cs (Suc i) a st)"

text \<open>\<open>new char(n + 1)\<close>, \<open>memcpy\<close> of \<open>n\<close> bytes and the terminator behind them.\<close>

definition new_nick :: "env \<Rightarrow> cstring \<Rightarrow> cstring res" where
  "new_nick env bytes =
     (if length bytes + 1 > e_char_block env then Inl (Undefined HeapOverflow) else Inr bytes)"

section \<open>addBuddies\<close>

text \<open>\<open>std::map<int, char*>\<close>, in the order of its signed keys.\<close>

fun ids_put :: "i32 \<Rightarrow> cstring \<Rightarrow> (i32 \<times> cstring) list \<Rightarrow> (i32 \<times> cstring) list" where
  "ids_put k v [] = [(k, v)]"
| "ids_put k v ((k', v') # m) =
     (if sint k < sint k' then (k, v) # (k', v') # m
      else if sint k' < sint k then (k', v') # ids_put k v m
      else (k', v) # m)"

text \<open>The body of the loop; its state is \<open>ids_map\<close>, \<open>ids_pkg_len\<close> and the heap.\<close>

definition addBuddy ::
  "env \<Rightarrow> nat \<Rightarrow> uref \<Rightarrow> cstring \<Rightarrow> (i32 \<times> cstring) list \<times> nat \<times> hub \<Rightarrow>
   ((i32 \<times> cstring) list \<times> nat \<times> hub) res" where
  "addBuddy env s ur name st =
     (case st of (ids_map, ids_pkg_len, h) \<Rightarrow>
     bindF (new_nick env name) (\<lambda>nick.
     bindF (deref (users h) (Some ur)) (\<lambda>usr.
     let h = h\<lparr>users := (users h)(ur \<mapsto> usr\<lparr>u_buddies := SyncHashSet_insert (u_buddies usr) nick\<rparr>)\<rparr>
     in if SyncHashMap_count (nick_umap h) nick > 0 then
          let (bp, m) = SyncHashMap_get (nick_umap h) nick; h = h\<lparr>nick_umap := m\<rparr> in
          bindF (deref (users h) bp) (\<lambda>buddy.
          let ids_map = ids_put (u_id buddy) nick ids_map;
              ids_pkg_len = ids_pkg_len + length name + 1;
              len_nick = length (u_nick usr) + 1 in
          bindF (CmdPkg_new BUDDIES_IDS (of_nat (3 + 4 + len_nick))) (\<lambda>p.
          bindF (setInt p 0 (u_id usr)) (\<lambda>p.
          bindF (setBytes p 4 (map Some (u_nick usr @ [0]))) (\<lambda>p.
          bindF (send s p h) (\<lambda>h.
          Inr (ids_map, ids_pkg_len, h))))))
        else Inr (ids_map, ids_pkg_len, h))))"

text \<open>The loop that writes the ids and names of the reply.\<close>

fun put_ids :: "CmdPkg \<Rightarrow> nat \<Rightarrow> (i32 \<times> cstring) list \<Rightarrow> CmdPkg res" where
  "put_ids p offset [] = Inr p"
| "put_ids p offset ((ident, nick) # m) =
     bindF (setInt p offset ident) (\<lambda>p.
     let offset = offset + 4; n = length nick + 1 in
     bindF (setBytes p offset (map Some (nick @ [0]))) (\<lambda>p.
     put_ids p (offset + n) m))"

definition addBuddies :: "env \<Rightarrow> CmdPkg \<Rightarrow> nat \<Rightarrow> hub \<Rightarrow> hub res" where
  "addBuddies env pkg s h =
     bindF (deref (sessions h) (Some s)) (\<lambda>se.
     (case se_user se of
        None \<Rightarrow> Inr h
      | Some ur \<Rightarrow>
          bindF (deref (users h) (Some ur)) (\<lambda>_.
          bindF (getDataStr pkg) (\<lambda>data.
          bindF (nick_loop True (addBuddy env s ur) data (data @ [0]) 0 0 ([], 0, h))
            (\<lambda>(ids_map, ids_pkg_len, h).
          if ids_pkg_len > 0 then
            let ids_pkg_len = ids_pkg_len + 3 + 4 * length ids_map in
            bindF (CmdPkg_new BUDDIES_IDS (of_nat ids_pkg_len)) (\<lambda>p.
            bindF (put_ids p 0 ids_map) (\<lambda>p.
            send s p h))
          else Inr h)))))"

section \<open>removeBuddies, quit, handle\<close>

definition removeBuddy :: "env \<Rightarrow> uref \<Rightarrow> cstring \<Rightarrow> hub \<Rightarrow> hub res" where
  "removeBuddy env ur name h =
     bindF (new_nick env name) (\<lambda>nick.
     bindF (deref (users h) (Some ur)) (\<lambda>usr.
     Inr (h\<lparr>users := (users h)(ur \<mapsto> usr\<lparr>u_buddies := SyncHashSet_erase (u_buddies usr) nick\<rparr>)\<rparr>)))"

definition removeBuddies :: "env \<Rightarrow> CmdPkg \<Rightarrow> nat \<Rightarrow> hub \<Rightarrow> hub res" where
  "removeBuddies env pkg s h =
     bindF (deref (sessions h) (Some s)) (\<lambda>se.
     (case se_user se of
        None \<Rightarrow> Inr h
      | Some ur \<Rightarrow>
          bindF (getDataStr pkg) (\<lambda>data.
          nick_loop False (removeBuddy env ur) data (data @ [0]) 0 0 h)))"

definition quit :: "uref \<Rightarrow> hub \<Rightarrow> hub res" where
  "quit ur h =
     bindF (deref (users h) (Some ur)) (\<lambda>u.
     Inr (h\<lparr>id_umap := SyncHashMap_erase (id_umap h) (u_id u),
            nick_umap := SyncHashMap_erase (nick_umap h) (u_nick u),
            users := (users h)(ur := None)\<rparr>))"

definition handle :: "env \<Rightarrow> CmdPkg \<Rightarrow> nat \<Rightarrow> hub \<Rightarrow> hub res" where
  "handle env pkg s h =
     bindF (getType pkg) (\<lambda>t.
     if t = REGISTER_NICK then registerNick env pkg s h
     else if t = ADD_BUDDIES then addBuddies env pkg s h
     else if t = REMOVE_BUDDIES then removeBuddies env pkg s h
     else Inr h)"

section \<open>The names the loops visit\<close>

text \<open>
  What the loops make of a list: \<open>cur\<close> is the name read so far. With \<open>skip\<close> an empty name is
  not passed over but becomes the comma that ended it, the first character of the next name.
\<close>

fun tokens :: "bool \<Rightarrow> cstring \<Rightarrow> cstring \<Rightarrow> cstring list" where
  "tokens skip cur [] = (if skip \<and> cur = [] then [] else [cur])"
| "tokens skip cur (c # cs) =
     (if c = COMMA
      then if skip \<and> cur = [] then tokens skip [c] cs else cur # tokens skip [] cs
      else tokens skip (cur @ [c]) cs)"

lemma nick_loop_tokens_gen:
  assumes "0 \<notin> set rest" "data = pre @ rest" "a \<le> length pre"
  shows "nick_loop skip body data (rest @ [0]) (length pre) a st =
    foldF body (tokens skip (drop a pre) rest) st"
  using assms
proof (induction rest arbitrary: pre a st)
  case Nil
  have "nick_loop skip body data [] i j = foldF body []" for i j by (intro ext) simp
  with Nil show ?case by auto
next
  case (Cons c cs)
  have data: "data = (pre @ [c]) @ cs" using Cons.prems(2) by simp
  have cur: "take (length pre - a) (drop a data) = drop a pre" using Cons.prems(2,3) by simp
  note IH = Cons.IH[OF _ data]
  show ?case
  proof (cases "c = COMMA")
    case False
    with Cons.prems IH[of a st] show ?thesis by simp
  next
    case True
    show ?thesis
    proof (cases "skip \<and> drop a pre = []")
      case t: True
      then have "a = length pre" using Cons.prems(3) by simp
      with True t Cons.prems(1) IH[of a st] show ?thesis by simp
    next
      case False
      then have "\<not> (skip \<and> length pre \<le> a)" using Cons.prems(3) by simp
      moreover have "nick_loop skip body data (cs @ [0]) (Suc (length pre)) (Suc (length pre)) =
          foldF body (tokens skip [] cs)"
        using IH[of "Suc (length pre)"] Cons.prems(1) by (intro ext) simp
      ultimately show ?thesis using True False cur by (auto simp: Let_def)
    qed
  qed
qed

lemma nick_loop_tokens:
  "0 \<notin> set data \<Longrightarrow> nick_loop skip body data (data @ [0]) 0 0 st = foldF body (tokens skip [] data) st"
  using nick_loop_tokens_gen[of data data "[]" 0] by simp

text \<open>A list as a client writes it: names without commas, separated by commas.\<close>

fun csv :: "cstring list \<Rightarrow> cstring" where
  "csv [] = []"
| "csv [x] = x"
| "csv (x # y # xs) = x @ COMMA # csv (y # xs)"

definition name_ok :: "cstring \<Rightarrow> bool" where
  "name_ok x \<longleftrightarrow> x \<noteq> [] \<and> COMMA \<notin> set x \<and> 0 \<notin> set x"

lemma tokens_prefix: "COMMA \<notin> set x \<Longrightarrow> tokens skip cur (x @ rest) = tokens skip (cur @ x) rest"
  by (induction x arbitrary: cur) auto

lemma tokens_name: "COMMA \<notin> set x \<Longrightarrow> tokens skip cur x = tokens skip (cur @ x) []"
  using tokens_prefix[of x skip cur "[]"] by simp

lemma tokens_csv: "names \<noteq> [] \<Longrightarrow> \<forall>x \<in> set names. name_ok x \<Longrightarrow> tokens skip [] (csv names) = names"
proof (induction names rule: csv.induct)
  case (2 x)
  then show ?case by (simp add: name_ok_def tokens_name)
next
  case (3 x y xs)
  then have x: "COMMA \<notin> set x" "x \<noteq> []" by (simp_all add: name_ok_def)
  with 3 show ?case using tokens_prefix[OF x(1), of skip "[]"] by simp
qed simp

lemma csv_no_nul: "\<forall>x \<in> set names. name_ok x \<Longrightarrow> 0 \<notin> set (csv names)"
  by (induction names rule: csv.induct) (auto simp: name_ok_def COMMA_def)

section \<open>What a send changes\<close>

lemma sendE:
  assumes "send s p h = Inr h'"
  obtains (sent) se sk bytes n sk' where "sessions h s = Some se" "socks h (se_sock se) = Some sk"
      "wire p = Inr bytes" "Socket_Send sk bytes = (SendOk n, sk')"
      "h' = h\<lparr>socks := (socks h)(se_sock se \<mapsto> sk')\<rparr>"
    | (queued) se sk bytes sk' where "sessions h s = Some se" "socks h (se_sock se) = Some sk"
      "wire p = Inr bytes" "Socket_Send sk bytes = (SendErr EWOULDBLOCK, sk')"
      "h' = h\<lparr>socks := (socks h)(se_sock se \<mapsto> sk'),
              sessions := (sessions h)(s \<mapsto> se\<lparr>se_queue := se_queue se @ [p]\<rparr>)\<rparr>"
proof -
  from assms obtain se sk bytes where 1: "sessions h s = Some se" "socks h (se_sock se) = Some sk"
      "wire p = Inr bytes"
    and r: "(case Socket_Send sk bytes of
        (SendOk _, sk') \<Rightarrow> Inr (h\<lparr>socks := (socks h)(se_sock se \<mapsto> sk')\<rparr>)
      | (SendErr e, sk') \<Rightarrow>
          if e \<noteq> EWOULDBLOCK then Inl (Throw (SocketException e))
          else Inr (h\<lparr>socks := (socks h)(se_sock se \<mapsto> sk'),
                      sessions := (sessions h)(s \<mapsto> se\<lparr>se_queue := se_queue se @ [p]\<rparr>)\<rparr>)) = Inr h'"
    by (auto simp: send_def fault_simps)
  obtain x sk' where x: "Socket_Send sk bytes = (x, sk')" by fastforce
  show ?thesis
  proof (cases x)
    case (SendOk n)
    with 1 r x show ?thesis by (intro sent) auto
  next
    case (SendErr e)
    with r x have "e = EWOULDBLOCK" by (auto split: if_splits)
    with 1 r x SendErr show ?thesis by (intro queued) auto
  qed
qed

lemma send_frame:
  assumes "send s p h = Inr h'"
  shows "users h' = users h \<and> id_umap h' = id_umap h \<and> nick_umap h' = nick_umap h \<and>
    next_ref h' = next_ref h \<and> rand_calls h' = rand_calls h \<and> idgen_current h' = idgen_current h \<and>
    cmd_buf h' = cmd_buf h \<and> cmd_epl h' = cmd_epl h \<and> uqueue h' = uqueue h \<and> evs h' = evs h \<and>
    pending_cmd_queue h' = pending_cmd_queue h \<and> udp_out h' = udp_out h"
  using assms by (cases rule: sendE) auto

text \<open>Of the sockets, only the session's own is written to; of the sessions, only its queue.\<close>

lemma send_local:
  assumes "send s p h = Inr h'"
  shows "\<exists>se sk sk' q. sessions h s = Some se \<and> socks h (se_sock se) = Some sk \<and>
    socks h' = (socks h)(se_sock se \<mapsto> sk') \<and> sk_rx sk' = sk_rx sk \<and> sk_addr sk' = sk_addr sk \<and>
    sessions h' = (sessions h)(s \<mapsto> se\<lparr>se_queue := q\<rparr>)"
  using assms
proof (cases rule: sendE)
  case (sent se sk bytes n sk')
  moreover have "(sessions h)(s \<mapsto> se\<lparr>se_queue := se_queue se\<rparr>) = sessions h"
    using sent(1) by (simp add: fun_upd_idem)
  ultimately show ?thesis using Socket_Send_frame[OF sent(4)]
    by (intro exI[of _ se] exI[of _ sk] exI[of _ sk'] exI[of _ "se_queue se"]) simp
next
  case (queued se sk bytes sk')
  then show ?thesis using Socket_Send_frame[OF queued(4)] by auto
qed

lemma send_ok:
  assumes "sessions h s = Some se" "socks h (se_sock se) = Some sk" "sk_tx sk = []" "wire p = Inr bs"
  shows "send s p h = Inr (h\<lparr>socks := (socks h)(se_sock se \<mapsto> sk\<lparr>sk_out := sk_out sk @ bs\<rparr>)\<rparr>)"
  using assms by (simp add: send_def Socket_Send_all)

lemma reg_inv_send: "reg_inv h \<Longrightarrow> send s p h = Inr h' \<Longrightarrow> reg_inv h'"
  using send_frame by (intro reg_inv_cong[of h' h]) auto

end
