(* ===== verification/Command_Spec.thy ===== *)
theory Command_Spec
  imports Command_Handler "HOL-Library.Multiset"
begin

text \<open>
  What the commands of \<open>CommandHandler.cpp\<close> do: the registry invariant, the result of a
  registration, the buddy list and the reply of \<open>addBuddies\<close>, \<open>removeBuddies\<close> and \<open>quit\<close>.
\<close>

lemma generate_free: "generate m c = Some (i, c') \<Longrightarrow> m i = None \<and> i \<noteq> 0"
  using generate_loop_result[of m c 0 i c'] by (simp add: generate_def free_id_def)

section \<open>Runs of the commands\<close>

text \<open>The replies, byte by byte.\<close>

definition nack_bytes :: "byte \<Rightarrow> byte list" where
  "nack_bytes status = [101, 0, 4, status]"

definition ack_bytes :: "i32 \<Rightarrow> byte list" where
  "ack_bytes ident = [101, 0, 8, 1] @ be32 ident"

definition init_udp_bytes :: "i32 \<Rightarrow> byte list" where
  "init_udp_bytes token = [105, 0, 7] @ be32 token"

lemma be16_numerals: "be16 4 = [0, 4]" "be16 7 = [0, 7]" "be16 8 = [0, 8]"
  by code_simp+

lemma reply_pkgs:
  "CmdPkg_new REGISTER_NICK_ACK 4 = Inr (mk_pkg REGISTER_NICK_ACK 4 [None])"
  "setDataByte (mk_pkg REGISTER_NICK_ACK 4 [None]) 0 c = Inr (mk_pkg REGISTER_NICK_ACK 4 [Some c])"
  "CmdPkg_new REGISTER_NICK_ACK 8 = Inr (mk_pkg REGISTER_NICK_ACK 8 (replicate 5 None))"
  "setDataByte (mk_pkg REGISTER_NICK_ACK 8 (replicate 5 None)) 0 1 =
     Inr (mk_pkg REGISTER_NICK_ACK 8 (Some 1 # replicate 4 None))"
  "setInt (mk_pkg REGISTER_NICK_ACK 8 (Some 1 # replicate 4 None)) 1 i =
     Inr (mk_pkg REGISTER_NICK_ACK 8 (map Some (1 # be32 i)))"
  "CmdPkg_new INITIALIZE_UDP 7 = Inr (mk_pkg INITIALIZE_UDP 7 (replicate 4 None))"
  "setInt (mk_pkg INITIALIZE_UDP 7 (replicate 4 None)) 0 t =
     Inr (mk_pkg INITIALIZE_UDP 7 (map Some (be32 t)))"
  using CmdPkg_new_pkg[of 4 1 REGISTER_NICK_ACK] CmdPkg_new_pkg[of 8 5 REGISTER_NICK_ACK]
    CmdPkg_new_pkg[of 7 4 INITIALIZE_UDP]
  by (simp_all add: pkg_ops)

lemma reply_wires:
  "wire (mk_pkg REGISTER_NICK_ACK 4 [Some c]) = Inr (map Some (nack_bytes c))"
  "wire (mk_pkg REGISTER_NICK_ACK 8 (map Some (1 # be32 i))) = Inr (map Some (ack_bytes i))"
  "wire (mk_pkg INITIALIZE_UDP 7 (map Some (be32 t))) = Inr (map Some (init_udp_bytes t))"
  by (simp_all add: wire_pkg be16_numerals pkg_type_defs nack_bytes_def ack_bytes_def
      init_udp_bytes_def)

text \<open>\<open>registerNick\<close> with its packages built.\<close>

definition publish :: "env \<Rightarrow> i32 \<Rightarrow> i32 \<Rightarrow> cstring \<Rightarrow> nat \<Rightarrow> Session \<Rightarrow> hub \<Rightarrow> hub" where
  "publish env ident current nick s se h =
     (let r = next_ref h in
      h\<lparr>idgen_current := current,
        users := (users h)(r \<mapsto> setSockPtr (newUser ident nick) (Some (se_sock se))),
        next_ref := r + 1,
        nick_umap := SyncHashMap_put (nick_umap h) nick (Some r),
        id_umap := SyncHashMap_put (id_umap h) ident (Some r),
        sessions := (sessions h)(s \<mapsto> se\<lparr>se_user := Some r\<rparr>)\<rparr>)"

lemma nick_nack_eq: "nick_nack c s h = send s (mk_pkg REGISTER_NICK_ACK 4 [Some c]) h"
  by (simp only: nick_nack_def reply_pkgs bindF.simps)

lemma registerNick_eq:
  assumes "getDataStr pkg = Inr nick" "nick_umap h nick = None" "sessions h s = Some se"
    and gen: "generate (id_umap h) (idgen_current h) = Some (i, c)"
  shows "registerNick env pkg s h =
    bindF (send s (mk_pkg REGISTER_NICK_ACK 8 (map Some (1 # be32 i))) (publish env i c nick s se h)) (\<lambda>h1.
    let token = e_rand env (rand_calls h1) in
    bindF (deref (users h1) (Some (next_ref h))) (\<lambda>usr.
    send s (mk_pkg INITIALIZE_UDP 7 (map Some (be32 token)))
      (h1\<lparr>rand_calls := rand_calls h1 + 1, users := (users h1)(next_ref h \<mapsto> setToken usr token)\<rparr>)))"
proof -
  have i: "i \<noteq> 0" using generate_free[OF gen] by simp
  have cnt: "SyncHashMap_count (nick_umap h) nick = 0" using assms(2) by (simp add: SyncHashMap_count_def)
  show ?thesis
    unfolding registerNick_def Let_def assms(1) cnt gen
    using i assms(3) by (simp del: One_nat_def add: cnt reply_pkgs publish_def Let_def)
qed

lemma registerNickE:
  assumes "registerNick env pkg s h = Inr h'"
  obtains (taken) nick where "getDataStr pkg = Inr nick" "nick_umap h nick \<noteq> None" "nick_nack 0 s h = Inr h'"
    | (registered) nick i c se h1 usr where "getDataStr pkg = Inr nick" "nick_umap h nick = None"
      "generate (id_umap h) (idgen_current h) = Some (i, c)" "sessions h s = Some se"
      "send s (mk_pkg REGISTER_NICK_ACK 8 (map Some (1 # be32 i))) (publish env i c nick s se h) = Inr h1"
      "users h1 (next_ref h) = Some usr"
      "send s (mk_pkg INITIALIZE_UDP 7 (map Some (be32 (e_rand env (rand_calls h1)))))
        (h1\<lparr>rand_calls := rand_calls h1 + 1,
            users := (users h1)(next_ref h \<mapsto> setToken usr (e_rand env (rand_calls h1)))\<rparr>) = Inr h'"
proof -
  obtain nick where nick: "getDataStr pkg = Inr nick" using assms by (auto simp: registerNick_def)
  show ?thesis
  proof (cases "nick_umap h nick = None")
    case False
    then have "SyncHashMap_count (nick_umap h) nick > 0" by (auto simp: SyncHashMap_count_def)
    with assms nick have "nick_nack 0 s h = Inr h'" by (simp add: registerNick_def)
    with nick False show ?thesis by (rule taken)
  next
    case True
    then have cnt: "SyncHashMap_count (nick_umap h) nick = 0" by (simp add: SyncHashMap_count_def)
    obtain i c where gen: "generate (id_umap h) (idgen_current h) = Some (i, c)"
      using assms nick cnt by (auto simp: registerNick_def split: option.splits)
    obtain se where se: "sessions h s = Some se"
      using assms nick cnt gen generate_free[OF gen] by (auto simp: registerNick_def fault_simps Let_def)
    from assms show ?thesis
      unfolding registerNick_eq[OF nick True se gen]
      by (auto simp: fault_simps Let_def intro: registered[OF nick True gen se])
  qed
qed

lemma addBuddyE:
  assumes "addBuddy env s ur name (m, l, h) = Inr (m', l', h')"
  obtains (offline) nick usr where "new_nick env name = Inr nick" "users h ur = Some usr"
      "h' = h\<lparr>users := (users h)(ur \<mapsto> usr\<lparr>u_buddies := SyncHashSet_insert (u_buddies usr) nick\<rparr>)\<rparr>"
    | (online) nick usr p where "new_nick env name = Inr nick" "users h ur = Some usr"
      "send s p (h\<lparr>users := (users h)(ur \<mapsto> usr\<lparr>u_buddies := SyncHashSet_insert (u_buddies usr) nick\<rparr>)\<rparr>) = Inr h'"
proof -
  obtain nick usr where n: "new_nick env name = Inr nick" and u: "users h ur = Some usr"
    using assms by (auto simp: addBuddy_def fault_simps)
  let ?h = "h\<lparr>users := (users h)(ur \<mapsto> usr\<lparr>u_buddies := SyncHashSet_insert (u_buddies usr) nick\<rparr>)\<rparr>"
  show ?thesis
  proof (cases "SyncHashMap_count (nick_umap h) nick > 0")
    case False
    with assms n u show ?thesis by (intro offline[OF n u]) (simp add: addBuddy_def Let_def)
  next
    case True
    obtain bp where get: "SyncHashMap_get (nick_umap h) nick = (bp, nick_umap h)"
      using get_present_nick[OF True] by (metis prod.collapse)
    have "?h\<lparr>nick_umap := nick_umap h\<rparr> = ?h" by simp
    with assms n u True get have "\<exists>p. send s p ?h = Inr h'"
      by (simp add: addBuddy_def Let_def fault_simps) blast
    then show ?thesis using online[OF n u] by blast
  qed
qed

lemma addBuddies_loopE:
  assumes "addBuddies env pkg s h = Inr h'" "sessions h s = Some se" "se_user se = Some ur"
  obtains data m l h1 where "getDataStr pkg = Inr data"
    "nick_loop True (addBuddy env s ur) data (data @ [0]) 0 0 ([], 0, h) = Inr (m, l, h1)"
    "h' = h1 \<or> (\<exists>p. send s p h1 = Inr h')"
proof -
  obtain data m l h1 where "getDataStr pkg = Inr data"
    "nick_loop True (addBuddy env s ur) data (data @ [0]) 0 0 ([], 0, h) = Inr (m, l, h1)"
    "(if l > 0 then let l = l + 3 + 4 * length m in
        bindF (CmdPkg_new BUDDIES_IDS (of_nat l)) (\<lambda>p. bindF (put_ids p 0 m) (\<lambda>p. send s p h1))
      else Inr h1) = Inr h'"
    using assms by (auto simp: addBuddies_def fault_simps)
  then show thesis by (intro that) (auto simp: Let_def fault_simps split: if_splits)
qed

text \<open>What every step of the loops keeps, the commands keep.\<close>

lemma addBuddies_invariant:
  assumes run: "addBuddies env pkg s h = Inr h'" and "P h"
    and step: "\<And>ur x m l k m' l' k'. P k \<Longrightarrow> addBuddy env s ur x (m, l, k) = Inr (m', l', k') \<Longrightarrow> P k'"
    and reply: "\<And>p k k'. P k \<Longrightarrow> send s p k = Inr k' \<Longrightarrow> P k'"
  shows "P h'"
proof -
  obtain se where se: "sessions h s = Some se" using run by (auto simp: addBuddies_def fault_simps)
  show ?thesis
  proof (cases "se_user se")
    case None
    with run se assms(2) show ?thesis by (simp add: addBuddies_def)
  next
    case (Some ur)
    obtain data m l h1 where d: "getDataStr pkg = Inr data"
      and lp: "nick_loop True (addBuddy env s ur) data (data @ [0]) 0 0 ([], 0, h) = Inr (m, l, h1)"
      and fin: "h' = h1 \<or> (\<exists>p. send s p h1 = Inr h')"
      using run se Some by (rule addBuddies_loopE)
    have "0 \<notin> set data" using d cstr_no_nul by (auto simp: getDataStr_def cstr_at_def)
    with lp have "foldF (addBuddy env s ur) (tokens True [] data) ([], 0, h) = Inr (m, l, h1)"
      by (simp add: nick_loop_tokens)
    from foldF_invariant[OF this, of "\<lambda>(_, _, h). P h"] assms(2) step
    have "P h1" by fastforce
    with fin reply show ?thesis by blast
  qed
qed

lemma removeBuddies_invariant:
  assumes run: "removeBuddies env pkg s h = Inr h'" and P: "P h"
    and step: "\<And>ur x k k'. P k \<Longrightarrow> removeBuddy env ur x k = Inr k' \<Longrightarrow> P k'"
  shows "P h'"
proof -
  have "foldF (removeBuddy env ur) xs h = Inr h' \<Longrightarrow> P h'" for ur xs
    using foldF_invariant[of "removeBuddy env ur" xs h h' P] P step by blast
  moreover have "cstr_at (pk_bytes pkg) 3 = Inr data \<Longrightarrow> 0 \<notin> set data" for data
    using cstr_no_nul by (auto simp: cstr_at_def)
  ultimately show ?thesis
    using run P by (auto simp: removeBuddies_def fault_simps getDataStr_def nick_loop_tokens split: option.splits)
qed

section \<open>The registry invariant is kept\<close>

lemma reg_inv_nick_nack: "reg_inv h \<Longrightarrow> nick_nack c s h = Inr h' \<Longrightarrow> reg_inv h'"
  unfolding nick_nack_def by (auto simp: fault_simps intro: reg_inv_send)

lemma reg_inv_setToken:
  assumes "reg_inv h" "users h r = Some u"
  shows "reg_inv (h\<lparr>users := (users h)(r \<mapsto> setToken u t)\<rparr>)"
  using reg_inv_upd_user[OF assms, of "setToken u t"] reg_inv_user(3)[OF assms]
  by (simp add: setToken_def)

lemma reg_inv_publish:
  assumes inv: "reg_inv h" and free: "nick_umap h nick = None" "id_umap h i = None" "i \<noteq> 0"
  shows "reg_inv (publish env i c nick s se h)"
  using free by (intro reg_inv_register[OF inv, of "next_ref h" "setSockPtr (newUser i nick) (Some (se_sock se))"])
    (simp_all add: publish_def Let_def SyncHashMap_put_def setSockPtr_def newUser_def)

lemma reg_inv_registerNick:
  assumes inv: "reg_inv h" and reg: "registerNick env pkg s h = Inr h'"
  shows "reg_inv h'"
  using reg
proof (cases rule: registerNickE)
  case (taken nick)
  with inv show ?thesis by (simp add: reg_inv_nick_nack)
next
  case (registered nick i c se h1 usr)
  let ?h = "h1\<lparr>users := (users h1)(next_ref h \<mapsto> setToken usr (e_rand env (rand_calls h1)))\<rparr>"
  have "reg_inv (publish env i c nick s se h)"
    using reg_inv_publish[OF inv registered(2)] generate_free[OF registered(3)] by simp
  then have "reg_inv h1" using registered(5) by (rule reg_inv_send)
  then have "reg_inv ?h" using registered(6) by (rule reg_inv_setToken)
  then have "reg_inv (h1\<lparr>rand_calls := rand_calls h1 + 1,
      users := (users h1)(next_ref h \<mapsto> setToken usr (e_rand env (rand_calls h1)))\<rparr>)"
    by (rule reg_inv_cong[rotated -1]) simp_all
  then show ?thesis using registered(7) by (rule reg_inv_send)
qed

lemma reg_inv_buddies:
  assumes "reg_inv h" "users h r = Some u" "distinct b"
  shows "reg_inv (h\<lparr>users := (users h)(r \<mapsto> u\<lparr>u_buddies := b\<rparr>)\<rparr>)"
  using reg_inv_upd_user[OF assms(1,2), of "u\<lparr>u_buddies := b\<rparr>"] assms(3) by simp

lemma reg_inv_addBuddy:
  assumes inv: "reg_inv h" and run: "addBuddy env s ur name (m, l, h) = Inr (m', l', h')"
  shows "reg_inv h'"
proof -
  have "reg_inv (h\<lparr>users := (users h)(ur \<mapsto> u\<lparr>u_buddies := SyncHashSet_insert (u_buddies u) nick\<rparr>)\<rparr>)"
    if "users h ur = Some u" for u nick
    using that by (rule reg_inv_buddies[OF inv _ shs.inv_insert[OF reg_inv_user(3)[OF inv that]]])
  with run show ?thesis by (cases rule: addBuddyE) (auto intro: reg_inv_send)
qed

lemma reg_inv_addBuddies: "reg_inv h \<Longrightarrow> addBuddies env pkg s h = Inr h' \<Longrightarrow> reg_inv h'"
  by (rule addBuddies_invariant[where P = reg_inv]) (auto intro: reg_inv_addBuddy reg_inv_send)

lemma reg_inv_removeBuddy:
  assumes "reg_inv h" "removeBuddy env ur name h = Inr h'"
  shows "reg_inv h'"
proof -
  obtain nick usr where u: "users h ur = Some usr" and
    "h' = h\<lparr>users := (users h)(ur \<mapsto> usr\<lparr>u_buddies := SyncHashSet_erase (u_buddies usr) nick\<rparr>)\<rparr>"
    using assms(2) by (auto simp: removeBuddy_def fault_simps)
  then show ?thesis
    using reg_inv_buddies[OF assms(1) u shs.inv_erase[OF reg_inv_user(3)[OF assms(1) u]]] by simp
qed

lemma reg_inv_removeBuddies: "reg_inv h \<Longrightarrow> removeBuddies env pkg s h = Inr h' \<Longrightarrow> reg_inv h'"
  by (rule removeBuddies_invariant[where P = reg_inv]) (auto intro: reg_inv_removeBuddy)

lemma quit_eq:
  assumes "users h ur = Some u"
  shows "quit ur h = Inr (h\<lparr>id_umap := (id_umap h)(u_id u := None),
    nick_umap := (nick_umap h)(u_nick u := None), users := (users h)(ur := None)\<rparr>)"
  using assms by (simp add: quit_def SyncHashMap_erase_def)

lemma reg_inv_quit:
  assumes "reg_inv h" "quit ur h = Inr h'"
  shows "reg_inv h'"
proof -
  obtain u where u: "users h ur = Some u" using assms(2) by (auto simp: quit_def fault_simps)
  with assms(2) quit_eq[OF u] show ?thesis by (intro reg_inv_unregister[OF assms(1) u]) auto
qed

lemma reg_inv_handle: "reg_inv h \<Longrightarrow> handle env pkg s h = Inr h' \<Longrightarrow> reg_inv h'"
  by (auto simp: handle_def fault_simps split: if_splits
      intro: reg_inv_registerNick reg_inv_addBuddies reg_inv_removeBuddies)

section \<open>Registration\<close>

lemma registerNick_run:
  assumes "getDataStr pkg = Inr nick" "nick_umap h nick = None"
    and "sessions h s = Some se" "socks h (se_sock se) = Some sk" "sk_tx sk = []"
    and gen: "generate (id_umap h) (idgen_current h) = Some (i, c)"
  shows "registerNick env pkg s h =
    Inr ((publish env i c nick s se h)\<lparr>rand_calls := rand_calls h + 1,
      users := (users h)(next_ref h \<mapsto>
        setToken (setSockPtr (newUser i nick) (Some (se_sock se))) (e_rand env (rand_calls h))),
      socks := (socks h)(se_sock se \<mapsto>
        sk\<lparr>sk_out := sk_out sk @ map Some (ack_bytes i @ init_udp_bytes (e_rand env (rand_calls h)))\<rparr>)\<rparr>)"
proof -
  let ?r = "next_ref h"
  let ?t = "e_rand env (rand_calls h)"
  let ?h0 = "publish env i c nick s se h"
  let ?h1 = "?h0\<lparr>socks := (socks h)(se_sock se \<mapsto> sk\<lparr>sk_out := sk_out sk @ map Some (ack_bytes i)\<rparr>)\<rparr>"
  let ?u = "setSockPtr (newUser i nick) (Some (se_sock se))"
  let ?h2 = "?h1\<lparr>rand_calls := rand_calls h + 1, users := (users h)(?r \<mapsto> setToken ?u ?t)\<rparr>"
  let ?h3 = "?h2\<lparr>socks := (socks h)(se_sock se \<mapsto>
       sk\<lparr>sk_out := sk_out sk @ map Some (ack_bytes i @ init_udp_bytes ?t)\<rparr>)\<rparr>"
  have 1: "send s (mk_pkg REGISTER_NICK_ACK 8 (map Some (1 # be32 i))) ?h0 = Inr ?h1"
    using assms by (subst send_ok[OF _ _ _ reply_wires(2), of _ _ "se\<lparr>se_user := Some ?r\<rparr>" sk]) (auto simp: publish_def Let_def)
  have 2: "send s (mk_pkg INITIALIZE_UDP 7 (map Some (be32 ?t))) ?h2 = Inr ?h3"
    using assms by (subst send_ok[OF _ _ _ reply_wires(3), of _ _ "se\<lparr>se_user := Some ?r\<rparr>"
      "sk\<lparr>sk_out := sk_out sk @ map Some (ack_bytes i)\<rparr>"]) (auto simp: publish_def Let_def)
  have "users ?h1 ?r = Some ?u" "rand_calls ?h1 = rand_calls h"
    "(users ?h1)(?r \<mapsto> setToken ?u ?t) = (users h)(?r \<mapsto> setToken ?u ?t)"
    by (simp_all add: publish_def Let_def)
  then show ?thesis
    using registerNick_eq[OF assms(1,2,3) gen, of env] 1 2 by (simp add: Let_def)
qed

text \<open>
  C14: a registration that finds the nick and an id free and whose two replies are accepted by
  the socket. The new user is live, with the generated id, the nick, no buddies, no UDP
  address, the session's socket and the random token; it is the entry of its nick and of its
  id, no other entry changes; the session refers to it; and the client is sent the
  acknowledgement with the id followed by the request to open UDP with the token, in that
  order and nothing else.
\<close>

theorem registerNick_success:
  assumes "getDataStr pkg = Inr nick" "nick_umap h nick = None"
    and "sessions h s = Some se" "socks h (se_sock se) = Some sk" "sk_tx sk = []"
    and gen: "generate (id_umap h) (idgen_current h) = Some (i, c)"
  shows "\<exists>h'. registerNick env pkg s h = Inr h' \<and>
    (let r = next_ref h; token = e_rand env (rand_calls h) in
     users h' = (users h)(r \<mapsto> (newUser i nick)\<lparr>u_sock := Some (se_sock se), u_token := Some token\<rparr>) \<and>
     nick_umap h' = (nick_umap h)(nick \<mapsto> Some r) \<and> id_umap h' = (id_umap h)(i \<mapsto> Some r) \<and>
     sessions h' = (sessions h)(s \<mapsto> se\<lparr>se_user := Some r\<rparr>) \<and>
     socks h' = (socks h)(se_sock se \<mapsto>
       sk\<lparr>sk_out := sk_out sk @ map Some (ack_bytes i @ init_udp_bytes token)\<rparr>))"
  using registerNick_run[OF assms(1-5) gen, of env]
  by (simp add: publish_def Let_def setSockPtr_def setToken_def SyncHashMap_put_def)

text \<open>
  A nick that is taken is refused: the reply is the acknowledgement with status 0, and no
  user, no map entry, no session and no counter changes, whatever the session's state was.
\<close>

theorem registerNick_taken:
  assumes "getDataStr pkg = Inr nick" "nick_umap h nick \<noteq> None"
    and "sessions h s = Some se" "socks h (se_sock se) = Some sk" "sk_tx sk = []"
  shows "registerNick env pkg s h =
    Inr (h\<lparr>socks := (socks h)(se_sock se \<mapsto> sk\<lparr>sk_out := sk_out sk @ map Some (nack_bytes 0)\<rparr>)\<rparr>)"
proof -
  have "SyncHashMap_count (nick_umap h) nick > 0"
    using assms(2) by (auto simp: SyncHashMap_count_def)
  then show ?thesis
    using send_ok[OF assms(3,4,5) reply_wires(1)] assms(1)
    by (simp add: registerNick_def nick_nack_eq)
qed


definition pkg_of :: "byte \<Rightarrow> cstring \<Rightarrow> CmdPkg" where
  "pkg_of t data = \<lparr>pk_bytes = layout t (3 + length data) (map Some data), is_extbuf = True\<rparr>"

lemma getDataStr_pkg_of: "0 \<notin> set data \<Longrightarrow> getDataStr (pkg_of t data) = Inr data"
  by (simp add: getDataStr_def cstr_at_def pkg_of_def layout_def be16_def numeral_3_eq_3)

lemma generate_first: "generate Map.empty 0 = Some (1, 1)"
  by (simp add: generate_def generate_loop_unfold)

theorem registerNick_success_witness:
  "\<exists>h'. registerNick env0 (pkg_of REGISTER_NICK [65, 66]) 0 hub_one = Inr h' \<and>
     nick_umap h' [65, 66] = Some (Some 1) \<and> id_umap h' 1 = Some (Some 1)"
proof -
  have "getDataStr (pkg_of REGISTER_NICK [65, 66]) = Inr [65, 66]" by (rule getDataStr_pkg_of) simp
  from registerNick_success[OF this, of hub_one 0 session_one sock_one 1 1 env0]
  show ?thesis by (auto simp: generate_first Let_def)
qed

theorem registerNick_taken_witness:
  "\<exists>h'. registerNick env0 (pkg_of REGISTER_NICK [65, 66]) 0
     (hub_one\<lparr>nick_umap := Map.empty([65, 66] \<mapsto> Some 7)\<rparr>) = Inr h' \<and>
   sk_out (the (socks h' 0)) = map Some [101, 0, 4, 0]"
proof -
  have "getDataStr (pkg_of REGISTER_NICK [65, 66]) = Inr [65, 66]" by (rule getDataStr_pkg_of) simp
  from registerNick_taken[OF this, of "hub_one\<lparr>nick_umap := Map.empty([65, 66] \<mapsto> Some 7)\<rparr>" 0
      session_one sock_one env0]
  show ?thesis by (simp add: nack_bytes_def)
qed

section \<open>The reply of addBuddies\<close>

text \<open>
  The data of a buddies-ids package: for every entry the id, the nick and a NUL. \<open>decode_ids\<close>
  is how a client takes it apart (\<open>None\<close> for data that ends inside an entry).
\<close>

definition encode_ids :: "(i32 \<times> cstring) list \<Rightarrow> byte list" where
  "encode_ids ms = concat (map (\<lambda>(i, n). be32 i @ n @ [0]) ms)"

fun decode_nick :: "byte list \<Rightarrow> (cstring \<times> byte list) option" where
  "decode_nick [] = None"
| "decode_nick (b # bs) = (if b = 0 then Some ([], bs)
     else map_option (\<lambda>(n, rest). (b # n, rest)) (decode_nick bs))"

lemma decode_nick_shorter: "decode_nick bs = Some (n, rest) \<Longrightarrow> length rest < length bs"
  by (induction bs arbitrary: n) (fastforce split: if_splits)+

lemma decode_nick_append: "0 \<notin> set n \<Longrightarrow> decode_nick (n @ 0 # rest) = Some (n, rest)"
  by (induction n) auto

function decode_ids :: "byte list \<Rightarrow> (i32 \<times> cstring) list option" where
  "decode_ids bs =
     (if bs = [] then Some []
      else if length bs < 4 then None
      else (case decode_nick (drop 4 bs) of
              None \<Rightarrow> None
            | Some (n, rest) \<Rightarrow> map_option (\<lambda>ms. (val32 (take 4 bs), n) # ms) (decode_ids rest)))"
  by pat_completeness auto

termination
  by (relation "measure length") (auto dest!: decode_nick_shorter)

declare decode_ids.simps [simp del]

lemma decode_encode_ids:
  "\<forall>(i, n) \<in> set ms. 0 \<notin> set n \<Longrightarrow> decode_ids (encode_ids ms) = Some ms"
proof (induction ms)
  case Nil
  then show ?case by (simp add: encode_ids_def decode_ids.simps)
next
  case (Cons x ms)
  obtain i n where x: "x = (i, n)" by fastforce
  have e: "encode_ids (x # ms) = be32 i @ n @ 0 # encode_ids ms" by (simp add: encode_ids_def x)
  then show ?case
    using Cons x by (subst decode_ids.simps) (simp add: decode_nick_append)
qed

lemma length_encode_ids: "length (encode_ids ms) = 4 * length ms + sum_list (map (\<lambda>x. length (snd x) + 1) ms)"
  by (induction ms) (auto simp: encode_ids_def)

lemma put_ids_pkg:
  assumes "length (encode_ids ms) \<le> k"
  shows "put_ids (mk_pkg t n (map Some d @ replicate k None)) (length d) ms =
    Inr (mk_pkg t n (map Some (d @ encode_ids ms) @ replicate (k - length (encode_ids ms)) None))"
  using assms
proof (induction ms arbitrary: d k)
  case Nil
  then show ?case by (simp add: encode_ids_def)
next
  case (Cons x ms)
  obtain i nick where x: "x = (i, nick)" by fastforce
  have e: "encode_ids (x # ms) = be32 i @ nick @ 0 # encode_ids ms" by (simp add: encode_ids_def x)
  let ?l = "length nick + 1"
  have k: "4 + ?l + length (encode_ids ms) \<le> k" using Cons.prems by (simp add: e)
  have 1: "setInt (mk_pkg t n (map Some d @ replicate k None)) (length d) i =
      Inr (mk_pkg t n (map Some (d @ be32 i) @ replicate (k - 4) None))"
    using k by (simp add: setInt_pkg)
  have 2: "setBytes (mk_pkg t n (map Some (d @ be32 i) @ replicate (k - 4) None)) (length d + 4)
      (map Some (nick @ [0])) =
      Inr (mk_pkg t n (map Some (d @ be32 i @ nick @ [0]) @ replicate (k - 4 - ?l) None))"
    using k by (simp add: setBytes_pkg)
  have "put_ids (mk_pkg t n (map Some d @ replicate k None)) (length d) (x # ms) =
      put_ids (mk_pkg t n (map Some (d @ be32 i @ nick @ [0]) @ replicate (k - 4 - ?l) None))
        (length (d @ be32 i @ nick @ [0])) ms"
    by (simp add: x 1[simplified] 2[simplified] ac_simps)
  also have "\<dots> = Inr (mk_pkg t n (map Some (d @ encode_ids (x # ms)) @
      replicate (k - length (encode_ids (x # ms))) None))"
  proof -
    have "length (encode_ids ms) \<le> k - 4 - ?l" using k by linarith
    moreover have "k - 4 - ?l - length (encode_ids ms) = k - length (encode_ids (x # ms))" by (simp add: e)
    ultimately show ?thesis using Cons.IH[of "k - 4 - ?l" "d @ be32 i @ nick @ [0]"] by (simp add: e)
  qed
  finally show ?case .
qed

section \<open>addBuddies\<close>

text \<open>The names of a list that are online, the id each has, and the map the loop collects.\<close>

definition online :: "hub \<Rightarrow> cstring list \<Rightarrow> cstring list" where
  "online h names = filter (\<lambda>n. nick_umap h n \<noteq> None) names"

definition buddy_id :: "hub \<Rightarrow> cstring \<Rightarrow> i32" where
  "buddy_id h n = (case nick_umap h n of
     Some (Some r) \<Rightarrow> (case users h r of Some u \<Rightarrow> u_id u | None \<Rightarrow> 0) | _ \<Rightarrow> 0)"

definition ids_of :: "hub \<Rightarrow> cstring list \<Rightarrow> (i32 \<times> cstring) list" where
  "ids_of h names = foldl (\<lambda>m n. ids_put (buddy_id h n) n m) [] (online h names)"

definition uid_bytes :: "User \<Rightarrow> byte list" where
  "uid_bytes u = BUDDIES_IDS # be16 (of_nat (8 + length (u_nick u))) @ encode_ids [(u_id u, u_nick u)]"

abbreviation room :: "cstring list \<Rightarrow> nat" where
  "room names \<equiv> sum_list (map (\<lambda>n. length n + 1) names)"

lemma sint_eq_iff: "sint a = sint b \<longleftrightarrow> a = b" for a b :: i32
  by (auto intro: signed_word_eqI)

lemma set_ids_put: "set (ids_put k v m) \<subseteq> insert (k, v) (set m)"
  by (induction k v m rule: ids_put.induct) (auto simp: antisym_conv3 sint_eq_iff split: if_splits)

lemma ids_put_sorted:
  "sorted_wrt (\<lambda>a b. sint (fst a) < sint (fst b)) m \<Longrightarrow>
   sorted_wrt (\<lambda>a b. sint (fst a) < sint (fst b)) (ids_put k v m)"
proof (induction k v m rule: ids_put.induct)
  case (2 k v k' v' m)
  then show ?case using set_ids_put[of k v m] by (force split: if_splits)
qed simp

lemma ids_put_new: "k \<notin> fst ` set m \<Longrightarrow> mset (ids_put k v m) = add_mset (k, v) (mset m)"
  by (induction k v m rule: ids_put.induct) (auto simp: sint_eq_iff)

lemma ids_put_same:
  "sorted_wrt (\<lambda>a b. sint (fst a) < sint (fst b)) m \<Longrightarrow> (k, v) \<in> set m \<Longrightarrow> ids_put k v m = m"
  by (induction k v m rule: ids_put.induct) (auto simp: sint_eq_iff)

lemma online_buddy:
  assumes "reg_inv h" "nick_umap h n \<noteq> None"
  obtains r u where "nick_umap h n = Some (Some r)" "users h r = Some u" "u_nick u = n" "buddy_id h n = u_id u"
proof -
  obtain p where p: "nick_umap h n = Some p" using assms(2) by blast
  obtain r u where "p = Some r" "users h r = Some u" "u_nick u = n"
    by (rule reg_inv_nick[OF assms(1) p])
  with p show thesis by (intro that) (simp_all add: buddy_id_def)
qed

text \<open>Among the online names, the id determines the name.\<close>

lemma buddy_id_inj:
  assumes "reg_inv h" "nick_umap h n \<noteq> None" "nick_umap h n' \<noteq> None" "buddy_id h n = buddy_id h n'"
  shows "n = n'"
proof -
  obtain r u where u: "users h r = Some u" "u_nick u = n" "buddy_id h n = u_id u"
    by (rule online_buddy[OF assms(1,2)])
  obtain r' u' where u': "users h r' = Some u'" "u_nick u' = n'" "buddy_id h n' = u_id u'"
    by (rule online_buddy[OF assms(1,3)])
  show ?thesis using reg_inv_unique[OF assms(1) u(1) u'(1)] u u' assms(4) by auto
qed

lemma ids_of_snoc:
  "ids_of h (names @ [x]) =
    (if nick_umap h x \<noteq> None then ids_put (buddy_id h x) x (ids_of h names) else ids_of h names)"
  by (simp add: ids_of_def online_def)

lemma ids_of_sorted: "sorted_wrt (\<lambda>a b. sint (fst a) < sint (fst b)) (ids_of h names)"
  by (induction names rule: rev_induct) (simp_all add: ids_of_snoc ids_put_sorted, simp add: ids_of_def online_def)

lemma mset_ids_of:
  assumes inv: "reg_inv h"
  shows "mset (ids_of h names) = image_mset (\<lambda>n. (buddy_id h n, n)) (mset_set (set (online h names)))"
proof (induction names rule: rev_induct)
  case Nil
  then show ?case by (simp add: ids_of_def online_def)
next
  case (snoc x names)
  have set_eq: "set (ids_of h names) = (\<lambda>n. (buddy_id h n, n)) ` set (online h names)"
    using arg_cong[OF snoc.IH, of set_mset] by simp
  show ?case
  proof (cases "nick_umap h x = None")
    case True
    then show ?thesis using snoc.IH by (simp add: ids_of_snoc) (simp add: online_def)
  next
    case on: False
    then have o: "online h (names @ [x]) = online h names @ [x]" by (simp add: online_def)
    show ?thesis
    proof (cases "x \<in> set (online h names)")
      case True
      then have "ids_put (buddy_id h x) x (ids_of h names) = ids_of h names"
        using set_eq by (intro ids_put_same ids_of_sorted) auto
      with on o True snoc.IH show ?thesis by (simp add: ids_of_snoc insert_absorb)
    next
      case False
      have "buddy_id h x \<notin> fst ` set (ids_of h names)"
      proof
        assume "buddy_id h x \<in> fst ` set (ids_of h names)"
        then obtain n where n: "n \<in> set (online h names)" "buddy_id h n = buddy_id h x"
          using set_eq by auto
        then have "nick_umap h n \<noteq> None" by (auto simp: online_def)
        with n False buddy_id_inj[OF inv _ on] show False by blast
      qed
      with on o False snoc.IH show ?thesis by (simp add: ids_of_snoc ids_put_new)
    qed
  qed
qed

text \<open>The packages the loop and the reply are made of.\<close>

lemma uid_pkg:
  assumes "length nick + 8 < 2 ^ 16"
  shows "CmdPkg_new BUDDIES_IDS (8 + word_of_nat (length nick)) =
      Inr (mk_pkg BUDDIES_IDS (8 + length nick) (replicate (5 + length nick) None))"
    and "setInt (mk_pkg BUDDIES_IDS (8 + length nick) (replicate (5 + length nick) None)) 0 i =
      Inr (mk_pkg BUDDIES_IDS (8 + length nick) (map Some (be32 i) @ replicate (1 + length nick) None))"
    and "setBytes (mk_pkg BUDDIES_IDS (8 + length nick) (map Some (be32 i) @ replicate (1 + length nick) None)) 4
        (map Some nick @ [Some 0]) =
      Inr (mk_pkg BUDDIES_IDS (8 + length nick) (map Some (encode_ids [(i, nick)])))"
  using assms CmdPkg_new_pkg[of "8 + length nick" "5 + length nick" BUDDIES_IDS]
  by (simp_all add: pkg_ops encode_ids_def)

lemma uid_wire:
  "length (u_nick u) + 8 < 2 ^ 16 \<Longrightarrow>
   wire (mk_pkg BUDDIES_IDS (8 + length (u_nick u)) (map Some (encode_ids [(u_id u, u_nick u)]))) =
     Inr (map Some (uid_bytes u))"
  by (subst wire_pkg) (simp_all add: uid_bytes_def encode_ids_def)

text \<open>The state of the loop after the names \<open>xs\<close>.\<close>

definition added ::
  "hub \<Rightarrow> uref \<Rightarrow> User \<Rightarrow> sref \<Rightarrow> Socket \<Rightarrow> cstring list \<Rightarrow> (i32 \<times> cstring) list \<times> nat \<times> hub" where
  "added h ur usr sr sk xs =
     (ids_of h xs, room (online h xs),
      h\<lparr>users := (users h)(ur \<mapsto> usr\<lparr>u_buddies := foldl SyncHashSet_insert (u_buddies usr) xs\<rparr>),
        socks := (socks h)(sr \<mapsto> sk\<lparr>sk_out := sk_out sk @
           concat (map (\<lambda>_. map Some (uid_bytes usr)) (online h xs))\<rparr>)\<rparr>)"

lemma addBuddy_step:
  assumes inv: "reg_inv h" and se: "sessions h s = Some se" "sk_tx sk = []"
    and usr: "users h ur = Some usr" "length (u_nick usr) + 8 < 2 ^ 16"
    and x: "length x + 1 \<le> e_char_block env"
  shows "addBuddy env s ur x (added h ur usr (se_sock se) sk xs) =
    Inr (added h ur usr (se_sock se) sk (xs @ [x]))"
proof -
  let ?bs = "foldl SyncHashSet_insert (u_buddies usr) xs"
  let ?u = "usr\<lparr>u_buddies := SyncHashSet_insert ?bs x\<rparr>"
  let ?out = "sk_out sk @ concat (map (\<lambda>_. map Some (uid_bytes usr)) (online h xs))"
  let ?h = "h\<lparr>socks := (socks h)(se_sock se \<mapsto> sk\<lparr>sk_out := ?out\<rparr>), users := (users h)(ur \<mapsto> ?u)\<rparr>"
  have n: "new_nick env x = Inr x" using x by (simp add: new_nick_def)
  show ?thesis
  proof (cases "nick_umap h x = None")
    case True
    then show ?thesis
      by (simp add: addBuddy_def added_def n SyncHashMap_count_def Let_def ids_of_snoc)
         (simp add: online_def)
  next
    case False
    then obtain r b where b: "nick_umap h x = Some (Some r)" "users h r = Some b" "buddy_id h x = u_id b"
      using online_buddy[OF inv, of x] by metis
    have buddy: "\<exists>b'. users ?h r = Some b' \<and> u_id b' = buddy_id h x"
      using b usr by auto
    have get: "SyncHashMap_get (nick_umap h) x = (Some r, nick_umap h)" "SyncHashMap_count (nick_umap h) x = 1"
      using b by (simp_all add: SyncHashMap_get_def SyncHashMap_count_def)
    have o: "online h (xs @ [x]) = online h xs @ [x]" using False by (simp add: online_def)
    have "send s (mk_pkg BUDDIES_IDS (8 + length (u_nick usr)) (map Some (encode_ids [(u_id usr, u_nick usr)]))) ?h =
        Inr (h\<lparr>users := (users h)(ur \<mapsto> ?u),
               socks := (socks h)(se_sock se \<mapsto> sk\<lparr>sk_out := ?out @ map Some (uid_bytes usr)\<rparr>)\<rparr>)"
      using se by (subst send_ok[OF _ _ _ uid_wire[OF usr(2)], of ?h s se "sk\<lparr>sk_out := ?out\<rparr>"]) auto
    with buddy get n False show ?thesis
      by (auto simp: addBuddy_def added_def Let_def ids_of_snoc o uid_pkg[OF usr(2), simplified]
          fun_upd_same simp del: fun_upd_apply)
  qed
qed

lemma addBuddy_loop:
  assumes "reg_inv h" "sessions h s = Some se" "sk_tx sk = []"
    and "users h ur = Some usr" "length (u_nick usr) + 8 < 2 ^ 16"
    and "\<forall>x \<in> set ys. length x + 1 \<le> e_char_block env"
  shows "foldF (addBuddy env s ur) ys (added h ur usr (se_sock se) sk xs) =
    Inr (added h ur usr (se_sock se) sk (xs @ ys))"
  using assms(6)
proof (induction ys arbitrary: xs)
  case (Cons y ys)
  have "addBuddy env s ur y (added h ur usr (se_sock se) sk xs) = Inr (added h ur usr (se_sock se) sk (xs @ [y]))"
    using Cons.prems by (intro addBuddy_step[OF assms(1-5)]) simp
  with Cons show ?case by simp
qed simp

lemma room_csv: "names \<noteq> [] \<Longrightarrow> room names = length (csv names) + 1"
  by (induction names rule: csv.induct) auto

lemma room_online: "room (online h names) \<le> room names"
  by (induction names) (auto simp: online_def)

lemma length_le_room: "length names \<le> room names"
  by (induction names) auto

lemma ids_of_room:
  assumes "reg_inv h"
  shows "sum_list (map (\<lambda>x. length (snd x) + 1) (ids_of h names)) = room (remdups (online h names))"
    and "length (ids_of h names) = length (remdups (online h names))"
proof -
  have m: "mset (ids_of h names) = image_mset (\<lambda>n. (buddy_id h n, n)) (mset (remdups (online h names)))"
    using mset_ids_of[OF assms, of names] by (simp add: mset_set_set[symmetric])
  have "sum_list (map (\<lambda>x. length (snd x) + 1) (ids_of h names)) =
      sum_mset (image_mset (\<lambda>x. length (snd x) + 1) (mset (ids_of h names)))"
    by (simp flip: sum_mset_sum_list)
  also have "\<dots> = room (remdups (online h names))"
    unfolding m by (simp add: image_mset.compositionality comp_def flip: sum_mset_sum_list)
  finally show "sum_list (map (\<lambda>x. length (snd x) + 1) (ids_of h names)) = room (remdups (online h names))" .
  show "length (ids_of h names) = length (remdups (online h names))"
    using arg_cong[OF m, of size] by simp
qed

lemma room_remdups: "room (remdups xs) \<le> room xs"
  by (induction xs) auto

text \<open>
  The last package: its length counts every online name of the list, its contents are the
  entries of the map. A name that occurs twice is counted twice and written once; the rest of
  the package is never written.
\<close>

definition reply_mem :: "hub \<Rightarrow> cstring list \<Rightarrow> mem" where
  "reply_mem h names =
     (let ids = ids_of h names; n = 3 + 4 * length ids + room (online h names) in
      if online h names = [] then []
      else map Some (BUDDIES_IDS # be16 (of_nat n) @ encode_ids ids) @
        replicate (room (online h names) - room (remdups (online h names))) None)"

lemma reply_pkg:
  assumes inv: "reg_inv h" and fits: "3 + 5 * room (online h names) < 2 ^ 16"
  defines "n \<equiv> room (online h names) + 3 + 4 * length (ids_of h names)"
  shows "\<exists>p. bindF (CmdPkg_new BUDDIES_IDS (of_nat n)) (\<lambda>p. put_ids p 0 (ids_of h names)) = Inr p \<and>
    (online h names \<noteq> [] \<longrightarrow> wire p = Inr (reply_mem h names))"
proof -
  let ?ids = "ids_of h names"
  let ?k = "room (online h names) + 4 * length ?ids"
  let ?pad = "room (online h names) - room (remdups (online h names))"
  have "length ?ids \<le> room (online h names)"
    using ids_of_room(2)[OF inv, of names] length_le_room[of "remdups (online h names)"]
      room_remdups[of "online h names"] by linarith
  with fits have n: "n = 3 + ?k" "n < 2 ^ 16" by (auto simp: n_def)
  have len: "length (encode_ids ?ids) = 4 * length ?ids + room (remdups (online h names))"
    using ids_of_room(1)[OF inv, of names] by (simp add: length_encode_ids)
  with room_remdups[of "online h names"] have le: "length (encode_ids ?ids) \<le> ?k"
    and pad: "?k - length (encode_ids ?ids) = ?pad" by linarith+
  have put: "put_ids (mk_pkg BUDDIES_IDS n (replicate ?k None)) 0 ?ids =
      Inr (mk_pkg BUDDIES_IDS n (map Some (encode_ids ?ids) @ replicate ?pad None))"
    using put_ids_pkg[OF le, of BUDDIES_IDS n "[]"] pad by simp
  have w: "wire (mk_pkg BUDDIES_IDS n (map Some (encode_ids ?ids) @ replicate ?pad None)) =
      Inr (Some BUDDIES_IDS # map Some (be16 (of_nat n)) @ map Some (encode_ids ?ids) @ replicate ?pad None)"
    using n len room_remdups[of "online h names"] by (subst wire_pkg) auto
  have nn: "3 + 4 * length ?ids + room (online h names) = n" by (simp add: n_def)
  have "online h names \<noteq> [] \<longrightarrow>
      wire (mk_pkg BUDDIES_IDS n (map Some (encode_ids ?ids) @ replicate ?pad None)) = Inr (reply_mem h names)"
    unfolding reply_mem_def Let_def nn w by simp
  with put CmdPkg_new_pkg[OF n] show ?thesis by simp
qed

lemma addBuddies_run:
  assumes inv: "reg_inv h" and se: "sessions h s = Some se" "se_user se = Some ur"
    "socks h (se_sock se) = Some sk" "sk_tx sk = []"
    and usr: "users h ur = Some usr" "length (u_nick usr) + 8 < 2 ^ 16"
    and data: "getDataStr pkg = Inr (csv names)" "names \<noteq> []"
    and ok: "\<forall>x \<in> set names. name_ok x \<and> length x + 1 \<le> e_char_block env"
    and fits: "8 + 5 * length (csv names) < 2 ^ 16"
  shows "addBuddies env pkg s h =
    Inr (h\<lparr>users := (users h)(ur \<mapsto> usr\<lparr>u_buddies := foldl SyncHashSet_insert (u_buddies usr) names\<rparr>),
          socks := (socks h)(se_sock se \<mapsto> sk\<lparr>sk_out := sk_out sk @
             concat (map (\<lambda>_. map Some (uid_bytes usr)) (online h names)) @ reply_mem h names\<rparr>)\<rparr>)"
proof -
  let ?out = "sk_out sk @ concat (map (\<lambda>_. map Some (uid_bytes usr)) (online h names))"
  let ?h = "h\<lparr>users := (users h)(ur \<mapsto> usr\<lparr>u_buddies := foldl SyncHashSet_insert (u_buddies usr) names\<rparr>),
          socks := (socks h)(se_sock se \<mapsto> sk\<lparr>sk_out := ?out\<rparr>)\<rparr>"
  have z: "added h ur usr (se_sock se) sk [] = ([], 0, h)"
    using se usr by (simp add: added_def ids_of_def online_def fun_upd_idem)
  have "nick_loop True (addBuddy env s ur) (csv names) (csv names @ [0]) 0 0 ([], 0, h) =
      foldF (addBuddy env s ur) names ([], 0, h)"
    using ok data csv_no_nul[of names] tokens_csv[of names True] by (simp add: nick_loop_tokens)
  also have "\<dots> = Inr (added h ur usr (se_sock se) sk names)"
    using addBuddy_loop[OF inv se(1,4) usr, of names env "[]"] ok z by simp
  finally have lp: "nick_loop True (addBuddy env s ur) (csv names) (csv names @ [0]) 0 0 ([], 0, h) =
      Inr (ids_of h names, room (online h names), ?h)" by (simp add: added_def)
  have body: "addBuddies env pkg s h =
      (if room (online h names) > 0 then
         bindF (bindF (CmdPkg_new BUDDIES_IDS (of_nat (room (online h names) + 3 + 4 * length (ids_of h names))))
            (\<lambda>p. put_ids p 0 (ids_of h names))) (\<lambda>p. send s p ?h)
       else Inr ?h)"
    unfolding addBuddies_def bindF_assoc using se usr data lp by (simp add: Let_def)
  show ?thesis
  proof (cases "online h names = []")
    case True
    then show ?thesis using body by (simp add: reply_mem_def)
  next
    case False
    have "3 + 5 * room (online h names) < 2 ^ 16"
      using fits room_online[of h names] room_csv[OF data(2)] by linarith
    from reply_pkg[OF inv this] False obtain p where
      p: "bindF (CmdPkg_new BUDDIES_IDS (of_nat (room (online h names) + 3 + 4 * length (ids_of h names))))
            (\<lambda>p. put_ids p 0 (ids_of h names)) = Inr p" "wire p = Inr (reply_mem h names)" by blast
    have "room (online h names) > 0" using False by (cases "online h names") auto
    then have "addBuddies env pkg s h = send s p ?h" using body p(1) by simp
    also have "\<dots> = Inr (?h\<lparr>socks := (socks h)(se_sock se \<mapsto> sk\<lparr>sk_out := ?out @ reply_mem h names\<rparr>)\<rparr>)"
      using se by (subst send_ok[OF _ _ _ p(2), of ?h s se "sk\<lparr>sk_out := ?out\<rparr>"]) auto
    finally show ?thesis by simp
  qed
qed

lemma set_ids_of: "reg_inv h \<Longrightarrow> set (ids_of h names) = (\<lambda>n. (buddy_id h n, n)) ` set (online h names)"
  using arg_cong[OF mset_ids_of[of h names], of set_mset] by simp

lemma ids_of_live:
  assumes inv: "reg_inv h"
  shows "set (ids_of h names) = {(u_id b, u_nick b) |b r. users h r = Some b \<and> u_nick b \<in> set names}"
proof (intro equalityI subsetI)
  fix x assume "x \<in> set (ids_of h names)"
  then obtain n where n: "n \<in> set names" "nick_umap h n \<noteq> None" "x = (buddy_id h n, n)"
    using set_ids_of[OF inv] by (auto simp: online_def)
  obtain r u where "users h r = Some u" "u_nick u = n" "buddy_id h n = u_id u"
    by (rule online_buddy[OF inv n(2)])
  with n show "x \<in> {(u_id b, u_nick b) |b r. users h r = Some b \<and> u_nick b \<in> set names}" by blast
next
  fix x assume "x \<in> {(u_id b, u_nick b) |b r. users h r = Some b \<and> u_nick b \<in> set names}"
  then obtain b r where b: "users h r = Some b" "u_nick b \<in> set names" "x = (u_id b, u_nick b)" by blast
  have "nick_umap h (u_nick b) = Some (Some r)" using reg_inv_user[OF inv b(1)] by simp
  with b show "x \<in> set (ids_of h names)"
    by (auto simp: set_ids_of[OF inv] online_def buddy_id_def image_iff)
qed

lemma sorted_ids_distinct:
  "sorted_wrt (\<lambda>a b. sint (fst a) < sint (fst b)) (m :: (i32 \<times> 'a) list) \<Longrightarrow> distinct (map fst m)"
  by (induction m) auto

text \<open>
  C15: \<open>addBuddies\<close> for a logged-in user whose list holds distinct, well-formed names that fit the
  receive buffer, when the allocator gives room for the names. It returns; exactly the names
  of the list join the user's buddies; registry and sessions stay as they are; only the user's
  own socket is written to. What the client receives last, when at least one name is online,
  is a buddies-ids package with the right length that decodes to exactly the pairs of id and
  nick of the live users named in the list, in ascending order of the id, each once. Before
  it comes one package with the user's \<^emph>\<open>own\<close> id per online name (the packages meant for the
  buddies are sent to the requesting client).
\<close>

theorem addBuddies_spec:
  assumes inv: "reg_inv h" and se: "sessions h s = Some se" "se_user se = Some ur"
    "socks h (se_sock se) = Some sk" "sk_tx sk = []"
    and usr: "users h ur = Some usr" "length (u_nick usr) < 512"
    and data: "getDataStr pkg = Inr (csv names)" "names \<noteq> []" "distinct names" "length (csv names) < 512"
    and ok: "\<forall>x \<in> set names. name_ok x \<and> length x + 1 \<le> e_char_block env"
  shows "\<exists>h' bs ids. addBuddies env pkg s h = Inr h' \<and>
    users h' = (users h)(ur \<mapsto> usr\<lparr>u_buddies := bs\<rparr>) \<and> set bs = set (u_buddies usr) \<union> set names \<and>
    nick_umap h' = nick_umap h \<and> id_umap h' = id_umap h \<and> sessions h' = sessions h \<and>
    socks h' = (socks h)(se_sock se \<mapsto> sk\<lparr>sk_out := sk_out sk @ map Some
       (concat (replicate (length ids) (uid_bytes usr)) @
        (if ids = [] then [] else BUDDIES_IDS # be16 (of_nat (3 + length (encode_ids ids))) @ encode_ids ids))\<rparr>) \<and>
    decode_ids (encode_ids ids) = Some ids \<and> 3 + length (encode_ids ids) < 2 ^ 16 \<and>
    set ids = {(u_id b, u_nick b) |b r. users h r = Some b \<and> u_nick b \<in> set names} \<and>
    sorted_wrt (\<lambda>a b. sint (fst a) < sint (fst b)) ids"
proof -
  let ?ids = "ids_of h names"
  let ?on = "online h names"
  have d: "remdups ?on = ?on" using data(3) by (simp add: online_def distinct_remdups_id)
  note room = ids_of_room[OF inv, of names, unfolded d]
  have len: "length (encode_ids ?ids) = 4 * length ?ids + room ?on"
    using room(1) by (simp add: length_encode_ids)
  have nul: "\<forall>(i, n) \<in> set ?ids. 0 \<notin> set n"
    using set_ids_of[OF inv, of names] ok by (auto simp: online_def name_ok_def)
  have empty: "?ids = [] \<longleftrightarrow> ?on = []" using room(2) by auto
  have small: "length ?ids \<le> room ?on" "room ?on \<le> 512"
    using room(2) length_le_room[of ?on] room_online[of h names] room_csv[OF data(2)] data(4) by linarith+
  have sent: "concat (map (\<lambda>_. map Some (uid_bytes usr)) ?on) @ reply_mem h names =
      map Some (concat (replicate (length ?ids) (uid_bytes usr)) @
        (if ?ids = [] then [] else BUDDIES_IDS # be16 (of_nat (3 + length (encode_ids ?ids))) @ encode_ids ?ids))"
    unfolding reply_mem_def Let_def empty d room(2) len
    by (simp add: map_replicate_const map_concat add.assoc)
  let ?h' = "h\<lparr>users := (users h)(ur \<mapsto> usr\<lparr>u_buddies := foldl SyncHashSet_insert (u_buddies usr) names\<rparr>),
          socks := (socks h)(se_sock se \<mapsto> sk\<lparr>sk_out := sk_out sk @ map Some
       (concat (replicate (length ?ids) (uid_bytes usr)) @
        (if ?ids = [] then [] else BUDDIES_IDS # be16 (of_nat (3 + length (encode_ids ?ids))) @ encode_ids ?ids))\<rparr>)\<rparr>"
  have run: "addBuddies env pkg s h = Inr ?h'"
    unfolding sent[symmetric]
    using addBuddies_run[OF inv se usr(1) _ data(1,2) ok] usr(2) data(4) by simp
  have fits: "3 + length (encode_ids ?ids) < 2 ^ 16" using len small by simp
  show ?thesis
    by (intro exI[of _ ?h'] exI[of _ "foldl SyncHashSet_insert (u_buddies usr) names"] exI[of _ ?ids] conjI
        run fits ids_of_sorted ids_of_live[OF inv] decode_encode_ids[OF nul]
        shs.items_foldl_insert[OF reg_inv_user(3)[OF inv usr(1)]]) simp_all
qed

text \<open>A server with two logged-in users, A (id 1, reference 1) and B (id 2, reference 2).\<close>

definition hub_two :: hub where
  "hub_two = hub_one\<lparr>
     users := Map.empty(1 \<mapsto> setToken (setSockPtr (newUser 1 [65]) (Some 0)) 77, 2 \<mapsto> newUser 2 [66]),
     nick_umap := Map.empty([65] \<mapsto> Some 1, [66] \<mapsto> Some 2),
     id_umap := Map.empty(1 \<mapsto> Some 1, 2 \<mapsto> Some 2),
     sessions := Map.empty(0 \<mapsto> session_one\<lparr>se_user := Some 1\<rparr>), next_ref := 3\<rparr>"

lemma hub_two_sel [simp]:
  "users hub_two = Map.empty(1 \<mapsto> setToken (setSockPtr (newUser 1 [65]) (Some 0)) 77, 2 \<mapsto> newUser 2 [66])"
  "nick_umap hub_two = Map.empty([65] \<mapsto> Some 1, [66] \<mapsto> Some 2)"
  "id_umap hub_two = Map.empty(1 \<mapsto> Some 1, 2 \<mapsto> Some 2)"
  "sessions hub_two = Map.empty(0 \<mapsto> session_one\<lparr>se_user := Some 1\<rparr>)"
  "socks hub_two = Map.empty(0 \<mapsto> sock_one)" "uqueue hub_two = []" "pending_cmd_queue hub_two = []"
  "udp_out hub_two = []" "rand_calls hub_two = 0" "next_ref hub_two = 3"
  "cmd_buf hub_two = replicate CMDPKG_MAX None"
  by (simp_all add: hub_two_def)

lemma reg_inv_two: "reg_inv hub_two"
proof -
  let ?u = "setToken (setSockPtr (newUser 1 [65]) (Some 0)) 77"
  let ?h = "hub_one\<lparr>users := Map.empty(1 \<mapsto> ?u), nick_umap := Map.empty([65] \<mapsto> Some 1),
    id_umap := Map.empty(1 \<mapsto> Some 1), next_ref := 2\<rparr>"
  have 1: "reg_inv ?h"
    by (rule reg_inv_register[OF reg_inv_one, of 1 ?u]) (simp_all add: newUser_def user_setters)
  show ?thesis
    by (rule reg_inv_register[OF 1, of 2 "newUser 2 [66]"]) (simp_all add: newUser_def user_setters)
qed

theorem addBuddies_spec_witness:
  "\<exists>h'. addBuddies env0 (pkg_of ADD_BUDDIES (csv [[66], [67]])) 0 hub_two = Inr h' \<and>
     nick_umap h' = nick_umap hub_two"
proof -
  have n: "\<forall>x \<in> set [[66], [67]]. name_ok x \<and> length x + 1 \<le> e_char_block env0"
    by (simp add: name_ok_def COMMA_def env0_def)
  then have d: "getDataStr (pkg_of ADD_BUDDIES (csv [[66], [67]])) = Inr (csv [[66], [67]])"
    by (intro getDataStr_pkg_of csv_no_nul) blast
  show ?thesis
    using addBuddies_spec[OF reg_inv_two _ _ _ _ _ _ d _ _ _ n, of 0 "session_one\<lparr>se_user := Some 1\<rparr>" 1 sock_one
        "setToken (setSockPtr (newUser 1 [65]) (Some 0)) 77"]
    by (auto simp: user_setters newUser_def)
qed

text \<open>
  A name that occurs twice in the list. The reply is one byte string longer than what is
  written into it: when the list is an online name \<open>x\<close> given twice, the last package announces
  \<open>length x + 1\<close> bytes more than the id, the nick and the NUL of the entry, and these trailing
  bytes, which are sent to the client, were never initialised.
\<close>

theorem addBuddies_duplicate:
  assumes inv: "reg_inv h" and se: "sessions h s = Some se" "se_user se = Some ur"
    "socks h (se_sock se) = Some sk" "sk_tx sk = []"
    and usr: "users h ur = Some usr" "length (u_nick usr) < 512"
    and data: "getDataStr pkg = Inr (csv [x, x])" "name_ok x" "length x < 256" "length x + 1 \<le> e_char_block env"
    and b: "users h r = Some b" "u_nick b = x"
  shows "\<exists>h'. addBuddies env pkg s h = Inr h' \<and>
    sk_out (the (socks h' (se_sock se))) = sk_out sk @ map Some (uid_bytes usr @ uid_bytes usr) @
      map Some (BUDDIES_IDS # be16 (of_nat (3 + 4 + 2 * (length x + 1))) @ be32 (u_id b) @ x @ [0]) @
      replicate (length x + 1) None"
proof -
  have x: "nick_umap h x = Some (Some r)" using reg_inv_user[OF inv b(1)] b(2) by simp
  then have on: "online h [x, x] = [x, x]" and bid: "buddy_id h x = u_id b"
    using b(1) by (simp_all add: online_def buddy_id_def)
  have ids: "ids_of h [x, x] = [(u_id b, x)]" by (simp add: ids_of_def on bid)
  have "reply_mem h [x, x] = map Some (BUDDIES_IDS # be16 (of_nat (3 + 4 + 2 * (length x + 1))) @
      be32 (u_id b) @ x @ [0]) @ replicate (length x + 1) None"
    by (simp add: reply_mem_def on ids encode_ids_def algebra_simps)
  moreover have "\<forall>y \<in> set [x, x]. name_ok y \<and> length y + 1 \<le> e_char_block env" using data by simp
  moreover have "8 + 5 * length (csv [x, x]) < 2 ^ 16" using data(3) by simp
  ultimately show ?thesis
    using addBuddies_run[OF inv se usr(1) _ data(1), of env] usr(2) by (simp add: on)
qed

theorem addBuddies_duplicate_witness:
  "\<exists>h'. addBuddies env0 (pkg_of ADD_BUDDIES (csv [[66], [66]])) 0 hub_two = Inr h' \<and>
     last (sk_out (the (socks h' 0))) = None"
proof -
  have n: "name_ok [66]" by (simp add: name_ok_def COMMA_def)
  then have d: "getDataStr (pkg_of ADD_BUDDIES (csv [[66], [66]])) = Inr (csv [[66], [66]])"
    by (intro getDataStr_pkg_of csv_no_nul) simp
  show ?thesis
    using addBuddies_duplicate[OF reg_inv_two _ _ _ _ _ _ d n, of 0 "session_one\<lparr>se_user := Some 1\<rparr>" 1 sock_one
        "setToken (setSockPtr (newUser 1 [65]) (Some 0)) 77" env0 2 "newUser 2 [66]"]
    by (auto simp: user_setters newUser_def env0_def)
qed

text \<open>
  C32: how both buddy commands read their list. For names without commas and NULs, joined by
  commas, the loops run their bodies on exactly those names, in order. \<open>addBuddies\<close> does not
  skip an empty name: the comma that ends it becomes the first character of the next name
  (\<open>",x"\<close> adds the name \<open>",x"\<close>), while \<open>removeBuddies\<close> reads an empty name and then \<open>x\<close>.
\<close>

theorem nick_list_parsing:
  assumes "names \<noteq> []" "\<forall>x \<in> set names. name_ok x" "name_ok x"
  shows "nick_loop skip body (csv names) (csv names @ [0]) 0 0 st = foldF body names st \<and>
    nick_loop True body (COMMA # x) (COMMA # x @ [0]) 0 0 st = body (COMMA # x) st \<and>
    nick_loop False body (COMMA # x) (COMMA # x @ [0]) 0 0 st = bindF (body [] st) (body x)"
proof -
  have x: "x \<noteq> []" "COMMA \<notin> set x" "0 \<notin> set x" using assms(3) by (auto simp: name_ok_def)
  have c: "COMMA \<noteq> 0" by (simp add: COMMA_def)
  have t: "tokens True [] (COMMA # x) = [COMMA # x]" "tokens False [] (COMMA # x) = [[], x]"
    using x by (simp_all add: tokens_name)
  have one: "foldF body [y] = body y" for y by (rule ext) simp
  have "nick_loop sk body (COMMA # x) (COMMA # x @ [0]) 0 0 st = foldF body (tokens sk [] (COMMA # x)) st" for sk
    using nick_loop_tokens[of "COMMA # x" sk body st] x(3) c by (simp del: nick_loop.simps tokens.simps)
  then show ?thesis
    using nick_loop_tokens[of "csv names" skip body st] tokens_csv[OF assms(1,2)] csv_no_nul[OF assms(2)]
    by (simp add: t one del: nick_loop.simps tokens.simps)
qed

theorem nick_list_parsing_witness:
  "nick_loop True (\<lambda>x st. Inr (st @ [x])) (csv [[66], [67]]) (csv [[66], [67]] @ [0]) 0 0 [] =
     (Inr [[66], [67]] :: cstring list res) \<and>
   nick_loop True (\<lambda>x st. Inr (st @ [x])) (COMMA # [67]) (COMMA # [67] @ [0]) 0 0 [] = (Inr [[COMMA, 67]] :: cstring list res)"
  using nick_list_parsing[of "[[66], [67]]" "[67]" True "\<lambda>x st. Inr (st @ [x])" "[]"]
  by (simp add: name_ok_def COMMA_def)

section \<open>removeBuddies\<close>

lemma removeBuddies_loop:
  assumes "users h ur = Some usr" "\<forall>x \<in> set names. length x + 1 \<le> e_char_block env"
  shows "foldF (removeBuddy env ur) names h =
    Inr (h\<lparr>users := (users h)(ur \<mapsto> usr\<lparr>u_buddies := foldl SyncHashSet_erase (u_buddies usr) names\<rparr>)\<rparr>)"
  using assms
proof (induction names arbitrary: h usr)
  case Nil
  then show ?case by (simp add: fun_upd_idem)
next
  case (Cons x names)
  have "removeBuddy env ur x h =
      Inr (h\<lparr>users := (users h)(ur \<mapsto> usr\<lparr>u_buddies := SyncHashSet_erase (u_buddies usr) x\<rparr>)\<rparr>)"
    using Cons.prems by (simp add: removeBuddy_def new_nick_def)
  moreover have "foldF (removeBuddy env ur) names
      (h\<lparr>users := (users h)(ur \<mapsto> usr\<lparr>u_buddies := SyncHashSet_erase (u_buddies usr) x\<rparr>)\<rparr>) =
    Inr (h\<lparr>users := (users h)(ur \<mapsto> usr\<lparr>u_buddies := foldl SyncHashSet_erase (u_buddies usr) (x # names)\<rparr>)\<rparr>)"
    using Cons.prems
    by (subst Cons.IH[of _ "usr\<lparr>u_buddies := SyncHashSet_erase (u_buddies usr) x\<rparr>"]) simp_all
  ultimately show ?case by (simp only: foldF.simps bindF.simps)
qed

lemma removeBuddies_run:
  assumes "sessions h s = Some se" "se_user se = Some ur" "users h ur = Some usr"
    and "getDataStr pkg = Inr (csv names)" "names \<noteq> []"
    and ok: "\<forall>x \<in> set names. name_ok x \<and> length x + 1 \<le> e_char_block env"
  shows "removeBuddies env pkg s h =
    Inr (h\<lparr>users := (users h)(ur \<mapsto> usr\<lparr>u_buddies := foldl SyncHashSet_erase (u_buddies usr) names\<rparr>)\<rparr>)"
proof -
  have "nick_loop False (removeBuddy env ur) (csv names) (csv names @ [0]) 0 0 h =
      foldF (removeBuddy env ur) names h"
    using ok assms(5) csv_no_nul[of names] tokens_csv[of names False] by (simp add: nick_loop_tokens)
  with assms removeBuddies_loop[OF assms(3), of names env] show ?thesis by (simp add: removeBuddies_def)
qed

text \<open>
  \<open>removeBuddies\<close> takes exactly the names of the list from the user's buddies and changes
  nothing else in the state, whether or not a name is a buddy or online.
\<close>

theorem removeBuddies_spec:
  assumes inv: "reg_inv h" and se: "sessions h s = Some se" "se_user se = Some ur"
    and usr: "users h ur = Some usr"
    and data: "getDataStr pkg = Inr (csv names)" "names \<noteq> []"
    and ok: "\<forall>x \<in> set names. name_ok x \<and> length x + 1 \<le> e_char_block env"
  shows "\<exists>bs. removeBuddies env pkg s h = Inr (h\<lparr>users := (users h)(ur \<mapsto> usr\<lparr>u_buddies := bs\<rparr>)\<rparr>) \<and>
      set bs = set (u_buddies usr) - set names \<and> distinct bs"
proof -
  note d = reg_inv_user(3)[OF inv usr(1)]
  show ?thesis
    using removeBuddies_run[OF se usr data ok] shs.items_foldl_erase[OF d, of names]
      shs.inv_foldl_erase[OF d, of names] by blast
qed

theorem removeBuddies_spec_witness:
  "\<exists>bs. removeBuddies env0 (pkg_of REMOVE_BUDDIES (csv [[66], [67]])) 0 hub_two =
     Inr (hub_two\<lparr>users := (users hub_two)(1 \<mapsto> (setToken (setSockPtr (newUser 1 [65]) (Some 0)) 77)\<lparr>u_buddies := bs\<rparr>)\<rparr>)"
proof -
  have n: "\<forall>x \<in> set [[66], [67]]. name_ok x \<and> length x + 1 \<le> e_char_block env0"
    by (simp add: name_ok_def COMMA_def env0_def)
  then have d: "getDataStr (pkg_of REMOVE_BUDDIES (csv [[66], [67]])) = Inr (csv [[66], [67]])"
    by (intro getDataStr_pkg_of csv_no_nul) blast
  show ?thesis
    using removeBuddies_spec[OF reg_inv_two _ _ _ d _ n, of 0 "session_one\<lparr>se_user := Some 1\<rparr>" 1] by auto
qed

text \<open>
  Adding a list of buddies and removing the same list restores the buddies the user had,
  provided none of the names was among them.
\<close>

theorem add_remove_roundtrip:
  assumes inv: "reg_inv h" and se: "sessions h s = Some se" "se_user se = Some ur"
    "socks h (se_sock se) = Some sk" "sk_tx sk = []"
    and usr: "users h ur = Some usr" "length (u_nick usr) < 512"
    and data: "getDataStr pkg = Inr (csv names)" "names \<noteq> []" "length (csv names) < 512"
    and ok: "\<forall>x \<in> set names. name_ok x \<and> length x + 1 \<le> e_char_block env"
    and disj: "set names \<inter> set (u_buddies usr) = {}"
  shows "\<exists>h' bs. bindF (addBuddies env pkg s h) (removeBuddies env pkg s) = Inr h' \<and>
    users h' = (users h)(ur \<mapsto> usr\<lparr>u_buddies := bs\<rparr>) \<and> set bs = set (u_buddies usr) \<and> distinct bs"
proof -
  let ?b = "foldl SyncHashSet_insert (u_buddies usr) names"
  let ?b' = "foldl SyncHashSet_erase ?b names"
  let ?sk = "sk\<lparr>sk_out := sk_out sk @ concat (map (\<lambda>_. map Some (uid_bytes usr)) (online h names)) @ reply_mem h names\<rparr>"
  let ?h1 = "h\<lparr>users := (users h)(ur \<mapsto> usr\<lparr>u_buddies := ?b\<rparr>), socks := (socks h)(se_sock se \<mapsto> ?sk)\<rparr>"
  let ?h2 = "?h1\<lparr>users := (users ?h1)(ur \<mapsto> usr\<lparr>u_buddies := ?b'\<rparr>)\<rparr>"
  note d = reg_inv_user(3)[OF inv usr(1)]
  note d1 = shs.inv_foldl_insert[OF d, of names]
  have b: "set ?b' = set (u_buddies usr)" "distinct ?b'"
    using shs.items_foldl_erase[OF d1, of names] shs.items_foldl_insert[OF d, of names]
      shs.inv_foldl_erase[OF d1, of names] disj by auto
  have "bindF (addBuddies env pkg s h) (removeBuddies env pkg s) = removeBuddies env pkg s ?h1"
    using addBuddies_run[OF inv se usr(1) _ data(1,2) ok] usr(2) data(3) by simp
  also have "\<dots> = Inr ?h2"
    using removeBuddies_run[OF _ se(2) _ data(1,2) ok, of ?h1 s "usr\<lparr>u_buddies := ?b\<rparr>"] se(1) by simp
  finally show ?thesis using b by (intro exI[of _ ?h2] exI[of _ ?b']) simp
qed

theorem add_remove_roundtrip_witness:
  "\<exists>h' bs. bindF (addBuddies env0 (pkg_of ADD_BUDDIES (csv [[66], [67]])) 0 hub_two)
       (removeBuddies env0 (pkg_of ADD_BUDDIES (csv [[66], [67]])) 0) = Inr h' \<and> set bs = {} \<and>
     users h' = (users hub_two)(1 \<mapsto> (setToken (setSockPtr (newUser 1 [65]) (Some 0)) 77)\<lparr>u_buddies := bs\<rparr>)"
proof -
  have n: "\<forall>x \<in> set [[66], [67]]. name_ok x \<and> length x + 1 \<le> e_char_block env0"
    by (simp add: name_ok_def COMMA_def env0_def)
  then have d: "getDataStr (pkg_of ADD_BUDDIES (csv [[66], [67]])) = Inr (csv [[66], [67]])"
    by (intro getDataStr_pkg_of csv_no_nul) blast
  show ?thesis
    using add_remove_roundtrip[OF reg_inv_two _ _ _ _ _ _ d _ _ n, of 0 "session_one\<lparr>se_user := Some 1\<rparr>" 1 sock_one
        "setToken (setSockPtr (newUser 1 [65]) (Some 0)) 77"]
    by (auto simp: user_setters newUser_def)
qed

text \<open>
  C37: the copies of the names. \<open>new char(n + 1)\<close> allocates one \<open>char\<close>, so with the storage the
  language guarantees both commands write past the block as soon as a logged-in client names
  a buddy: the first name of the list already overflows, before anything is stored or sent.
\<close>

theorem new_char_overflow:
  assumes "e_char_block env = 1" "sessions h s = Some se" "se_user se = Some ur" "users h ur = Some usr"
    and "getDataStr pkg = Inr (csv names)" "names \<noteq> []" "\<forall>x \<in> set names. name_ok x"
  shows "addBuddies env pkg s h = Inl (Undefined HeapOverflow) \<and>
    removeBuddies env pkg s h = Inl (Undefined HeapOverflow)"
proof -
  obtain x xs where x: "names = x # xs" using assms(6) by (cases names) auto
  with assms(7) have "x \<noteq> []" by (simp add: name_ok_def)
  then have n: "new_nick env x = Inl (Undefined HeapOverflow)"
    using assms(1) by (simp add: new_nick_def)
  have toks: "nick_loop sk f (csv names) (csv names @ [0]) 0 0 st = foldF f names st" for sk and f :: "cstring \<Rightarrow> 'x \<Rightarrow> 'x res" and st
    using nick_loop_tokens[of "csv names" sk f st] csv_no_nul[OF assms(7)] tokens_csv[OF assms(6,7)] by simp
  show ?thesis
    using assms(2-5) n by (simp add: addBuddies_def removeBuddies_def toks x[symmetric])
      (simp add: x addBuddy_def removeBuddy_def)
qed

theorem new_char_overflow_witness:
  "addBuddies (env0\<lparr>e_char_block := 1\<rparr>) (pkg_of ADD_BUDDIES (csv [[66]])) 0 hub_two = Inl (Undefined HeapOverflow)"
proof -
  have n: "\<forall>x \<in> set [[66]]. name_ok x" by (simp add: name_ok_def COMMA_def)
  then have d: "getDataStr (pkg_of ADD_BUDDIES (csv [[66]])) = Inr (csv [[66]])"
    by (intro getDataStr_pkg_of csv_no_nul) blast
  show ?thesis
    using new_char_overflow[OF _ _ _ _ d _ n, of "env0\<lparr>e_char_block := 1\<rparr>" hub_two 0 "session_one\<lparr>se_user := Some 1\<rparr>" 1]
    by auto
qed

end
