(* ===== verification/Command_Server.thy ===== *)
theory Command_Server
  imports Command_Spec
begin

unbundle bit_operations_syntax

text \<open>
  \<open>src/src/server/CommandServer.cpp\<close>: accepting connections, receiving and framing commands,
  flushing the send queue, closing a connection.

  The callbacks take the event reference epoll hands them; an event's \<open>ptr\<close> is its session.
  New objects get fresh references from \<open>next_ref\<close>. The data a socket will deliver is its
  script \<open>sk_rx\<close>, the connections waiting are \<open>backlog\<close>.
\<close>

section \<open>What the command handler leaves alone\<close>

text \<open>
  The part of the state that belongs to input and dispatch: descriptors, data to be received
  and addresses of the sockets; socket and buffer of the sessions; events; the receive buffer.
\<close>

definition io_view where
  "io_view h =
     ((\<lambda>r. map_option (\<lambda>sk. (sockfd sk, sk_rx sk, sk_addr sk, sk_host sk, sk_port sk)) (socks h r),
       \<lambda>s. map_option (\<lambda>se. (se_sock se, se_buf se)) (sessions h s)),
      evs h, cmd_buf h, cmd_epl h, backlog h)"

lemma io_view_cong:
  "socks h' = socks h \<Longrightarrow> sessions h' = sessions h \<Longrightarrow> evs h' = evs h \<Longrightarrow> cmd_buf h' = cmd_buf h \<Longrightarrow>
   cmd_epl h' = cmd_epl h \<Longrightarrow> backlog h' = backlog h \<Longrightarrow> io_view h' = io_view h"
  by (simp add: io_view_def)

lemma io_view_users [simp]: "io_view (h\<lparr>users := us\<rparr>) = io_view h"
  by (simp add: io_view_def)

lemma io_view_nick [simp]: "io_view (h\<lparr>nick_umap := m\<rparr>) = io_view h"
  by (simp add: io_view_def)

lemma io_view_idgen [simp]: "io_view (h\<lparr>idgen_current := c\<rparr>) = io_view h"
  by (simp add: io_view_def)

lemma io_view_rand [simp]: "io_view (h\<lparr>rand_calls := n\<rparr>) = io_view h"
  by (simp add: io_view_def)

lemma io_view_session:
  "sessions h s = Some se \<Longrightarrow> se_sock se' = se_sock se \<Longrightarrow> se_buf se' = se_buf se \<Longrightarrow>
   io_view (h\<lparr>sessions := (sessions h)(s \<mapsto> se')\<rparr>) = io_view h"
  by (auto simp: io_view_def fun_eq_iff)

lemma io_view_send:
  assumes "send s p h = Inr h'"
  shows "io_view h' = io_view h"
  using assms
proof (cases rule: sendE)
  case (sent se sk bytes n sk')
  then show ?thesis using Socket_Send_frame[OF sent(4)] by (auto simp: io_view_def fun_eq_iff)
next
  case (queued se sk bytes sk')
  then show ?thesis using Socket_Send_frame[OF queued(4)] by (auto simp: io_view_def fun_eq_iff)
qed

lemma io_view_publish:
  "sessions h s = Some se \<Longrightarrow> io_view (publish env i c nick s se h) = io_view h"
  by (auto simp: io_view_def publish_def Let_def fun_eq_iff)

lemma io_view_registerNick:
  assumes "registerNick env pkg s h = Inr h'"
  shows "io_view h' = io_view h"
  using assms
proof (cases rule: registerNickE)
  case (taken nick)
  then show ?thesis by (simp add: nick_nack_eq io_view_send)
next
  case (registered nick i c se h1 usr)
  then show ?thesis using io_view_send[OF registered(5)] io_view_send[OF registered(7)] io_view_publish
    by simp
qed

lemma io_view_addBuddy:
  assumes "addBuddy env s ur x (m, l, h) = Inr (m', l', h')"
  shows "io_view h' = io_view h"
  using assms by (cases rule: addBuddyE) (auto dest: io_view_send)

lemma io_view_addBuddies: "addBuddies env pkg s h = Inr h' \<Longrightarrow> io_view h' = io_view h"
  by (rule addBuddies_invariant[where P = "\<lambda>k. io_view k = io_view h"])
    (auto dest: io_view_addBuddy io_view_send)

lemma io_view_removeBuddies: "removeBuddies env pkg s h = Inr h' \<Longrightarrow> io_view h' = io_view h"
  by (rule removeBuddies_invariant[where P = "\<lambda>k. io_view k = io_view h"])
    (auto simp: removeBuddy_def fault_simps)

lemma io_view_handle: "handle env pkg s h = Inr h' \<Longrightarrow> io_view h' = io_view h"
  by (auto simp: handle_def fault_simps split: if_splits
      dest: io_view_registerNick io_view_addBuddies io_view_removeBuddies)

lemma io_view_eqD:
  assumes "io_view h' = io_view h"
  shows "sessions h s = Some se \<Longrightarrow> \<exists>se'. sessions h' s = Some se' \<and> se_sock se' = se_sock se \<and> se_buf se' = se_buf se"
    and "socks h r = Some sk \<Longrightarrow> \<exists>sk'. socks h' r = Some sk' \<and> sk_rx sk' = sk_rx sk \<and> sockfd sk' = sockfd sk \<and>
      sk_addr sk' = sk_addr sk \<and> sk_host sk' = sk_host sk \<and> sk_port sk' = sk_port sk"
    and "evs h' = evs h" "cmd_buf h' = cmd_buf h" "cmd_epl h' = cmd_epl h" "backlog h' = backlog h"
proof -
  from assms have f: "(\<lambda>r. map_option (\<lambda>sk. (sockfd sk, sk_rx sk, sk_addr sk, sk_host sk, sk_port sk)) (socks h' r)) =
      (\<lambda>r. map_option (\<lambda>sk. (sockfd sk, sk_rx sk, sk_addr sk, sk_host sk, sk_port sk)) (socks h r))"
    and g: "(\<lambda>s. map_option (\<lambda>se. (se_sock se, se_buf se)) (sessions h' s)) =
      (\<lambda>s. map_option (\<lambda>se. (se_sock se, se_buf se)) (sessions h s))"
    and rest: "evs h' = evs h" "cmd_buf h' = cmd_buf h" "cmd_epl h' = cmd_epl h" "backlog h' = backlog h"
    by (simp_all add: io_view_def)
  show "sessions h s = Some se \<Longrightarrow> \<exists>se'. sessions h' s = Some se' \<and> se_sock se' = se_sock se \<and> se_buf se' = se_buf se"
    using fun_cong[OF g, of s] by (auto simp: map_option_case split: option.splits)
  show "socks h r = Some sk \<Longrightarrow> \<exists>sk'. socks h' r = Some sk' \<and> sk_rx sk' = sk_rx sk \<and> sockfd sk' = sockfd sk \<and>
      sk_addr sk' = sk_addr sk \<and> sk_host sk' = sk_host sk \<and> sk_port sk' = sk_port sk"
    using fun_cong[OF f, of r] by (auto simp: map_option_case split: option.splits)
  show "evs h' = evs h" "cmd_buf h' = cmd_buf h" "cmd_epl h' = cmd_epl h" "backlog h' = backlog h"
    by (rule rest)+
qed

section \<open>Connections\<close>

definition O_NONBLOCK :: i32 where "O_NONBLOCK = 2048"

text \<open>
  One round of the loop of \<open>incomingConnection\<close>, for the connection \<open>c\<close>: the socket, the session
  and the event object get the references \<open>next_ref\<close>, \<open>next_ref + 1\<close> and \<open>next_ref + 2\<close>.
\<close>

definition acceptOne :: "(sockaddr_storage \<Rightarrow> cstring) \<Rightarrow> conn \<Rightarrow> hub \<Rightarrow> hub res" where
  "acceptOne inet_ntop c h =
     bindF (Socket_Accept inet_ntop (Inr (cn_fd c, cn_addr c))) (\<lambda>new_sock.
     bindF (addFlags (cn_getfl c) (cn_setfl c) O_NONBLOCK) (\<lambda>_.
     let r = next_ref h;
         new_session = \<lparr>se_sock = r, se_buf = CircularBuffer (CMDPKG_MAX * 2), se_user = None, se_queue = []\<rparr>;
         new_event = \<lparr>ev_fd = sockfd new_sock, ev_ptr = Some (r + 1), ev_clbk = ClientSocketClbk\<rparr> in
     bindF (addEvent (cmd_epl h) (ev_fd new_event) (r + 2) (EPOLLIN OR EPOLLOUT OR EPOLLET OR EPOLLRDHUP)) (\<lambda>ep.
     Inr (h\<lparr>socks := (socks h)(r \<mapsto> new_sock), sessions := (sessions h)(r + 1 \<mapsto> new_session),
            evs := (evs h)(r + 2 \<mapsto> new_event), next_ref := r + 3, cmd_epl := ep\<rparr>))))"

text \<open>The loop accepts until \<open>accept\<close> fails, which it does when nothing is waiting.\<close>

definition incomingConnection :: "(sockaddr_storage \<Rightarrow> cstring) \<Rightarrow> hub \<Rightarrow> hub res" where
  "incomingConnection inet_ntop h =
     foldF (\<lambda>c h. acceptOne inet_ntop c (h\<lparr>backlog := tl (backlog h)\<rparr>)) (backlog h) h"

text \<open>The event's session: \<open>(Session* ) event->ptr\<close>.\<close>

definition event_session :: "evref \<Rightarrow> hub \<Rightarrow> (EpollEvent \<times> nat \<times> Session) res" where
  "event_session ev h =
     bindF (deref (evs h) (Some ev)) (\<lambda>e.
     bindF (deref (sessions h) (ev_ptr e)) (\<lambda>se. Inr (e, the (ev_ptr e), se)))"

definition closeConnection :: "evref \<Rightarrow> hub \<Rightarrow> hub res" where
  "closeConnection ev h =
     bindF (event_session ev h) (\<lambda>(e, s, se).
     bindF (case se_user se of Some ur \<Rightarrow> quit ur h | None \<Rightarrow> Inr h) (\<lambda>h.
     bindF (removeEvent (cmd_epl h) (ev_fd e)) (\<lambda>ep.
     bindF (deref (socks h) (Some (se_sock se))) (\<lambda>sk.
     bindF (Socket_delete sk) (\<lambda>_.
     Inr (h\<lparr>cmd_epl := ep, socks := (socks h)(se_sock se := None),
            sessions := (sessions h)(s := None), evs := (evs h)(ev := None)\<rparr>))))))"

section \<open>Receiving\<close>

text \<open>What is done with the bytes \<open>bs\<close> a \<open>Recv\<close> delivered to the session \<open>s\<close>.\<close>

definition frame :: "env \<Rightarrow> nat \<Rightarrow> byte list \<Rightarrow> hub \<Rightarrow> hub res" where
  "frame env s bs h =
     bindF (deref (sessions h) (Some s)) (\<lambda>se.
     bindF (store (cmd_buf h) 0 (map Some bs)) (\<lambda>b.
     bindF (cb_add (se_buf se) (take (length bs) b)) (\<lambda>(cb, _).
     bindF (store b 0 (cb_read cb 3)) (\<lambda>b.
     bindF (toushort host_order b 1) (\<lambda>pkg_len.
     if cb_size cb \<ge> int (unat pkg_len) then
       bindF (cb_get cb (unat pkg_len)) (\<lambda>(cb, out).
       bindF (store b 0 out) (\<lambda>b.
       bindF (CmdPkg_ext b) (\<lambda>cmd.
       handle env cmd s
         (h\<lparr>cmd_buf := pk_bytes cmd, sessions := (sessions h)(s \<mapsto> se\<lparr>se_buf := cb\<rparr>)\<rparr>))))
     else Inr (h\<lparr>cmd_buf := b, sessions := (sessions h)(s \<mapsto> se\<lparr>se_buf := cb\<rparr>)\<rparr>))))))"

text \<open>How much a socket has still to deliver.\<close>

fun rx_size :: "recv_res list \<Rightarrow> nat" where
  "rx_size [] = 0"
| "rx_size (RecvErr e # r) = Suc (rx_size r)"
| "rx_size (RecvData bs # r) = Suc (length bs + rx_size r)"

definition session_rx :: "hub \<Rightarrow> nat \<Rightarrow> nat" where
  "session_rx h s = (case sessions h s of None \<Rightarrow> 0 | Some se \<Rightarrow>
     (case socks h (se_sock se) of None \<Rightarrow> 0 | Some sk \<Rightarrow> rx_size (sk_rx sk)))"

lemma Socket_Recv_smaller:
  "Socket_Recv sk n = (RecvData bs, sk') \<Longrightarrow> 0 < n \<Longrightarrow> rx_size (sk_rx sk') < rx_size (sk_rx sk)"
  by (auto simp: Socket_Recv_def split: list.splits recv_res.splits if_splits)

lemma frame_view:
  assumes "frame env s bs h = Inr h'" "sessions h s = Some se" "socks h (se_sock se) = Some sk"
  shows "\<exists>se' sk'. sessions h' s = Some se' \<and> se_sock se' = se_sock se \<and>
    socks h' (se_sock se) = Some sk' \<and> sk_rx sk' = sk_rx sk \<and> evs h' = evs h"
proof -
  obtain b cb where "h' = h\<lparr>cmd_buf := b, sessions := (sessions h)(s \<mapsto> se\<lparr>se_buf := cb\<rparr>)\<rparr> \<or>
      (\<exists>cmd. handle env cmd s (h\<lparr>cmd_buf := b, sessions := (sessions h)(s \<mapsto> se\<lparr>se_buf := cb\<rparr>)\<rparr>) = Inr h')"
    using assms(1,2) by (auto simp: frame_def fault_simps split: if_splits prod.splits)
  then have "io_view h' = io_view (h\<lparr>cmd_buf := b, sessions := (sessions h)(s \<mapsto> se\<lparr>se_buf := cb\<rparr>)\<rparr>)"
    using io_view_handle by auto
  note v = io_view_eqD[OF this]
  from v(1)[of s "se\<lparr>se_buf := cb\<rparr>"] v(2)[of "se_sock se" sk] v(3) assms(3) show ?thesis by auto
qed

text \<open>The loop of \<open>incomingData\<close>: \<open>s\<close> is the session of the event \<open>ev\<close>.\<close>

function incomingData_loop :: "env \<Rightarrow> evref \<Rightarrow> nat \<Rightarrow> hub \<Rightarrow> hub res" where
  "incomingData_loop env ev s h =
     bindF (deref (sessions h) (Some s)) (\<lambda>se.
     bindF (deref (socks h) (Some (se_sock se))) (\<lambda>sk.
     (case Socket_Recv sk CMDPKG_MAX of
        (RecvErr _, sk') \<Rightarrow> Inr (h\<lparr>socks := (socks h)(se_sock se \<mapsto> sk')\<rparr>)
      | (RecvData bs, sk') \<Rightarrow>
          let h = h\<lparr>socks := (socks h)(se_sock se \<mapsto> sk')\<rparr> in
          if bs = [] then closeConnection ev h
          else bindF (frame env s bs h) (incomingData_loop env ev s))))"
  by pat_completeness auto

termination
proof (relation "measure (\<lambda>(env, ev, s, h). session_rx h s)", goal_cases)
  case (2 env ev s h se sk r sk' bs h1 h2)
  then have se: "sessions h s = Some se" "socks h (se_sock se) = Some sk"
    and recv: "Socket_Recv sk CMDPKG_MAX = (RecvData bs, sk')"
    by (auto simp: fault_simps)
  have h1: "sessions h1 s = Some se" "socks h1 (se_sock se) = Some sk'" using 2 se by auto
  from 2 have "frame env s bs h1 = Inr h2" by simp
  from frame_view[OF this h1] obtain se2 sk2 where "sessions h2 s = Some se2" "se_sock se2 = se_sock se"
    "socks h2 (se_sock se) = Some sk2" "sk_rx sk2 = sk_rx sk'" by blast
  with se Socket_Recv_smaller[OF recv] show ?case by (simp add: session_rx_def CMDPKG_MAX_def)
qed simp

declare incomingData_loop.simps [simp del]

definition incomingData :: "env \<Rightarrow> evref \<Rightarrow> hub \<Rightarrow> hub res" where
  "incomingData env ev h =
     bindF (event_session ev h) (\<lambda>(_, s, _). incomingData_loop env ev s h)"

section \<open>Flushing the send queue\<close>

text \<open>The packages left and the socket after the loop.\<close>

fun flush_loop :: "CmdPkg list \<Rightarrow> Socket \<Rightarrow> (CmdPkg list \<times> Socket) res" where
  "flush_loop [] sk = Inr ([], sk)"
| "flush_loop (p # ps) sk =
     bindF (wire p) (\<lambda>bytes.
     (case Socket_Send sk bytes of
        (SendOk _, sk') \<Rightarrow> flush_loop ps sk'
      | (SendErr e, sk') \<Rightarrow>
          if e \<noteq> EWOULDBLOCK then Inl (Throw (SocketException e)) else Inr (p # ps, sk')))"

definition send_event :: "evref \<Rightarrow> hub \<Rightarrow> hub res" where
  "send_event ev h =
     bindF (event_session ev h) (\<lambda>(_, s, se).
     bindF (deref (socks h) (Some (se_sock se))) (\<lambda>sk.
     bindF (flush_loop (se_queue se) sk) (\<lambda>(q, sk').
     Inr (h\<lparr>socks := (socks h)(se_sock se \<mapsto> sk'), sessions := (sessions h)(s \<mapsto> se\<lparr>se_queue := q\<rparr>)\<rparr>))))"

section \<open>Callbacks and the loop\<close>

definition clientSocketClbk :: "env \<Rightarrow> evref \<Rightarrow> i32 \<Rightarrow> hub \<Rightarrow> hub res" where
  "clientSocketClbk env ev events h =
     bindF (if has_flag events EPOLLOUT then send_event ev h else Inr h) (\<lambda>h.
     if has_flag events EPOLLIN then incomingData env ev h else Inr h)"

text \<open>The callback an event carries.\<close>

definition cmd_clbk :: "(sockaddr_storage \<Rightarrow> cstring) \<Rightarrow> env \<Rightarrow> evref \<Rightarrow> i32 \<Rightarrow> hub \<Rightarrow> hub res" where
  "cmd_clbk inet_ntop env ev events h =
     bindF (deref (evs h) (Some ev)) (\<lambda>e.
     (case ev_clbk e of
        IncomingConnectionClbk \<Rightarrow> incomingConnection inet_ntop h
      | ClientSocketClbk \<Rightarrow> clientSocketClbk env ev events h
      | _ \<Rightarrow> Inr h))"

text \<open>The stop event as \<open>initStopPipe\<close> fills it: the read end of the pipe, no callback, no session.\<close>

definition stop_event :: "int \<Rightarrow> EpollEvent" where
  "stop_event fd = \<lparr>ev_fd = fd, ev_ptr = None, ev_clbk = NoClbk\<rparr>"

lemma stop_event_sel [simp]:
  "ev_fd (stop_event fd) = fd" "ev_ptr (stop_event fd) = None" "ev_clbk (stop_event fd) = NoClbk"
  by (simp_all add: stop_event_def)

text \<open>
  \<open>Epoll::loop\<close> with the members \<open>CommandServer::loop\<close> sets: the end-of-event callback is
  \<open>closeConnectionClbk\<close>, there is no timeout callback. \<open>pipes\<close> is the result of the \<open>pipe\<close> call
  when the stop pipe has to be opened again.
\<close>

definition cmd_body :: "(sockaddr_storage \<Rightarrow> cstring) \<Rightarrow> env \<Rightarrow> int + int \<Rightarrow> evref \<Rightarrow> i32 \<Rightarrow> hub \<Rightarrow> hub res" where
  "cmd_body inet_ntop env pipe =
     Epoll_body cmd_epl
       (\<lambda>ev h. bindF (deref (evs h) (Some ev)) (\<lambda>e. Inr (ev_fd e)))
       (\<lambda>ev _ h. closeConnection ev h)
       (\<lambda>h. bindF (removeEvent (cmd_epl h) (ep_stop_fd (cmd_epl h))) (\<lambda>ep.
            bindF (initStopPipe pipe ep) (\<lambda>ep.
            Inr (h\<lparr>cmd_epl := ep, evs := (evs h)(ep_stop_event ep \<mapsto> stop_event (ep_stop_fd ep))\<rparr>))))
       (cmd_clbk inet_ntop env)"

definition CommandServer_run ::
  "(sockaddr_storage \<Rightarrow> cstring) \<Rightarrow> env \<Rightarrow> int + int \<Rightarrow> wait_res list \<Rightarrow> hub \<Rightarrow> hub res" where
  "CommandServer_run inet_ntop env pipe =
     Epoll_loop cmd_epl (\<lambda>ep h. h\<lparr>cmd_epl := ep\<rparr>) None (cmd_body inet_ntop env pipe)"

text \<open>
  \<open>CommandServer::loop\<close>: bind, make non-blocking, listen, create the epoll object, register
  the listening socket, run. An \<open>EpollException\<close> of the loop is caught and the call returns
  (\<open>None\<close>: in a state the model does not keep); every other exception leaves it.
\<close>

definition CommandServer_loop ::
  "(sockaddr_storage \<Rightarrow> cstring) \<Rightarrow> env \<Rightarrow> int + int \<Rightarrow> wait_res list \<Rightarrow> int + addrinfo list \<Rightarrow>
   int + i32 \<Rightarrow> int option \<Rightarrow> int option \<Rightarrow> int option \<Rightarrow> Socket \<Rightarrow> hub \<Rightarrow> hub option res" where
  "CommandServer_loop inet_ntop env pipe ws gai getfl setfl listen_err create_err tcpSocket h =
     (case Socket_Bind gai tcpSocket of
        (Some _, _, _) \<Rightarrow> Inl (Throw (SocketException 0))
      | (None, sk, _) \<Rightarrow>
          bindF (addFlags getfl setfl O_NONBLOCK) (\<lambda>_.
          bindF (Socket_Listen listen_err) (\<lambda>_.
          bindF (Epoll_new DEFAULT_EDELTA create_err pipe (next_ref h)) (\<lambda>ep.
          let e = next_ref h + 1;
              h = h\<lparr>evs := (evs h)(next_ref h \<mapsto> stop_event (ep_stop_fd ep),
                                  e \<mapsto> \<lparr>ev_fd = sockfd sk, ev_ptr = None, ev_clbk = IncomingConnectionClbk\<rparr>),
                     next_ref := next_ref h + 2\<rparr> in
          bindF (addEvent ep (sockfd sk) e (EPOLLIN OR EPOLLET)) (\<lambda>ep.
          (case CommandServer_run inet_ntop env pipe ws (h\<lparr>cmd_epl := ep\<rparr>) of
             Inl (Throw (EpollException x)) \<Rightarrow> Inr None
           | Inl x \<Rightarrow> Inl x
           | Inr h \<Rightarrow> Inr (Some h)))))))"

text \<open>\<open>stop\<close>: the state afterwards and what closing the listening socket did.\<close>

definition CommandServer_stop :: "int option \<Rightarrow> hub \<Rightarrow> hub \<times> unit res" where
  "CommandServer_stop close_err h =
     (h\<lparr>cmd_epl := Epoll_stop (cmd_epl h)\<rparr>, Socket_Close close_err)"

end
