(* ===== verification/Command_Sessions.thy ===== *)
theory Command_Sessions
  imports Command_Server
begin

text \<open>
  The object graph of the command server: sessions, their sockets and users, and the events
  that refer to sessions. The invariant holds in every state the server reaches, so no
  callback of the command server follows a dangling pointer.
\<close>

section \<open>The invariant\<close>

text \<open>
  A session's socket is live, has its address texts set and belongs to no other session; its
  user, if it has one, is live and belongs to no other session; an event of a client refers to
  a live session, and no two events to the same one; all references are below \<open>next_ref\<close>.
\<close>

definition sess_inv :: "hub \<Rightarrow> bool" where
  "sess_inv h \<longleftrightarrow>
     (\<forall>s se. sessions h s = Some se \<longrightarrow> s < next_ref h \<and> se_sock se < next_ref h \<and>
        (\<exists>sk. socks h (se_sock se) = Some sk \<and> sk_host sk \<noteq> Indet \<and> (\<exists>t. sk_port sk = Str t)) \<and>
        (\<forall>r. se_user se = Some r \<longrightarrow> r \<in> dom (users h))) \<and>
     (\<forall>s s' se se'. sessions h s = Some se \<longrightarrow> sessions h s' = Some se' \<longrightarrow> s \<noteq> s' \<longrightarrow>
        se_sock se \<noteq> se_sock se' \<and> (se_user se = None \<or> se_user se \<noteq> se_user se')) \<and>
     (\<forall>e ev. evs h e = Some ev \<longrightarrow> e < next_ref h \<and>
        (ev_clbk ev = ClientSocketClbk \<longrightarrow> (\<exists>s. ev_ptr ev = Some s \<and> s \<in> dom (sessions h))) \<and>
        (ev_clbk ev \<noteq> ClientSocketClbk \<longrightarrow> ev_ptr ev = None)) \<and>
     (\<forall>e e' ev ev'. evs h e = Some ev \<longrightarrow> evs h e' = Some ev' \<longrightarrow> e \<noteq> e' \<longrightarrow>
        ev_ptr ev = None \<or> ev_ptr ev \<noteq> ev_ptr ev')"

lemma sess_invI:
  assumes "\<And>s se. sessions h s = Some se \<Longrightarrow> s < next_ref h \<and> se_sock se < next_ref h \<and>
        (\<exists>sk. socks h (se_sock se) = Some sk \<and> sk_host sk \<noteq> Indet \<and> (\<exists>t. sk_port sk = Str t)) \<and>
        (\<forall>r. se_user se = Some r \<longrightarrow> r \<in> dom (users h))"
    and "\<And>s s' se se'. sessions h s = Some se \<Longrightarrow> sessions h s' = Some se' \<Longrightarrow> s \<noteq> s' \<Longrightarrow>
        se_sock se \<noteq> se_sock se' \<and> (se_user se = None \<or> se_user se \<noteq> se_user se')"
    and "\<And>e ev. evs h e = Some ev \<Longrightarrow> e < next_ref h \<and>
        (ev_clbk ev = ClientSocketClbk \<longrightarrow> (\<exists>s. ev_ptr ev = Some s \<and> s \<in> dom (sessions h))) \<and>
        (ev_clbk ev \<noteq> ClientSocketClbk \<longrightarrow> ev_ptr ev = None)"
    and "\<And>e e' ev ev'. evs h e = Some ev \<Longrightarrow> evs h e' = Some ev' \<Longrightarrow> e \<noteq> e' \<Longrightarrow>
        ev_ptr ev = None \<or> ev_ptr ev \<noteq> ev_ptr ev'"
  shows "sess_inv h"
  using assms unfolding sess_inv_def by (intro conjI allI impI) blast+

lemma sess_inv_session:
  assumes "sess_inv h" "sessions h s = Some se"
  shows "s < next_ref h" "se_sock se < next_ref h"
    "\<exists>sk. socks h (se_sock se) = Some sk \<and> sk_host sk \<noteq> Indet \<and> (\<exists>t. sk_port sk = Str t)"
    "se_user se = Some r \<Longrightarrow> r \<in> dom (users h)"
  using assms unfolding sess_inv_def by blast+

lemma sess_inv_apart:
  assumes "sess_inv h" "sessions h s = Some se" "sessions h s' = Some se'" "s \<noteq> s'"
  shows "se_sock se \<noteq> se_sock se'" "se_user se = None \<or> se_user se \<noteq> se_user se'"
  using assms unfolding sess_inv_def by blast+

lemma sess_inv_event:
  assumes "sess_inv h" "evs h e = Some ev"
  shows "e < next_ref h" "ev_clbk ev = ClientSocketClbk \<Longrightarrow> \<exists>s se. ev_ptr ev = Some s \<and> sessions h s = Some se"
    "ev_clbk ev \<noteq> ClientSocketClbk \<Longrightarrow> ev_ptr ev = None"
  using assms unfolding sess_inv_def by blast+

lemma sess_inv_events_apart:
  assumes "sess_inv h" "evs h e = Some ev" "evs h e' = Some ev'" "e \<noteq> e'"
  shows "ev_ptr ev = None \<or> ev_ptr ev \<noteq> ev_ptr ev'"
  using assms unfolding sess_inv_def by blast

text \<open>The messages that name a session's socket can always be written.\<close>

lemma sess_inv_printable:
  assumes "sess_inv h" "sessions h s = Some se"
  shows "\<exists>sk t. socks h (se_sock se) = Some sk \<and> show_socket sk = Inr t"
  using sess_inv_session(3)[OF assms] by (cases "sk_host (the (socks h (se_sock se)))") (auto simp: show_socket_def show_cptr_def)

section \<open>What it depends on\<close>

definition usr_view where
  "usr_view h = (dom (users h), next_ref h, \<lambda>s. map_option se_user (sessions h s))"

lemma usr_viewD:
  assumes "usr_view h' = usr_view h"
  shows "dom (users h') = dom (users h)" "next_ref h' = next_ref h"
    "map_option se_user (sessions h' s) = map_option se_user (sessions h s)"
  using assms by (auto simp: usr_view_def dest: fun_cong)

lemma usr_view_send: "send s p h = Inr h' \<Longrightarrow> usr_view h' = usr_view h"
  by (erule sendE) (auto simp: usr_view_def fun_eq_iff)

lemma usr_view_user: "users h r = Some u \<Longrightarrow> usr_view (h\<lparr>users := (users h)(r \<mapsto> u')\<rparr>) = usr_view h"
  by (auto simp: usr_view_def insert_absorb domI)

lemma usr_view_addBuddy:
  assumes "addBuddy env s ur x (m, l, h) = Inr (m', l', h')"
  shows "usr_view h' = usr_view h"
  using assms by (cases rule: addBuddyE) (auto simp: usr_view_user dest: usr_view_send)

lemma usr_view_addBuddies: "addBuddies env pkg s h = Inr h' \<Longrightarrow> usr_view h' = usr_view h"
  by (rule addBuddies_invariant[where P = "\<lambda>k. usr_view k = usr_view h"])
    (auto dest: usr_view_addBuddy usr_view_send)

lemma usr_view_removeBuddies: "removeBuddies env pkg s h = Inr h' \<Longrightarrow> usr_view h' = usr_view h"
  by (rule removeBuddies_invariant[where P = "\<lambda>k. usr_view k = usr_view h"])
    (auto simp: removeBuddy_def fault_simps usr_view_user)

text \<open>A registration: as before, or with a fresh user in this session.\<close>

lemma usr_view_registerNick:
  assumes "registerNick env pkg s h = Inr h'"
  shows "usr_view h' = usr_view h \<or>
    (\<exists>i c nick se. sessions h s = Some se \<and> usr_view h' = usr_view (publish env i c nick s se h))"
  using assms
proof (cases rule: registerNickE)
  case (taken nick)
  then show ?thesis using usr_view_send by (simp add: nick_nack_eq)
next
  case (registered nick i c se h1 usr)
  have "usr_view (h1\<lparr>rand_calls := rand_calls h1 + 1,
      users := (users h1)(next_ref h \<mapsto> setToken usr (e_rand env (rand_calls h1)))\<rparr>) = usr_view h1"
    using usr_view_user[OF registered(6)] by (simp add: usr_view_def)
  then have "usr_view h' = usr_view (publish env i c nick s se h)"
    using usr_view_send[OF registered(7)] usr_view_send[OF registered(5)] by simp
  then show ?thesis using registered(4) by blast
qed

section \<open>Preservation\<close>

definition graph_view where
  "graph_view h = (usr_view h, evs h, \<lambda>s. map_option (\<lambda>se. (se_sock se, se_user se)) (sessions h s),
     \<lambda>r. map_option (\<lambda>sk. (sk_host sk, sk_port sk)) (socks h r))"

lemma graph_viewI:
  assumes io: "io_view h' = io_view h" and uv: "usr_view h' = usr_view h"
  shows "graph_view h' = graph_view h"
proof -
  have "map_option (\<lambda>se. (se_sock se, se_user se)) (sessions h' s) = map_option (\<lambda>se. (se_sock se, se_user se)) (sessions h s)" for s
    using io_view_eqD(1)[OF io, of s] io_view_eqD(1)[OF io[symmetric], of s] usr_viewD(3)[OF uv, of s]
    by (cases "sessions h s"; cases "sessions h' s") auto
  moreover have "map_option (\<lambda>sk. (sk_host sk, sk_port sk)) (socks h' r) = map_option (\<lambda>sk. (sk_host sk, sk_port sk)) (socks h r)" for r
    using io_view_eqD(2)[OF io, of r] io_view_eqD(2)[OF io[symmetric], of r]
    by (cases "socks h r"; cases "socks h' r") auto
  ultimately show ?thesis using uv io_view_eqD(3)[OF io] by (simp add: graph_view_def)
qed

lemma sess_inv_cong:
  assumes inv: "sess_inv h" and gv: "graph_view h' = graph_view h"
  shows "sess_inv h'"
proof -
  have uv: "usr_view h' = usr_view h" and E: "evs h' = evs h"
    and sv: "\<And>s. map_option (\<lambda>se. (se_sock se, se_user se)) (sessions h' s) = map_option (\<lambda>se. (se_sock se, se_user se)) (sessions h s)"
    and kv: "\<And>r. map_option (\<lambda>sk. (sk_host sk, sk_port sk)) (socks h' r) = map_option (\<lambda>sk. (sk_host sk, sk_port sk)) (socks h r)"
    using gv by (auto simp: graph_view_def dest: fun_cong)
  have S: "\<exists>se. sessions h s = Some se \<and> se_sock se' = se_sock se \<and> se_user se' = se_user se"
    if "sessions h' s = Some se'" for s se'
    using sv[of s] that by (cases "sessions h s") auto
  have K: "\<exists>sk. socks h' r = Some sk \<and> sk_host sk \<noteq> Indet \<and> (\<exists>t. sk_port sk = Str t)"
    if "socks h r = Some sk" "sk_host sk \<noteq> Indet" "(\<exists>t. sk_port sk = Str t)" for r sk
    using kv[of r] that by auto
  have "sessions h' s = None \<longleftrightarrow> sessions h s = None" for s
    using sv[of s] by (cases "sessions h s"; cases "sessions h' s") simp_all
  then have D: "dom (sessions h') = dom (sessions h)" by (auto simp: dom_def)
  note v = usr_viewD[OF uv] E
  show ?thesis
  proof (rule sess_invI)
    fix s se' assume "sessions h' s = Some se'"
    with S obtain se where se: "sessions h s = Some se" "se_sock se' = se_sock se" "se_user se' = se_user se" by blast
    from sess_inv_session[OF inv se(1)] K v se
    show "s < next_ref h' \<and> se_sock se' < next_ref h' \<and>
        (\<exists>sk. socks h' (se_sock se') = Some sk \<and> sk_host sk \<noteq> Indet \<and> (\<exists>t. sk_port sk = Str t)) \<and>
        (\<forall>r. se_user se' = Some r \<longrightarrow> r \<in> dom (users h'))"
      by auto
  next
    fix s t se' te' assume st: "sessions h' s = Some se'" "sessions h' t = Some te'" "s \<noteq> t"
    from S[OF st(1)] obtain se where se: "sessions h s = Some se" "se_sock se' = se_sock se" "se_user se' = se_user se" by blast
    from S[OF st(2)] obtain te where te: "sessions h t = Some te" "se_sock te' = se_sock te" "se_user te' = se_user te" by blast
    from sess_inv_apart[OF inv se(1) te(1) st(3)] se te
    show "se_sock se' \<noteq> se_sock te' \<and> (se_user se' = None \<or> se_user se' \<noteq> se_user te')" by simp
  next
    fix e ev assume "evs h' e = Some ev"
    with sess_inv_event[OF inv, of e ev] v D
    show "e < next_ref h' \<and>
        (ev_clbk ev = ClientSocketClbk \<longrightarrow> (\<exists>s. ev_ptr ev = Some s \<and> s \<in> dom (sessions h'))) \<and>
        (ev_clbk ev \<noteq> ClientSocketClbk \<longrightarrow> ev_ptr ev = None)"
      by auto
  next
    fix e e' ev ev' assume "evs h' e = Some ev" "evs h' e' = Some ev'" "e \<noteq> e'"
    with sess_inv_events_apart[OF inv, of e ev e' ev'] v show "ev_ptr ev = None \<or> ev_ptr ev \<noteq> ev_ptr ev'"
      by simp
  qed
qed

text \<open>A fresh user for one session.\<close>

lemma sess_inv_publish:
  assumes reg: "reg_inv h" and inv: "sess_inv h" and se: "sessions h s = Some se"
  shows "sess_inv (publish env i c nick s se h)"
proof -
  let ?r = "next_ref h"
  let ?h = "publish env i c nick s se h"
  have f: "sessions ?h = (sessions h)(s \<mapsto> se\<lparr>se_user := Some ?r\<rparr>)" "dom (users ?h) = insert ?r (dom (users h))"
    "next_ref ?h = ?r + 1" "evs ?h = evs h" "socks ?h = socks h"
    by (auto simp: publish_def Let_def)
  have fresh: "se_user te \<noteq> Some ?r" if "sessions h t = Some te" for t te
    using sess_inv_session(4)[OF inv that] reg_inv_user(1)[OF reg] by (metis domD less_irrefl)
  show ?thesis
  proof (rule sess_invI)
    fix t te assume t: "sessions ?h t = Some te"
    show "t < next_ref ?h \<and> se_sock te < next_ref ?h \<and>
        (\<exists>sk. socks ?h (se_sock te) = Some sk \<and> sk_host sk \<noteq> Indet \<and> (\<exists>t. sk_port sk = Str t)) \<and>
        (\<forall>r. se_user te = Some r \<longrightarrow> r \<in> dom (users ?h))"
      using sess_inv_session[OF inv, of t] se t unfolding f
      by (cases "t = s") (auto simp: less_Suc_eq)
  next
    fix t t' te te' assume "sessions ?h t = Some te" "sessions ?h t' = Some te'" "t \<noteq> t'"
    then show "se_sock te \<noteq> se_sock te' \<and> (se_user te = None \<or> se_user te \<noteq> se_user te')"
      using sess_inv_apart[OF inv, of t _ t'] se fresh[of t te] fresh[of t' te'] unfolding f
      by (cases "t = s"; cases "t' = s") auto
  next
    fix e ev assume "evs ?h e = Some ev"
    then show "e < next_ref ?h \<and>
        (ev_clbk ev = ClientSocketClbk \<longrightarrow> (\<exists>s. ev_ptr ev = Some s \<and> s \<in> dom (sessions ?h))) \<and>
        (ev_clbk ev \<noteq> ClientSocketClbk \<longrightarrow> ev_ptr ev = None)"
      using sess_inv_event[OF inv, of e ev] unfolding f by auto
  next
    fix e e' ev ev' assume "evs ?h e = Some ev" "evs ?h e' = Some ev'" "e \<noteq> e'"
    then show "ev_ptr ev = None \<or> ev_ptr ev \<noteq> ev_ptr ev'"
      using sess_inv_events_apart[OF inv] unfolding f by blast
  qed
qed

lemma sess_inv_handle:
  assumes reg: "reg_inv h" and inv: "sess_inv h" and run: "handle env pkg s h = Inr h'"
  shows "sess_inv h'"
proof -
  have io: "io_view h' = io_view h" using run by (rule io_view_handle)
  have "usr_view h' = usr_view h \<or>
      (\<exists>i c nick se. sessions h s = Some se \<and> usr_view h' = usr_view (publish env i c nick s se h))"
    using run by (auto simp: handle_def fault_simps split: if_splits
        dest: usr_view_registerNick usr_view_addBuddies usr_view_removeBuddies)
  then show ?thesis
    using sess_inv_cong[OF inv graph_viewI[OF io]] io io_view_publish
      sess_inv_cong[OF sess_inv_publish[OF reg inv] graph_viewI]
    by metis
qed

section \<open>Connections\<close>

definition srv_inv :: "hub \<Rightarrow> bool" where
  "srv_inv h \<longleftrightarrow> reg_inv h \<and> sess_inv h"

text \<open>A connection of one of the two families the code knows.\<close>

definition inet_conn :: "conn \<Rightarrow> bool" where
  "inet_conn c \<longleftrightarrow> ss_family (cn_addr c) = AF_INET \<or> ss_family (cn_addr c) = AF_INET6"

lemma acceptOneE:
  assumes "acceptOne ntop c h = Inr h'" "inet_conn c"
  obtains sk ep where "sk_host sk \<noteq> Indet" "(\<exists>t. sk_port sk = Str t)" "sockfd sk = cn_fd c" "sk_addr sk \<noteq> None"
    "h' = h\<lparr>socks := (socks h)(next_ref h \<mapsto> sk),
      sessions := (sessions h)(next_ref h + 1 \<mapsto> \<lparr>se_sock = next_ref h, se_buf = CircularBuffer (CMDPKG_MAX * 2),
        se_user = None, se_queue = []\<rparr>),
      evs := (evs h)(next_ref h + 2 \<mapsto> \<lparr>ev_fd = cn_fd c, ev_ptr = Some (next_ref h + 1), ev_clbk = ClientSocketClbk\<rparr>),
      next_ref := next_ref h + 3, cmd_epl := ep\<rparr>"
proof -
  obtain sk where sk: "Socket_Accept ntop (Inr (cn_fd c, cn_addr c)) = Inr sk"
    using assms(1) by (auto simp: acceptOne_def)
  then have a: "sk_host sk \<noteq> Indet" "(\<exists>t. sk_port sk = Str t)" "sockfd sk = cn_fd c" "sk_addr sk \<noteq> None"
    using assms(2) by (auto simp: Socket_Accept_def inet_conn_def Let_def fault_simps Socket_fd_def)
  from assms(1) sk a obtain ep where "h' = h\<lparr>socks := (socks h)(next_ref h \<mapsto> sk),
      sessions := (sessions h)(next_ref h + 1 \<mapsto> \<lparr>se_sock = next_ref h, se_buf = CircularBuffer (CMDPKG_MAX * 2),
        se_user = None, se_queue = []\<rparr>),
      evs := (evs h)(next_ref h + 2 \<mapsto> \<lparr>ev_fd = cn_fd c, ev_ptr = Some (next_ref h + 1), ev_clbk = ClientSocketClbk\<rparr>),
      next_ref := next_ref h + 3, cmd_epl := ep\<rparr>"
    by (auto simp: acceptOne_def Let_def fault_simps)
  with a show thesis by (rule that)
qed

lemma srv_inv_acceptOne:
  assumes inv: "srv_inv h" and run: "acceptOne ntop c h = Inr h'" and c: "inet_conn c"
  shows "srv_inv h'"
proof -
  from inv have reg: "reg_inv h" and s: "sess_inv h" by (auto simp: srv_inv_def)
  obtain sk ep where sk: "sk_host sk \<noteq> Indet" "(\<exists>t. sk_port sk = Str t)"
    and h': "h' = h\<lparr>socks := (socks h)(next_ref h \<mapsto> sk),
      sessions := (sessions h)(next_ref h + 1 \<mapsto> \<lparr>se_sock = next_ref h, se_buf = CircularBuffer (CMDPKG_MAX * 2),
        se_user = None, se_queue = []\<rparr>),
      evs := (evs h)(next_ref h + 2 \<mapsto> \<lparr>ev_fd = cn_fd c, ev_ptr = Some (next_ref h + 1), ev_clbk = ClientSocketClbk\<rparr>),
      next_ref := next_ref h + 3, cmd_epl := ep\<rparr>"
    using run c by (rule acceptOneE)
  have "reg_inv h'" using reg by (rule reg_inv_cong[rotated -1]) (simp_all add: h')
  moreover have "sess_inv h'"
  proof (rule sess_invI)
    fix t te assume t: "sessions h' t = Some te"
    show "t < next_ref h' \<and> se_sock te < next_ref h' \<and>
        (\<exists>sk. socks h' (se_sock te) = Some sk \<and> sk_host sk \<noteq> Indet \<and> (\<exists>t. sk_port sk = Str t)) \<and>
        (\<forall>r. se_user te = Some r \<longrightarrow> r \<in> dom (users h'))"
      using sess_inv_session[OF s, of t te] t sk unfolding h' by (auto split: if_splits)
  next
    fix t t' te te' assume "sessions h' t = Some te" "sessions h' t' = Some te'" "t \<noteq> t'"
    then show "se_sock te \<noteq> se_sock te' \<and> (se_user te = None \<or> se_user te \<noteq> se_user te')"
      using sess_inv_apart[OF s, of t te t' te'] sess_inv_session(2)[OF s, of t te] sess_inv_session(2)[OF s, of t' te']
      unfolding h' by (auto split: if_splits)
  next
    fix e ev assume "evs h' e = Some ev"
    then show "e < next_ref h' \<and>
        (ev_clbk ev = ClientSocketClbk \<longrightarrow> (\<exists>s. ev_ptr ev = Some s \<and> s \<in> dom (sessions h'))) \<and>
        (ev_clbk ev \<noteq> ClientSocketClbk \<longrightarrow> ev_ptr ev = None)"
      using sess_inv_event[OF s, of e ev] unfolding h' by (auto split: if_splits)
  next
    have old: "ev_ptr ev \<noteq> Some (next_ref h + 1)" if "evs h e = Some ev" for e ev
      using sess_inv_event[OF s that] sess_inv_session(1)[OF s] by fastforce
    fix e e' ev ev' assume "evs h' e = Some ev" "evs h' e' = Some ev'" "e \<noteq> e'"
    then show "ev_ptr ev = None \<or> ev_ptr ev \<noteq> ev_ptr ev'"
      using sess_inv_events_apart[OF s, of e ev e' ev'] old[of e ev] old[of e' ev']
      unfolding h' by (auto split: if_splits)
  qed
  ultimately show ?thesis by (simp add: srv_inv_def)
qed

lemma srv_inv_incomingConnection:
  assumes "srv_inv h" "incomingConnection ntop h = Inr h'" "\<forall>c \<in> set (backlog h). inet_conn c"
  shows "srv_inv h'"
proof -
  have "srv_inv k'" if "c \<in> set (backlog h)" "srv_inv k" "acceptOne ntop c (k\<lparr>backlog := tl (backlog k)\<rparr>) = Inr k'" for c k k'
  proof -
    have "srv_inv (k\<lparr>backlog := tl (backlog k)\<rparr>)"
      using that(2) unfolding srv_inv_def reg_inv_def sess_inv_def by simp
    from srv_inv_acceptOne[OF this that(3)] assms(3) that(1) show ?thesis by blast
  qed
  then show ?thesis using foldF_invariant[OF assms(2)[unfolded incomingConnection_def], of srv_inv] assms(1) by blast
qed

section \<open>Closing a connection\<close>

text \<open>What \<open>closeConnection\<close> does to the object graph when its event and session are live.\<close>

definition closed :: "evref \<Rightarrow> nat \<Rightarrow> Session \<Rightarrow> Epoll \<Rightarrow> hub \<Rightarrow> hub" where
  "closed e s se ep h =
     (let h = (case se_user se of None \<Rightarrow> h | Some ur \<Rightarrow> (case users h ur of None \<Rightarrow> h | Some u \<Rightarrow>
        h\<lparr>id_umap := (id_umap h)(u_id u := None), nick_umap := (nick_umap h)(u_nick u := None),
          users := (users h)(ur := None)\<rparr>)) in
      h\<lparr>cmd_epl := ep, socks := (socks h)(se_sock se := None),
        sessions := (sessions h)(s := None), evs := (evs h)(e := None)\<rparr>)"

lemma closeConnection_eq:
  assumes inv: "srv_inv h" and ev: "evs h e = Some ev" "ev_clbk ev = ClientSocketClbk"
  obtains s se where "ev_ptr ev = Some s" "sessions h s = Some se"
    "closeConnection e h = bindF (removeEvent (cmd_epl h) (ev_fd ev)) (\<lambda>ep. Inr (closed e s se ep h))"
proof -
  from inv have si: "sess_inv h" by (simp add: srv_inv_def)
  obtain s se where s: "ev_ptr ev = Some s" "sessions h s = Some se" using sess_inv_event(2)[OF si ev] by blast
  obtain sk where sk: "socks h (se_sock se) = Some sk" "sk_host sk \<noteq> Indet" "(\<exists>t. sk_port sk = Str t)"
    using sess_inv_session(3)[OF si s(2)] by blast
  have del: "Socket_delete sk = Inr ()" using sk by (auto simp: Socket_delete_def)
  have "closeConnection e h = bindF (removeEvent (cmd_epl h) (ev_fd ev)) (\<lambda>ep. Inr (closed e s se ep h))"
  proof (cases "se_user se")
    case None
    with ev s sk del show ?thesis by (simp add: closeConnection_def event_session_def closed_def Let_def)
  next
    case (Some ur)
    then obtain u where "users h ur = Some u" using sess_inv_session(4)[OF si s(2)] by blast
    with Some ev s sk del show ?thesis
      by (simp add: closeConnection_def event_session_def closed_def Let_def quit_eq)
  qed
  with s show thesis by (rule that)
qed

lemma closed_sel:
  "sessions (closed e s se ep h) = (sessions h)(s := None)" "socks (closed e s se ep h) = (socks h)(se_sock se := None)"
  "evs (closed e s se ep h) = (evs h)(e := None)" "next_ref (closed e s se ep h) = next_ref h"
  "dom (users (closed e s se ep h)) = dom (users h) - (case se_user se of None \<Rightarrow> {} | Some ur \<Rightarrow> {ur})"
  by (auto simp: closed_def Let_def split: option.splits)

lemma reg_inv_closed:
  assumes "reg_inv h"
  shows "reg_inv (closed e s se ep h)"
proof (cases "\<exists>ur u. se_user se = Some ur \<and> users h ur = Some u")
  case True
  then obtain ur u where u: "se_user se = Some ur" "users h ur = Some u" by blast
  then show ?thesis by (intro reg_inv_unregister[OF assms u(2)]) (simp_all add: closed_def)
next
  case False
  then have "users (closed e s se ep h) = users h" "nick_umap (closed e s se ep h) = nick_umap h"
    "id_umap (closed e s se ep h) = id_umap h"
    by (auto simp: closed_def Let_def split: option.splits)
  then show ?thesis using assms by (intro reg_inv_cong[OF _ _ _ _ assms]) (simp_all add: closed_sel)
qed

lemma srv_inv_closed:
  assumes inv: "srv_inv h" and ev: "evs h e = Some ev" "ev_ptr ev = Some s" and se: "sessions h s = Some se"
  shows "srv_inv (closed e s se ep h)"
proof -
  from inv have reg: "reg_inv h" and si: "sess_inv h" by (auto simp: srv_inv_def)
  let ?h = "closed e s se ep h"
  have "sess_inv ?h"
  proof (rule sess_invI)
    fix t te assume "sessions ?h t = Some te"
    then have t: "sessions h t = Some te" "t \<noteq> s" by (auto simp: closed_sel split: if_splits)
    from sess_inv_session[OF si t(1)] sess_inv_apart[OF si se t(1)] t(2)
    show "t < next_ref ?h \<and> se_sock te < next_ref ?h \<and>
        (\<exists>sk. socks ?h (se_sock te) = Some sk \<and> sk_host sk \<noteq> Indet \<and> (\<exists>t. sk_port sk = Str t)) \<and>
        (\<forall>r. se_user te = Some r \<longrightarrow> r \<in> dom (users ?h))"
      unfolding closed_sel by (auto split: option.splits)
  next
    fix t t' te te' assume "sessions ?h t = Some te" "sessions ?h t' = Some te'" "t \<noteq> t'"
    then show "se_sock te \<noteq> se_sock te' \<and> (se_user te = None \<or> se_user te \<noteq> se_user te')"
      using sess_inv_apart[OF si, of t te t' te'] unfolding closed_sel by (auto split: if_splits)
  next
    fix f fv assume "evs ?h f = Some fv"
    then have f: "evs h f = Some fv" "f \<noteq> e" by (auto simp: closed_sel split: if_splits)
    from sess_inv_event[OF si f(1)] sess_inv_events_apart[OF si ev(1) f(1)] f(2) ev(2)
    show "f < next_ref ?h \<and>
        (ev_clbk fv = ClientSocketClbk \<longrightarrow> (\<exists>s. ev_ptr fv = Some s \<and> s \<in> dom (sessions ?h))) \<and>
        (ev_clbk fv \<noteq> ClientSocketClbk \<longrightarrow> ev_ptr fv = None)"
      unfolding closed_sel by auto
  next
    fix f f' fv fv' assume "evs ?h f = Some fv" "evs ?h f' = Some fv'" "f \<noteq> f'"
    then show "ev_ptr fv = None \<or> ev_ptr fv \<noteq> ev_ptr fv'"
      using sess_inv_events_apart[OF si, of f fv f' fv'] unfolding closed_sel by (auto split: if_splits)
  qed
  with reg_inv_closed[OF reg] show ?thesis by (simp add: srv_inv_def)
qed

lemma srv_inv_closeConnection:
  assumes inv: "srv_inv h" and ev: "evs h e = Some ev" "ev_clbk ev = ClientSocketClbk"
    and run: "closeConnection e h = Inr h'"
  shows "srv_inv h'"
proof -
  obtain s se where s: "ev_ptr ev = Some s" "sessions h s = Some se" and
    "closeConnection e h = bindF (removeEvent (cmd_epl h) (ev_fd ev)) (\<lambda>ep. Inr (closed e s se ep h))"
    using inv ev by (rule closeConnection_eq)
  with run obtain ep where "h' = closed e s se ep h" by (auto simp: fault_simps)
  with srv_inv_closed[OF inv ev(1) s] show ?thesis by simp
qed

section \<open>Data\<close>

lemma srv_inv_cong:
  assumes "srv_inv h" "graph_view h' = graph_view h" "users h' = users h" "id_umap h' = id_umap h"
    "nick_umap h' = nick_umap h"
  shows "srv_inv h'"
proof -
  have "next_ref h' = next_ref h" using assms(2) by (simp add: graph_view_def usr_view_def)
  with assms sess_inv_cong[of h h'] reg_inv_cong[of h' h] show ?thesis by (simp add: srv_inv_def)
qed

text \<open>New contents of a session's buffer and queue, or of a socket's scripts.\<close>

lemma srv_inv_session_upd:
  assumes "srv_inv h" "sessions h s = Some se" "se_sock se' = se_sock se" "se_user se' = se_user se"
  shows "srv_inv (h\<lparr>cmd_buf := b, sessions := (sessions h)(s \<mapsto> se')\<rparr>)"
    and "srv_inv (h\<lparr>sessions := (sessions h)(s \<mapsto> se')\<rparr>)"
  using assms by (auto intro!: srv_inv_cong[OF assms(1)] simp: graph_view_def usr_view_def fun_eq_iff)

lemma srv_inv_sock_upd:
  assumes "srv_inv h" "socks h r = Some sk" "sk_host sk' = sk_host sk" "sk_port sk' = sk_port sk"
  shows "srv_inv (h\<lparr>socks := (socks h)(r \<mapsto> sk')\<rparr>)"
  using assms by (auto intro!: srv_inv_cong[OF assms(1)] simp: graph_view_def usr_view_def fun_eq_iff)

lemma srv_inv_handle: "srv_inv h \<Longrightarrow> handle env pkg s h = Inr h' \<Longrightarrow> srv_inv h'"
  unfolding srv_inv_def using reg_inv_handle sess_inv_handle by blast

lemma frameE:
  assumes "frame env s bs h = Inr h'"
  obtains (waiting) se b cb where "sessions h s = Some se"
      "h' = h\<lparr>cmd_buf := b, sessions := (sessions h)(s \<mapsto> se\<lparr>se_buf := cb\<rparr>)\<rparr>"
    | (handled) se cmd cb where "sessions h s = Some se"
      "handle env cmd s (h\<lparr>cmd_buf := pk_bytes cmd, sessions := (sessions h)(s \<mapsto> se\<lparr>se_buf := cb\<rparr>)\<rparr>) = Inr h'"
proof -
  obtain se where se: "sessions h s = Some se" using assms by (auto simp: frame_def fault_simps)
  then have "(\<exists>b cb. h' = h\<lparr>cmd_buf := b, sessions := (sessions h)(s \<mapsto> se\<lparr>se_buf := cb\<rparr>)\<rparr>) \<or>
    (\<exists>cmd cb. handle env cmd s (h\<lparr>cmd_buf := pk_bytes cmd, sessions := (sessions h)(s \<mapsto> se\<lparr>se_buf := cb\<rparr>)\<rparr>) = Inr h')"
    using assms by (auto simp: frame_def fault_simps split: if_splits prod.splits)
  then show thesis using waiting[OF se] handled[OF se] by blast
qed

lemma srv_inv_frame:
  assumes "srv_inv h" "frame env s bs h = Inr h'"
  shows "srv_inv h'"
  using assms(2)
proof (cases rule: frameE)
  case (waiting se b cb)
  with srv_inv_session_upd(1)[OF assms(1) waiting(1), of "se\<lparr>se_buf := cb\<rparr>"] show ?thesis by simp
next
  case (handled se cmd cb)
  then show ?thesis
    using srv_inv_handle[OF srv_inv_session_upd(1)[OF assms(1) handled(1), of "se\<lparr>se_buf := cb\<rparr>" "pk_bytes cmd"]] by simp
qed

lemma evs_frame: "frame env s bs h = Inr h' \<Longrightarrow> evs h' = evs h"
  by (erule frameE) (simp_all add: io_view_eqD(3)[OF io_view_handle])

text \<open>What identifies a connection's peer; sending and receiving leave it alone.\<close>

definition sock_name :: "Socket \<Rightarrow> cptr \<times> cptr \<times> sockaddr_storage option" where
  "sock_name sk = (sk_host sk, sk_port sk, sk_addr sk)"

lemma sock_name_upd [simp]: "sock_name (sk\<lparr>sk_rx := a\<rparr>) = sock_name sk" "sock_name (sk\<lparr>sk_tx := b\<rparr>) = sock_name sk"
  by (simp_all add: sock_name_def)

lemma sock_name_Recv: "Socket_Recv sk n = (r, sk') \<Longrightarrow> sock_name sk' = sock_name sk"
  by (auto simp: Socket_Recv_def sock_name_def split: list.splits recv_res.splits if_splits)

lemma sock_name_Send: "Socket_Send sk bs = (r, sk') \<Longrightarrow> sock_name sk' = sock_name sk"
  by (auto simp: sock_name_def dest: Socket_Send_frame)

text \<open>
  What the receive loop keeps: \<open>P\<close> while the connection is open, \<open>Q\<close> at the end. It is enough that
  taking data from a socket and handling a fragment keep \<open>P\<close>, and that closing gives \<open>Q\<close>.
\<close>

lemma incomingData_loop_keeps:
  assumes "incomingData_loop env e s h = Inr h'" "P h"
    and sock: "\<And>h r sk sk'. P h \<Longrightarrow> socks h r = Some sk \<Longrightarrow> sock_name sk' = sock_name sk \<Longrightarrow> P (h\<lparr>socks := (socks h)(r \<mapsto> sk')\<rparr>)"
    and frag: "\<And>h bs h'. P h \<Longrightarrow> frame env s bs h = Inr h' \<Longrightarrow> P h'"
    and close: "\<And>h h'. P h \<Longrightarrow> closeConnection e h = Inr h' \<Longrightarrow> Q h'" and fin: "\<And>h. P h \<Longrightarrow> Q h"
  shows "Q h'"
  using assms(1,2) frag close
proof (induction env e s h rule: incomingData_loop.induct)
  case (1 env e s h)
  obtain se sk where se: "sessions h s = Some se" "socks h (se_sock se) = Some sk"
    using "1.prems"(1) by (subst (asm) incomingData_loop.simps) (auto simp: fault_simps)
  obtain r sk' where r: "Socket_Recv sk CMDPKG_MAX = (r, sk')" by fastforce
  let ?h = "h\<lparr>socks := (socks h)(se_sock se \<mapsto> sk')\<rparr>"
  have P: "P ?h" using sock[OF "1.prems"(2) se(2) sock_name_Recv[OF r]] .
  have run: "(case r of RecvErr _ \<Rightarrow> Inr ?h | RecvData bs \<Rightarrow>
      if bs = [] then closeConnection e ?h else bindF (frame env s bs ?h) (incomingData_loop env e s)) = Inr h'"
    using "1.prems"(1) se r by (subst (asm) incomingData_loop.simps) (cases r; simp add: Let_def)
  show ?case
  proof (cases r)
    case (RecvErr x)
    with run fin[OF P] show ?thesis by simp
  next
    case (RecvData bs)
    show ?thesis
    proof (cases "bs = []")
      case True
      with run RecvData have "closeConnection e ?h = Inr h'" by simp
      with P show ?thesis by (rule "1.prems"(4))
    next
      case False
      with run RecvData obtain h2 where f: "frame env s bs ?h = Inr h2" "incomingData_loop env e s h2 = Inr h'"
        by (auto simp: fault_simps)
      show ?thesis
        using "1.IH"[OF _ _ r[symmetric] RecvData refl False f(1) f(2) "1.prems"(3)[OF P f(1)] "1.prems"(3,4)] se by simp
    qed
  qed
qed

lemma srv_inv_incomingData_loop:
  assumes "srv_inv h" "incomingData_loop env e s h = Inr h'" "evs h e = Some ev" "ev_clbk ev = ClientSocketClbk"
  shows "srv_inv h'"
proof (rule incomingData_loop_keeps[OF assms(2), where P = "\<lambda>h. srv_inv h \<and> evs h e = Some ev"])
  show "srv_inv h \<and> evs h e = Some ev" using assms by simp
  show "srv_inv (h\<lparr>socks := (socks h)(r \<mapsto> sk')\<rparr>) \<and> evs (h\<lparr>socks := (socks h)(r \<mapsto> sk')\<rparr>) e = Some ev"
    if "srv_inv h \<and> evs h e = Some ev" "socks h r = Some sk" "sock_name sk' = sock_name sk" for h r sk sk'
    using that srv_inv_sock_upd[of h r sk sk'] by (simp add: sock_name_def)
  show "srv_inv h' \<and> evs h' e = Some ev" if "srv_inv h \<and> evs h e = Some ev" "frame env s bs h = Inr h'" for h bs h'
    using that srv_inv_frame[of h env s bs h'] evs_frame[OF that(2)] by simp
  show "srv_inv h'" if "srv_inv h \<and> evs h e = Some ev" "closeConnection e h = Inr h'" for h h'
    using that srv_inv_closeConnection[of h e ev h'] assms(4) by simp
qed simp

lemma sock_name_flush_loop: "flush_loop q sk = Inr (q', sk') \<Longrightarrow> sock_name sk' = sock_name sk"
proof (induction q arbitrary: sk)
  case (Cons p q)
  obtain bs where w: "wire p = Inr bs" using Cons.prems by (auto simp: fault_simps)
  obtain r sk1 where r: "Socket_Send sk bs = (r, sk1)" by fastforce
  from Cons.prems w r Cons.IH[of sk1] sock_name_Send[OF r] show ?case
    by (cases r) (auto split: if_splits)
qed simp

lemma srv_inv_send_event:
  assumes inv: "srv_inv h" and run: "send_event e h = Inr h'"
  shows "srv_inv h' \<and> evs h' = evs h"
proof -
  obtain s se sk q sk' where se: "sessions h s = Some se" "socks h (se_sock se) = Some sk"
    and fl: "flush_loop (se_queue se) sk = Inr (q, sk')"
    and h': "h' = h\<lparr>socks := (socks h)(se_sock se \<mapsto> sk'), sessions := (sessions h)(s \<mapsto> se\<lparr>se_queue := q\<rparr>)\<rparr>"
    using run by (auto simp: send_event_def event_session_def fault_simps)
  have "srv_inv (h\<lparr>socks := (socks h)(se_sock se \<mapsto> sk')\<rparr>)"
    using srv_inv_sock_upd[OF inv se(2)] sock_name_flush_loop[OF fl] by (simp add: sock_name_def)
  from srv_inv_session_upd(2)[OF this, of s se "se\<lparr>se_queue := q\<rparr>"] se(1) h' show ?thesis by simp
qed

lemma srv_inv_clientSocketClbk:
  assumes inv: "srv_inv h" and ev: "evs h e = Some ev" "ev_clbk ev = ClientSocketClbk"
    and run: "clientSocketClbk env e fl h = Inr h'"
  shows "srv_inv h'"
proof -
  obtain h1 where h1: "(if has_flag fl EPOLLOUT then send_event e h else Inr h) = Inr h1"
    and h': "(if has_flag fl EPOLLIN then incomingData env e h1 else Inr h1) = Inr h'"
    using run by (auto simp: clientSocketClbk_def fault_simps)
  have inv1: "srv_inv h1" "evs h1 e = Some ev"
    using h1 inv ev(1) srv_inv_send_event[OF inv, of e h1] by (auto split: if_splits)
  show ?thesis
  proof (cases "has_flag fl EPOLLIN")
    case True
    then obtain s where "incomingData_loop env e s h1 = Inr h'"
      using h' by (auto simp: incomingData_def fault_simps)
    then show ?thesis by (rule srv_inv_incomingData_loop[OF inv1(1) _ inv1(2) ev(2)])
  next
    case False
    with h' inv1 show ?thesis by simp
  qed
qed

section \<open>Reachable states\<close>

text \<open>
  What can happen to the command server between two waits: its callbacks, run on events that
\<close>

inductive cmd_step :: "(sockaddr_storage \<Rightarrow> cstring) \<Rightarrow> env \<Rightarrow> hub \<Rightarrow> hub \<Rightarrow> bool" for ntop env where
  accept: "evs h e = Some ev \<Longrightarrow> ev_clbk ev = IncomingConnectionClbk \<Longrightarrow> cmd_clbk ntop env e fl h = Inr h' \<Longrightarrow>
     cmd_step ntop env h h'"
| client: "evs h e = Some ev \<Longrightarrow> ev_clbk ev = ClientSocketClbk \<Longrightarrow> cmd_clbk ntop env e fl h = Inr h' \<Longrightarrow>
     cmd_step ntop env h h'"
| close: "evs h e = Some ev \<Longrightarrow> ev_clbk ev = ClientSocketClbk \<Longrightarrow> closeConnection e h = Inr h' \<Longrightarrow>
     cmd_step ntop env h h'"
| request: "inet_conn c \<Longrightarrow> cmd_step ntop env h (h\<lparr>backlog := backlog h @ [c]\<rparr>)"
| network: "socks h r = Some sk \<Longrightarrow>
     cmd_step ntop env h (h\<lparr>socks := (socks h)(r \<mapsto> sk\<lparr>sk_rx := sk_rx sk @ rx, sk_tx := tx\<rparr>)\<rparr>)"
| wait: "cmd_step ntop env h (h\<lparr>cmd_epl := ep\<rparr>)"
| restart: "evs h e = Some ev \<Longrightarrow> ev_clbk ev = NoClbk \<Longrightarrow>
     cmd_step ntop env h (h\<lparr>cmd_epl := ep, evs := (evs h)(e \<mapsto> stop_event fd)\<rparr>)"

text \<open>The server after start-up: only the events of the stop pipe and of the listening socket exist.\<close>

definition hub_listening :: "Epoll \<Rightarrow> int \<Rightarrow> hub" where
  "hub_listening ep fd = (hub_start ep)\<lparr>
     evs := Map.empty(0 \<mapsto> stop_event (ep_stop_fd ep),
                     1 \<mapsto> \<lparr>ev_fd = fd, ev_ptr = None, ev_clbk = IncomingConnectionClbk\<rparr>), next_ref := 2\<rparr>"

abbreviation cmd_reachable :: "(sockaddr_storage \<Rightarrow> cstring) \<Rightarrow> env \<Rightarrow> hub \<Rightarrow> bool" where
  "cmd_reachable ntop env \<equiv> reach (\<lambda>h. \<exists>ep fd. h = hub_listening ep fd) (cmd_step ntop env)"

lemma cmd_reachable_start: "cmd_reachable ntop env (hub_listening ep fd)"
  by (rule reach.start) blast

inductive_cases cmd_stepE: "cmd_step ntop env h h'"

definition backlog_ok :: "hub \<Rightarrow> bool" where
  "backlog_ok h \<longleftrightarrow> (\<forall>c \<in> set (backlog h). inet_conn c)"

lemma srv_inv_listening: "srv_inv (hub_listening ep fd)"
  by (simp add: srv_inv_def reg_inv_def sess_inv_def hub_listening_def hub_start_def)

lemma acceptOne_backlog: "acceptOne ntop c h = Inr h' \<Longrightarrow> backlog h' = backlog h"
  by (auto simp: acceptOne_def Let_def fault_simps)

lemma set_backlog_incomingConnection:
  assumes "incomingConnection ntop h = Inr h'"
  shows "set (backlog h') \<subseteq> set (backlog h)"
proof -
  have step: "set (backlog k') \<subseteq> set (backlog h)"
    if "set (backlog k) \<subseteq> set (backlog h)" "acceptOne ntop c (k\<lparr>backlog := tl (backlog k)\<rparr>) = Inr k'" for c k k'
    using acceptOne_backlog[OF that(2)] that(1) by (cases "backlog k") auto
  show ?thesis
    using foldF_invariant[OF assms[unfolded incomingConnection_def], of "\<lambda>k. set (backlog k) \<subseteq> set (backlog h)"] step
    by blast
qed

lemma backlog_frame: "frame env s bs h = Inr h' \<Longrightarrow> backlog h' = backlog h"
  by (erule frameE) (simp_all add: io_view_eqD(6)[OF io_view_handle])

lemma backlog_closeConnection: "closeConnection e h = Inr h' \<Longrightarrow> backlog h' = backlog h"
  by (auto simp: closeConnection_def event_session_def quit_def fault_simps split: option.splits)

lemma backlog_incomingData_loop:
  assumes "incomingData_loop env e s h = Inr h'"
  shows "backlog h' = backlog h"
  by (rule incomingData_loop_keeps[OF assms, where P = "\<lambda>k. backlog k = backlog h"])
    (simp_all add: backlog_frame backlog_closeConnection)

lemma backlog_clientSocketClbk: "clientSocketClbk env e fl h = Inr h' \<Longrightarrow> backlog h' = backlog h"
  by (auto simp: clientSocketClbk_def incomingData_def send_event_def event_session_def fault_simps
      split: if_splits dest!: backlog_incomingData_loop)

lemma srv_inv_stop_event:
  assumes inv: "srv_inv h" and ev: "evs h e = Some ev" "ev_clbk ev = NoClbk"
  shows "srv_inv (h\<lparr>cmd_epl := ep, evs := (evs h)(e \<mapsto> stop_event fd)\<rparr>)"
proof -
  have s: "sess_inv h" and r: "reg_inv h" using inv by (simp_all add: srv_inv_def)
  have "e < next_ref h" using sess_inv_event[OF s ev(1)] by simp
  with s have "sess_inv (h\<lparr>cmd_epl := ep, evs := (evs h)(e \<mapsto> stop_event fd)\<rparr>)"
    unfolding sess_inv_def by (auto simp: stop_event_def split: if_splits)
  moreover have "reg_inv (h\<lparr>cmd_epl := ep, evs := (evs h)(e \<mapsto> stop_event fd)\<rparr>)"
    using r by (simp add: reg_inv_def)
  ultimately show ?thesis by (simp add: srv_inv_def)
qed

lemma cmd_step_inv:
  assumes "cmd_step ntop env h h'" "srv_inv h" "backlog_ok h"
  shows "srv_inv h' \<and> backlog_ok h'"
  using assms(1)
proof cases
  case (accept e ev fl)
  then have run: "incomingConnection ntop h = Inr h'" by (simp add: cmd_clbk_def)
  with srv_inv_incomingConnection[OF assms(2) run] set_backlog_incomingConnection[OF run] assms(3)
  show ?thesis by (auto simp: backlog_ok_def)
next
  case (client e ev fl)
  then have run: "clientSocketClbk env e fl h = Inr h'" by (simp add: cmd_clbk_def)
  with srv_inv_clientSocketClbk[OF assms(2) client(1,2) run] backlog_clientSocketClbk[OF run] assms(3)
  show ?thesis by (simp add: backlog_ok_def)
next
  case (close e ev)
  with srv_inv_closeConnection[OF assms(2)] backlog_closeConnection[OF close(3)] assms(3)
  show ?thesis by (simp add: backlog_ok_def)
next
  case (request c)
  then show ?thesis using assms(2,3) srv_inv_cong[OF assms(2), of h']
    by (simp add: backlog_ok_def graph_view_def usr_view_def)
next
  case (network r sk rx tx)
  then show ?thesis using srv_inv_sock_upd[OF assms(2) network(2)] assms(3) by (simp add: backlog_ok_def)
next
  case (wait ep)
  then show ?thesis using assms(2,3) srv_inv_cong[OF assms(2), of h']
    by (simp add: backlog_ok_def graph_view_def usr_view_def)
next
  case (restart e ev ep fd)
  then show ?thesis using srv_inv_stop_event[OF assms(2) restart(2,3)] assms(3) by (simp add: backlog_ok_def)
qed

lemma backlog_ok_listening: "backlog_ok (hub_listening ep fd)"
  by (simp add: backlog_ok_def hub_listening_def hub_start_def)

interpretation cmd: inductive_invariant "\<lambda>h. \<exists>ep fd. h = hub_listening ep fd" "cmd_step ntop env"
    "\<lambda>h. srv_inv h \<and> backlog_ok h" for ntop env
  by unfold_locales (auto simp: srv_inv_listening backlog_ok_listening dest: cmd_step_inv)

text \<open>
  In every reachable state of the command server every live user is the entry of its nick
  and of its id, the maps hold no other users, nicks and ids are unique, and no id is 0; and
  every session refers to a live socket and (if logged in) to a live user of its own.
\<close>

theorem command_server_invariant:
  assumes "cmd_reachable ntop env h"
  shows "reg_inv h \<and> sess_inv h"
  using cmd.reach_inv[OF assms] by (simp add: srv_inv_def)

theorem command_server_invariant_witness:
  "reg_inv (hub_listening epoll_start 4) \<and> sess_inv (hub_listening epoll_start 4)"
  by (rule command_server_invariant[OF cmd_reachable_start])

text \<open>What closing a connection does to the object graph.\<close>

lemma closeConnection_graph:
  assumes inv: "srv_inv h" and ev: "evs h e = Some ev" "ev_clbk ev = ClientSocketClbk"
  shows "(\<exists>x. closeConnection e h = Inl (Throw (EpollException x))) \<or>
    (\<exists>h' s se. closeConnection e h = Inr h' \<and> ev_ptr ev = Some s \<and> sessions h s = Some se \<and>
      evs h' = (evs h)(e := None) \<and> sessions h' = (sessions h)(s := None) \<and>
      socks h' = (socks h)(se_sock se := None) \<and>
      (case se_user se of
         None \<Rightarrow> users h' = users h \<and> nick_umap h' = nick_umap h \<and> id_umap h' = id_umap h
       | Some ur \<Rightarrow> \<exists>u. users h ur = Some u \<and> users h' = (users h)(ur := None) \<and>
           nick_umap h' = (nick_umap h)(u_nick u := None) \<and> id_umap h' = (id_umap h)(u_id u := None)))"
proof -
  obtain s se where s: "ev_ptr ev = Some s" "sessions h s = Some se" and
    run: "closeConnection e h = bindF (removeEvent (cmd_epl h) (ev_fd ev)) (\<lambda>ep. Inr (closed e s se ep h))"
    using inv ev by (rule closeConnection_eq)
  have user: "case se_user se of
         None \<Rightarrow> users (closed e s se ep h) = users h \<and> nick_umap (closed e s se ep h) = nick_umap h \<and>
           id_umap (closed e s se ep h) = id_umap h
       | Some ur \<Rightarrow> \<exists>u. users h ur = Some u \<and> users (closed e s se ep h) = (users h)(ur := None) \<and>
           nick_umap (closed e s se ep h) = (nick_umap h)(u_nick u := None) \<and>
           id_umap (closed e s se ep h) = (id_umap h)(u_id u := None)" for ep
    using sess_inv_session(4)[OF _ s(2)] inv by (auto simp: closed_def srv_inv_def split: option.splits)
  show ?thesis
  proof (cases "removeEvent (cmd_epl h) (ev_fd ev)")
    case (Inl f)
    then obtain x where "f = Throw (EpollException x)"
      by (auto simp: removeEvent_def Let_def split: prod.splits if_splits)
    with Inl run show ?thesis by simp
  next
    case (Inr ep)
    with run s user[of ep] closed_sel[of e s se ep h] show ?thesis by auto
  qed
qed

text \<open>A client connects: the reachable state after one accepted connection.\<close>

definition conn_one :: conn where
  "conn_one = \<lparr>cn_fd = 5, cn_addr = no_addr\<lparr>ss_family := AF_INET\<rparr>, cn_getfl = Inr 2, cn_setfl = None\<rparr>"

lemma epoll_start_add: "\<exists>ep. addEvent epoll_start 5 e fl = Inr ep"
  by (simp add: epoll_start_def Epoll_new_def initStopPipe_def addEvent_def ctl_add_def registered_def
      DEFAULT_EDELTA_def Let_def)

definition connected :: "hub \<Rightarrow> bool" where
  "connected h \<longleftrightarrow> evs h 4 = Some \<lparr>ev_fd = 5, ev_ptr = Some 3, ev_clbk = ClientSocketClbk\<rparr> \<and>
     sessions h 3 = Some \<lparr>se_sock = 2, se_buf = CircularBuffer (CMDPKG_MAX * 2), se_user = None, se_queue = []\<rparr> \<and>
     (\<exists>sk. socks h 2 = Some sk \<and> sk_tx sk = [] \<and> sk_rx sk = [] \<and> sk_addr sk = Some (no_addr\<lparr>ss_family := AF_INET\<rparr>)) \<and>
     users h = Map.empty \<and> nick_umap h = Map.empty \<and> id_umap h = Map.empty \<and> idgen_current h = 0 \<and>
     length (cmd_buf h) = CMDPKG_MAX \<and> uqueue h = [] \<and> pending_cmd_queue h = [] \<and> udp_out h = []"

lemma reachable_connected: "\<exists>h. cmd_reachable ntop env h \<and> connected h"
proof -
  let ?h0 = "hub_listening epoll_start 4"
  let ?h1 = "?h0\<lparr>backlog := backlog ?h0 @ [conn_one]\<rparr>"
  have bl: "backlog ?h1 = [conn_one]" by (simp add: hub_listening_def hub_start_def)
  have "cmd_step ntop env ?h0 ?h1" by (rule cmd_step.request) (simp add: inet_conn_def conn_one_def)
  then have r1: "cmd_reachable ntop env ?h1" using reach.step[OF cmd_reachable_start] by blast
  have pp: "print_port a = Inr (dec (unat (sin_port a)))" for a
    using length_dec_u16[of "sin_port a"] by (simp add: print_port_def PORT_BUF_def)
  obtain ep where ep: "addEvent epoll_start 5 4 (EPOLLIN OR EPOLLOUT OR EPOLLET OR EPOLLRDHUP) = Inr ep"
    using epoll_start_add by blast
  have "\<exists>h2. incomingConnection ntop ?h1 = Inr h2 \<and> connected h2"
    unfolding incomingConnection_def bl
    using ep by (simp add: acceptOne_def Socket_Accept_def conn_one_def pp Let_def addFlags_def Socket_fd_def
        hub_listening_def hub_start_def connected_def)
  then obtain h2 where h2: "incomingConnection ntop ?h1 = Inr h2" "connected h2" by blast
  have e0: "evs ?h1 1 = Some \<lparr>ev_fd = 4, ev_ptr = None, ev_clbk = IncomingConnectionClbk\<rparr>"
    by (simp add: hub_listening_def)
  have "cmd_step ntop env ?h1 h2"
    using e0 h2(1) by (intro cmd_step.accept[OF e0, of ntop env 0]) (simp_all add: cmd_clbk_def)
  then have "cmd_reachable ntop env h2" using reach.step[OF r1] by blast
  with h2(2) show ?thesis by blast
qed

lemma reachable_client:
  "\<exists>h. cmd_reachable ntop env h \<and>
     evs h 4 = Some \<lparr>ev_fd = 5, ev_ptr = Some 3, ev_clbk = ClientSocketClbk\<rparr>"
  using reachable_connected by (auto simp: connected_def)

text \<open>A server with the client of the witnesses connected and logged in, and its event registered.\<close>

definition hub_client :: hub where
  "hub_client = hub_two\<lparr>
     socks := Map.empty(0 \<mapsto> sock_one\<lparr>sk_host := Str [49], sk_port := Str [50]\<rparr>),
     evs := Map.empty(2 \<mapsto> \<lparr>ev_fd = 5, ev_ptr = Some 0, ev_clbk = ClientSocketClbk\<rparr>),
     cmd_epl := (case addEvent epoll_start 5 2 EPOLLIN of Inr ep \<Rightarrow> ep)\<rparr>"

lemma hub_client_inv: "srv_inv hub_client"
proof -
  have "reg_inv hub_client" using reg_inv_two by (simp add: hub_client_def reg_inv_def)
  moreover have "sess_inv hub_client"
    by (rule sess_invI) (auto simp: hub_client_def split: if_splits)
  ultimately show ?thesis by (simp add: srv_inv_def)
qed

lemma hub_client_event: "\<exists>ep. removeEvent (cmd_epl hub_client) 5 = Inr ep"
  by (simp add: hub_client_def epoll_start_def Epoll_new_def initStopPipe_def addEvent_def removeEvent_def
      ctl_add_def ctl_del_def registered_def DEFAULT_EDELTA_def Let_def)

lemma hub_client_pkg:
  "getType (pkg_of REGISTER_NICK [67]) = Inr REGISTER_NICK" "getDataStr (pkg_of REGISTER_NICK [67]) = Inr [67]"
  by (simp add: getType_def pkg_of_def layout_def load_def Let_def, rule getDataStr_pkg_of, simp)

lemma hub_client_id: "generate (id_umap hub_client) (idgen_current hub_client) = Some (3, 3)"
  by (simp add: hub_client_def hub_two_def generate_def generate_loop_unfold)

end
