(* ===== verification/Command_Relations.thy ===== *)
theory Command_Relations
  imports Command_Sessions
begin

text \<open>
  How to show that every step of the command server stays within a relation between states: the locale
  \<open>command_relation\<close> asks for the relation at the two places where the server changes its users (a
  command and the end of a connection) and gives it for the whole step, the receive loop and the accept loop
  included. The theory then uses it for what a step of the command server leaves alone.
\<close>

section \<open>Relations that steps stay in\<close>

text \<open>The members that only the GPS server and the broadcast threads write.\<close>

definition gps_view where
  "gps_view h = (uqueue h, gps_buf h, their_addr h, pending_cmd_queue h, udp_out h)"

text \<open>Every socket has the address of its peer, as \<open>accept\<close> leaves it.\<close>

definition addressed :: "hub \<Rightarrow> bool" where
  "addressed h \<longleftrightarrow> (\<forall>r sk. socks h r = Some sk \<longrightarrow> sk_addr sk \<noteq> None)"

lemma addressed_upd:
  "addressed h \<Longrightarrow> socks h r = Some sk \<Longrightarrow> sock_name sk' = sock_name sk \<Longrightarrow> socks h' = (socks h)(r \<mapsto> sk') \<Longrightarrow> addressed h'"
  by (auto simp: addressed_def sock_name_def)

lemma addressed_cong: "socks h' = socks h \<Longrightarrow> addressed h' = addressed h"
  by (simp add: addressed_def)

lemma sk_addr_Accept: "Socket_Accept ntop (Inr (fd, a)) = Inr sk \<Longrightarrow> sk_addr sk = Some a"
  by (auto simp: Socket_Accept_def Let_def fault_simps split: if_splits)

lemma addressed_handle: "addressed h \<Longrightarrow> handle env pkg s h = Inr h' \<Longrightarrow> addressed h'"
  using io_view_eqD(2)[OF io_view_handle[symmetric]] unfolding addressed_def by metis

locale command_relation =
  fixes R :: "hub \<Rightarrow> hub \<Rightarrow> bool" and env :: env
  assumes R_same: "users k' = users k \<Longrightarrow> nick_umap k' = nick_umap k \<Longrightarrow> id_umap k' = id_umap k \<Longrightarrow>
      gps_view k' = gps_view k \<Longrightarrow> (addressed k \<Longrightarrow> addressed k') \<Longrightarrow> R k k'"
    and R_trans: "R k l \<Longrightarrow> R l m \<Longrightarrow> R k m"
    and R_handle: "srv_inv k \<Longrightarrow> handle env pkg s k = Inr k' \<Longrightarrow> R k k'"
    and R_close: "srv_inv k \<Longrightarrow> R k (closed e s se ep k)"
begin

lemma frame_in:
  assumes "srv_inv h" "frame env s bs h = Inr h'"
  shows "R h h'"
  using assms(2)
proof (cases rule: frameE)
  case (waiting se b cb)
  then show ?thesis by (intro R_same) (simp_all add: gps_view_def addressed_def)
next
  case (handled se cmd cb)
  let ?h = "h\<lparr>cmd_buf := pk_bytes cmd, sessions := (sessions h)(s \<mapsto> se\<lparr>se_buf := cb\<rparr>)\<rparr>"
  have "srv_inv ?h" using srv_inv_session_upd(1)[OF assms(1) handled(1)] by simp
  from R_handle[OF this handled(2)] show ?thesis
    using R_trans[of h ?h h'] R_same[of ?h h] by (simp add: gps_view_def addressed_def)
qed

lemma close_in:
  assumes inv: "srv_inv h" and ev: "evs h e = Some ev" "ev_clbk ev = ClientSocketClbk"
    and run: "closeConnection e h = Inr h'"
  shows "R h h'"
proof -
  obtain s se where "closeConnection e h = bindF (removeEvent (cmd_epl h) (ev_fd ev)) (\<lambda>ep. Inr (closed e s se ep h))"
    using inv ev by (rule closeConnection_eq)
  with run R_close[OF inv] show ?thesis by (auto simp: fault_simps)
qed

lemma client_in:
  assumes inv: "srv_inv h" and ev: "evs h e = Some ev" "ev_clbk ev = ClientSocketClbk"
    and run: "clientSocketClbk env e fl h = Inr h'"
  shows "R h h'"
proof -
  obtain h1 where h1: "(if has_flag fl EPOLLOUT then send_event e h else Inr h) = Inr h1"
    and h': "(if has_flag fl EPOLLIN then incomingData env e h1 else Inr h1) = Inr h'"
    using run by (auto simp: clientSocketClbk_def fault_simps)
  have inv1: "srv_inv h1" "evs h1 e = Some ev"
    using h1 inv ev(1) srv_inv_send_event[OF inv, of e h1] by (auto split: if_splits)
  have same: "R h h1"
  proof (cases "has_flag fl EPOLLOUT")
    case True
    then obtain s se sk q sk' where k: "socks h (se_sock se) = Some sk" "flush_loop (se_queue se) sk = Inr (q, sk')"
      "h1 = h\<lparr>socks := (socks h)(se_sock se \<mapsto> sk'), sessions := (sessions h)(s \<mapsto> se\<lparr>se_queue := q\<rparr>)\<rparr>"
      using h1 by (auto simp: send_event_def event_session_def fault_simps)
    then show ?thesis
      by (intro R_same) (auto simp: gps_view_def intro: addressed_upd[OF _ k(1) sock_name_flush_loop[OF k(2)]])
  next
    case False
    with h1 show ?thesis by (intro R_same) simp_all
  qed
  show ?thesis
  proof (cases "has_flag fl EPOLLIN")
    case True
    then obtain s where run1: "incomingData_loop env e s h1 = Inr h'"
      using h' by (auto simp: incomingData_def fault_simps)
    let ?P = "\<lambda>k. srv_inv k \<and> evs k e = Some ev \<and> R h k"
    show ?thesis
    proof (rule incomingData_loop_keeps[OF run1, where P = ?P])
      show "?P h1" using inv1 same by simp
      show "?P (k\<lparr>socks := (socks k)(r \<mapsto> sk')\<rparr>)"
        if "?P k" "socks k r = Some sk" "sock_name sk' = sock_name sk" for k r sk sk'
      proof -
        have "R k (k\<lparr>socks := (socks k)(r \<mapsto> sk')\<rparr>)"
          by (rule R_same) (auto simp: gps_view_def intro: addressed_upd[OF _ that(2,3)])
        then show ?thesis
          using that srv_inv_sock_upd[of k r sk sk'] by (auto simp: sock_name_def intro: R_trans)
      qed
      show "?P k'" if "?P k" "frame env s bs k = Inr k'" for k bs k'
        using that srv_inv_frame[of k env s bs k'] evs_frame[OF that(2)] frame_in[of k s bs k'] by (auto intro: R_trans)
      show "R h k'" if "?P k" "closeConnection e k = Inr k'" for k k'
        using that close_in[of k e ev k'] ev(2) by (auto intro: R_trans)
    qed simp
  next
    case False
    with h' same show ?thesis by simp
  qed
qed

lemma accept_in:
  assumes run: "incomingConnection ntop h = Inr h'"
  shows "R h h'"
proof -
  let ?P = "\<lambda>k. users k = users h \<and> nick_umap k = nick_umap h \<and> id_umap k = id_umap h \<and> gps_view k = gps_view h \<and>
    (addressed h \<longrightarrow> addressed k)"
  have step: "?P k'" if "?P k" "acceptOne ntop c (k\<lparr>backlog := tl (backlog k)\<rparr>) = Inr k'" for c k k'
    using that by (auto simp: acceptOne_def Let_def fault_simps gps_view_def addressed_def dest: sk_addr_Accept split: if_splits)
  have "?P h'"
    by (rule foldF_invariant[OF run[unfolded incomingConnection_def], where P = ?P]) (simp, rule step)
  then show ?thesis by (intro R_same) simp_all
qed

lemma step_in:
  assumes "cmd_step ntop env h h'" "srv_inv h"
  shows "R h h'"
  using assms(1)
proof cases
  case (accept e ev fl)
  then show ?thesis using accept_in[of ntop h h'] by (simp add: cmd_clbk_def)
next
  case (client e ev fl)
  then show ?thesis using client_in[OF assms(2) client(1,2), of fl] by (simp add: cmd_clbk_def)
next
  case (close e ev)
  then show ?thesis by (rule close_in[OF assms(2)])
next
  case (request c)
  then show ?thesis by (intro R_same) (simp_all add: gps_view_def addressed_def)
next
  case (network r sk rx tx)
  then show ?thesis by (intro R_same) (auto simp: gps_view_def addressed_def split: if_splits)
next
  case (wait ep)
  then show ?thesis by (intro R_same) (simp_all add: gps_view_def addressed_def)
next
  case (restart e ev ep fd)
  then show ?thesis by (intro R_same) (simp_all add: gps_view_def addressed_def)
qed

end

section \<open>What commands leave alone\<close>

text \<open>
  A user without its buddies: the part that no command changes once the user is registered. \<open>fresh_user\<close>
  is a user as a registration leaves it.
\<close>

definition core :: "User \<Rightarrow> User" where "core u = u\<lparr>u_buddies := []\<rparr>"

definition fresh_user :: "User \<Rightarrow> bool" where
  "fresh_user u \<longleftrightarrow> (\<exists>i n q t. u = setToken (setSockPtr (newUser i n) (Some q)) t)"

definition keeps_users :: "hub \<Rightarrow> hub \<Rightarrow> bool" where
  "keeps_users h h' \<longleftrightarrow> gps_view h' = gps_view h \<and> (addressed h \<longrightarrow> addressed h') \<and>
     (\<forall>r u'. users h' r = Some u' \<longrightarrow> (\<exists>u. users h r = Some u \<and> core u' = core u) \<or> fresh_user (core u'))"

lemma core_buddies [simp]: "core (u\<lparr>u_buddies := b\<rparr>) = core u"
  by (simp add: core_def)

lemma core_eqD:
  assumes "core u' = core u"
  shows "u_id u' = u_id u" "u_nick u' = u_nick u" "u_ready u' = u_ready u" "u_empty u' = u_empty u"
    "u_addr_udp u' = u_addr_udp u" "u_udp_ready u' = u_udp_ready u" "u_token u' = u_token u" "u_sock u' = u_sock u"
    "slotOf u' s = slotOf u s"
proof -
  show "u_id u' = u_id u" "u_nick u' = u_nick u" "u_ready u' = u_ready u" "u_empty u' = u_empty u"
    "u_addr_udp u' = u_addr_udp u" "u_udp_ready u' = u_udp_ready u" "u_token u' = u_token u" "u_sock u' = u_sock u"
    using assms by (cases u; cases u'; simp add: core_def)+
  show "slotOf u' s = slotOf u s" using assms by (cases u; cases u'; cases s; simp add: core_def)
qed

lemma fresh_userD:
  assumes "fresh_user (core u)"
  shows "u_ready u = None" "u_empty u = Slot1" "u_addr_udp u = None" "\<not> u_udp_ready u" "\<exists>t. u_token u = Some t" "\<exists>q. u_sock u = Some q"
proof -
  obtain i n q t where "core u = setToken (setSockPtr (newUser i n) (Some q)) t" using assms by (auto simp: fresh_user_def)
  also have "\<dots> = core \<dots>" by (simp add: core_def newUser_def user_setters)
  finally have c: "core u = core (setToken (setSockPtr (newUser i n) (Some q)) t)" .
  show "u_ready u = None" "u_empty u = Slot1" "u_addr_udp u = None" "\<not> u_udp_ready u" "\<exists>t. u_token u = Some t" "\<exists>q. u_sock u = Some q"
    using core_eqD[OF c] by (simp_all add: newUser_def user_setters)
qed

text \<open>The users without their buddies, and the members of the other components.\<close>

definition core_view where
  "core_view h = ((\<lambda>r. map_option core (users h r)), gps_view h)"

lemma core_view_send:
  assumes "send s p h = Inr h'"
  shows "users h' = users h" "gps_view h' = gps_view h" "core_view h' = core_view h"
  using assms by (auto elim!: sendE simp: gps_view_def core_view_def)

lemma core_view_buddies:
  assumes "users h r = Some u"
  shows "core_view (h\<lparr>users := (users h)(r \<mapsto> u\<lparr>u_buddies := b\<rparr>)\<rparr>) = core_view h"
  using assms by (auto simp: core_view_def gps_view_def fun_eq_iff)

lemma core_view_addBuddy:
  assumes "addBuddy env s ur x (m, l, h) = Inr (m', l', h')"
  shows "core_view h' = core_view h"
  using assms by (cases rule: addBuddyE) (auto simp: core_view_buddies dest: core_view_send(3))

lemma core_view_addBuddies: "addBuddies env pkg s h = Inr h' \<Longrightarrow> core_view h' = core_view h"
  by (rule addBuddies_invariant[where P = "\<lambda>k. core_view k = core_view h"])
    (auto dest: core_view_addBuddy core_view_send(3))

lemma core_view_removeBuddies: "removeBuddies env pkg s h = Inr h' \<Longrightarrow> core_view h' = core_view h"
  by (rule removeBuddies_invariant[where P = "\<lambda>k. core_view k = core_view h"])
    (auto simp: removeBuddy_def fault_simps core_view_buddies)

text \<open>A user joined, everybody else is as before.\<close>

definition joined :: "hub \<Rightarrow> uref \<Rightarrow> User \<Rightarrow> hub \<Rightarrow> bool" where
  "joined h r u h' \<longleftrightarrow> users h r = None \<and> users h' = (users h)(r \<mapsto> u) \<and> fresh_user u \<and> gps_view h' = gps_view h"

lemma core_view_registerNick:
  assumes inv: "reg_inv h" and run: "registerNick env pkg s h = Inr h'"
  shows "core_view h' = core_view h \<or> (\<exists>r u. joined h r u h')"
  using run
proof (cases rule: registerNickE)
  case (taken nick)
  then show ?thesis using core_view_send(3) by (simp add: nick_nack_eq)
next
  case (registered nick i c se h1 usr)
  let ?p = "publish env i c nick s se h" and ?t = "e_rand env (rand_calls h1)"
  have p: "users ?p = (users h)(next_ref h \<mapsto> setSockPtr (newUser i nick) (Some (se_sock se)))" "gps_view ?p = gps_view h"
    by (simp_all add: publish_def Let_def gps_view_def)
  note s1 = core_view_send(1,2)[OF registered(5)] and s2 = core_view_send(1,2)[OF registered(7)]
  have usr: "usr = setSockPtr (newUser i nick) (Some (se_sock se))" using registered(6) s1(1) p(1) by simp
  have "users h' = (users h)(next_ref h \<mapsto> setToken usr ?t)" "gps_view h' = gps_view h"
    using s1 s2 p by (auto simp: gps_view_def)
  moreover have "users h (next_ref h) = None" using reg_inv_user(1)[OF inv, of "next_ref h"] by (cases "users h (next_ref h)") auto
  ultimately have "joined h (next_ref h) (setToken usr ?t) h'" by (auto simp: joined_def fresh_user_def usr)
  then show ?thesis by blast
qed

lemma core_view_handle:
  assumes "reg_inv h" "handle env pkg s h = Inr h'"
  shows "core_view h' = core_view h \<or> (\<exists>r u. joined h r u h')"
  using assms by (auto simp: handle_def fault_simps split: if_splits
      dest: core_view_registerNick core_view_addBuddies core_view_removeBuddies)

lemma core_viewD:
  assumes "core_view h' = core_view h"
  shows "gps_view h' = gps_view h" "map_option core (users h' r) = map_option core (users h r)"
  using assms by (auto simp: core_view_def dest: fun_cong)

lemma core_fresh: "fresh_user u \<Longrightarrow> core u = u"
  by (auto simp: fresh_user_def core_def newUser_def user_setters)

text \<open>No step of the command server writes a position, an address or a token of a registered user.\<close>

interpretation kept: command_relation keeps_users env for env
proof unfold_locales
  show "keeps_users k k'" if "users k' = users k" "nick_umap k' = nick_umap k" "id_umap k' = id_umap k" "gps_view k' = gps_view k"
      "addressed k \<Longrightarrow> addressed k'" for k k' using that by (auto simp: keeps_users_def)
  show "keeps_users k m" if "keeps_users k l" "keeps_users l m" for k l m
    using that unfolding keeps_users_def by metis
  show "keeps_users k k'" if "srv_inv k" "handle env pkg s k = Inr k'" for k pkg s k'
  proof -
    have "core_view k' = core_view k \<or> (\<exists>r u. joined k r u k')"
      using core_view_handle[OF _ that(2)] that(1) by (simp add: srv_inv_def)
    then show ?thesis
    proof
      assume c: "core_view k' = core_view k"
      have "\<exists>u. users k r = Some u \<and> core u' = core u" if "users k' r = Some u'" for r u'
        using core_viewD(2)[OF c, of r] that by (cases "users k r") auto
      then show ?thesis using core_viewD(1)[OF c] addressed_handle[OF _ that(2)] by (auto simp: keeps_users_def)
    next
      assume "\<exists>r u. joined k r u k'"
      then show ?thesis using addressed_handle[OF _ that(2)]
        by (auto simp: joined_def keeps_users_def core_fresh split: if_splits)
    qed
  qed
  show "keeps_users k (closed e s se ep k)" for k e s se ep
    by (auto simp: keeps_users_def closed_def Let_def gps_view_def addressed_def split: option.splits if_splits)
qed
end
