(* ===== verification/Registry_Refinement.thy ===== *)
theory Registry_Refinement
  imports Command_Relations
begin

text \<open>
  What the command server promises, without heaps, sockets and buffers: a registry that gives for every
  nick that is online its id and the nicks of its buddies. \<open>registry_of\<close> reads it off the shared state,
  \<open>reg_step\<close> says how it may change, and every step of the command server implements a sequence of such
  changes.
\<close>

section \<open>The abstract registry\<close>

type_synonym registry = "cstring \<rightharpoonup> i32 \<times> cstring set"

definition fresh_id :: "registry \<Rightarrow> i32 \<Rightarrow> bool" where
  "fresh_id A i \<longleftrightarrow> i \<noteq> 0 \<and> (\<forall>n x. A n = Some x \<longrightarrow> fst x \<noteq> i)"

inductive reg_step :: "registry \<Rightarrow> registry \<Rightarrow> bool" where
  register: "A n = None \<Longrightarrow> fresh_id A i \<Longrightarrow> reg_step A (A(n \<mapsto> (i, {})))"
| add: "A n = Some (i, B) \<Longrightarrow> reg_step A (A(n \<mapsto> (i, B \<union> N)))"
| remove: "A n = Some (i, B) \<Longrightarrow> reg_step A (A(n \<mapsto> (i, B - N)))"
| logout: "A n = Some x \<Longrightarrow> reg_step A (A(n := None))"

definition registry_of :: "hub \<Rightarrow> registry" where
  "registry_of h n =
     (case nick_umap h n of
        Some (Some r) \<Rightarrow> map_option (\<lambda>u. (u_id u, set (u_buddies u))) (users h r)
      | _ \<Rightarrow> None)"

text \<open>The nick of the user a session is logged in as.\<close>

definition session_nick :: "hub \<Rightarrow> nat \<Rightarrow> cstring option" where
  "session_nick h s =
     (case sessions h s of
        Some se \<Rightarrow> (case se_user se of Some r \<Rightarrow> map_option u_nick (users h r) | None \<Rightarrow> None)
      | None \<Rightarrow> None)"

definition session_user :: "hub \<Rightarrow> Session \<Rightarrow> User option" where
  "session_user h se = (case se_user se of None \<Rightarrow> None | Some r \<Rightarrow> users h r)"

section \<open>How the state changes it\<close>

lemma registry_of_cong:
  "nick_umap h' = nick_umap h \<Longrightarrow> users h' = users h \<Longrightarrow> registry_of h' = registry_of h"
  by (rule ext) (simp add: registry_of_def cong: option.case_cong)

lemma registry_of_send: "send s p h = Inr h' \<Longrightarrow> registry_of h' = registry_of h"
  by (erule sendE) (auto intro!: registry_of_cong)

lemma registry_of_user:
  assumes "reg_inv h" "users h r = Some u"
  shows "registry_of h (u_nick u) = Some (u_id u, set (u_buddies u))"
  using reg_inv_user(4)[OF assms] assms(2) by (simp add: registry_of_def)

lemma registry_of_upd:
  assumes inv: "reg_inv h" and u: "users h r = Some u" "u_id u' = u_id u"
    and h': "users h' = (users h)(r \<mapsto> u')" "nick_umap h' = nick_umap h"
  shows "registry_of h' = (registry_of h)(u_nick u \<mapsto> (u_id u, set (u_buddies u')))"
proof (rule ext)
  fix n
  have "nick_umap h n = Some (Some r) \<longleftrightarrow> n = u_nick u"
    using reg_inv_user(4)[OF inv u(1)] reg_inv_nick[OF inv, of n "Some r"] u(1) by (metis option.inject)
  then show "registry_of h' n = ((registry_of h)(u_nick u \<mapsto> (u_id u, set (u_buddies u')))) n"
    using u(2) by (auto simp: registry_of_def h' split: option.splits)
qed

lemma registry_of_upd_same:
  assumes "reg_inv h" "users h r = Some u" "u_id u' = u_id u" "u_buddies u' = u_buddies u"
    and "users h' = (users h)(r \<mapsto> u')" "nick_umap h' = nick_umap h"
  shows "registry_of h' = registry_of h"
  using registry_of_upd[OF assms(1-3,5,6)] registry_of_user[OF assms(1,2)] assms(4) by (simp add: fun_upd_idem)

lemma registry_of_None:
  assumes "reg_inv h"
  shows "registry_of h n = None \<longleftrightarrow> nick_umap h n = None"
proof (cases "nick_umap h n")
  case (Some p)
  obtain r u where "p = Some r" "users h r = Some u" using assms Some by (rule reg_inv_nick)
  with Some show ?thesis by (simp add: registry_of_def)
qed (simp add: registry_of_def)

lemma registry_of_fresh:
  assumes "reg_inv h" "id_umap h i = None" "i \<noteq> 0"
  shows "fresh_id (registry_of h) i"
proof -
  have "fst x \<noteq> i" if "registry_of h n = Some x" for n x
    using that assms(2) reg_inv_user(5)[OF assms(1)]
    by (fastforce simp: registry_of_def split: option.splits)
  with assms(3) show ?thesis by (simp add: fresh_id_def)
qed

section \<open>The commands\<close>

lemma registry_addBuddy:
  assumes inv: "reg_inv h" and u: "users h ur = Some u" and run: "addBuddy env s ur x (m, l, h) = Inr (m', l', h')"
  shows "registry_of h' = (registry_of h)(u_nick u \<mapsto> (u_id u, insert x (set (u_buddies u)))) \<and>
    (\<exists>u'. users h' ur = Some u' \<and> u_id u' = u_id u \<and> u_nick u' = u_nick u \<and> set (u_buddies u') = insert x (set (u_buddies u)))"
proof -
  let ?u = "u\<lparr>u_buddies := SyncHashSet_insert (u_buddies u) x\<rparr>"
  let ?h = "h\<lparr>users := (users h)(ur \<mapsto> ?u)\<rparr>"
  have x: "new_nick env x = Inr y \<Longrightarrow> y = x" for y by (auto simp: new_nick_def split: if_splits)
  have b: "set (u_buddies ?u) = insert x (set (u_buddies u))"
    by (auto simp: SyncHashSet_insert_def)
  have r: "registry_of ?h = (registry_of h)(u_nick u \<mapsto> (u_id u, insert x (set (u_buddies u))))"
    unfolding b[symmetric] by (rule registry_of_upd[OF inv u]) simp_all
  have "registry_of h' = registry_of ?h \<and> users h' ur = Some ?u"
    using run
  proof (cases rule: addBuddyE)
    case (offline nick usr)
    then show ?thesis using x u by simp
  next
    case (online nick usr p)
    then have s: "send s p ?h = Inr h'" using x u by simp
    have "users h' = users ?h" using s by (rule sendE) simp_all
    with registry_of_send[OF s] show ?thesis by simp
  qed
  then show ?thesis using r b by (intro conjI) (simp, intro exI[of _ ?u], simp)
qed

text \<open>A whole list of names, and the same for removing.\<close>

lemma registry_addBuddy_loop:
  assumes "reg_inv h" "users h ur = Some u" "foldF (addBuddy env s ur) xs (m, l, h) = Inr (m', l', h')"
  shows "registry_of h' = (registry_of h)(u_nick u \<mapsto> (u_id u, set (u_buddies u) \<union> set xs))"
  using assms
proof (induction xs arbitrary: m l h u)
  case Nil
  then show ?case using registry_of_user[OF Nil(1,2)] by (simp add: fun_upd_idem)
next
  case (Cons x xs)
  obtain m1 l1 h1 where 1: "addBuddy env s ur x (m, l, h) = Inr (m1, l1, h1)"
    and 2: "foldF (addBuddy env s ur) xs (m1, l1, h1) = Inr (m', l', h')"
    using Cons.prems(3) by (auto simp: bindF_Inr_iff)
  from registry_addBuddy[OF Cons.prems(1,2) 1] obtain u1 where
    r: "registry_of h1 = (registry_of h)(u_nick u \<mapsto> (u_id u, insert x (set (u_buddies u))))"
    and u1: "users h1 ur = Some u1" "u_id u1 = u_id u" "u_nick u1 = u_nick u" "set (u_buddies u1) = insert x (set (u_buddies u))"
    by blast
  from Cons.IH[OF reg_inv_addBuddy[OF Cons.prems(1) 1] u1(1) 2] show ?case by (auto simp: r u1 fun_eq_iff)
qed

lemma registry_removeBuddy_loop:
  assumes "reg_inv h" "users h ur = Some u" "foldF (removeBuddy env ur) xs h = Inr h'"
  shows "registry_of h' = (registry_of h)(u_nick u \<mapsto> (u_id u, set (u_buddies u) - set xs))"
  using assms
proof (induction xs arbitrary: h u)
  case Nil
  then show ?case using registry_of_user[OF Nil(1,2)] by (simp add: fun_upd_idem)
next
  case (Cons x xs)
  let ?u = "u\<lparr>u_buddies := SyncHashSet_erase (u_buddies u) x\<rparr>"
  let ?h = "h\<lparr>users := (users h)(ur \<mapsto> ?u)\<rparr>"
  have "removeBuddy env ur x h = Inr ?h \<or> (\<exists>f. removeBuddy env ur x h = Inl f)"
    using Cons.prems(2) by (simp add: removeBuddy_def new_nick_def)
  then have 1: "removeBuddy env ur x h = Inr ?h" and 2: "foldF (removeBuddy env ur) xs ?h = Inr h'"
    using Cons.prems(3) by auto
  have b: "set (u_buddies ?u) = set (u_buddies u) - {x}"
    using shs.items_erase[OF reg_inv_user(3)[OF Cons.prems(1,2)]] by simp
  have r: "registry_of ?h = (registry_of h)(u_nick u \<mapsto> (u_id u, set (u_buddies ?u)))"
    by (rule registry_of_upd[OF Cons.prems(1,2)]) simp_all
  have "registry_of h' = (registry_of ?h)(u_nick ?u \<mapsto> (u_id ?u, set (u_buddies ?u) - set xs))"
    by (rule Cons.IH[OF reg_inv_removeBuddy[OF Cons.prems(1) 1] _ 2]) simp
  then show ?case using r b by (auto simp: fun_eq_iff)
qed

text \<open>The names a list holds for the code: both commands cut at commas, adding merges an empty name with the next.\<close>

definition listed :: "bool \<Rightarrow> CmdPkg \<Rightarrow> cstring set" where
  "listed skip pkg = (case getDataStr pkg of Inr data \<Rightarrow> set (tokens skip [] data) | Inl _ \<Rightarrow> {})"

definition change_buddies :: "cstring option \<Rightarrow> (cstring set \<Rightarrow> cstring set) \<Rightarrow> registry \<Rightarrow> registry" where
  "change_buddies me f A =
     (case me of None \<Rightarrow> A | Some n \<Rightarrow> (case A n of None \<Rightarrow> A | Some (i, B) \<Rightarrow> A(n \<mapsto> (i, f B))))"

lemma registry_addBuddies:
  assumes inv: "reg_inv h" and run: "addBuddies env pkg s h = Inr h'"
  shows "registry_of h' = change_buddies (session_nick h s) (\<lambda>B. B \<union> listed True pkg) (registry_of h)"
proof -
  obtain se where se: "sessions h s = Some se" using run by (auto simp: addBuddies_def fault_simps)
  show ?thesis
  proof (cases "se_user se")
    case None
    with run se show ?thesis by (simp add: addBuddies_def session_nick_def change_buddies_def)
  next
    case (Some ur)
    then obtain u where u: "users h ur = Some u" using run se by (auto simp: addBuddies_def fault_simps)
    obtain data m l h1 where d: "getDataStr pkg = Inr data"
      and lp: "nick_loop True (addBuddy env s ur) data (data @ [0]) 0 0 ([], 0, h) = Inr (m, l, h1)"
      and fin: "h' = h1 \<or> (\<exists>p. send s p h1 = Inr h')"
      using run se Some by (rule addBuddies_loopE)
    have "0 \<notin> set data" using d cstr_no_nul by (auto simp: getDataStr_def cstr_at_def)
    with lp have "foldF (addBuddy env s ur) (tokens True [] data) ([], 0, h) = Inr (m, l, h1)"
      by (simp add: nick_loop_tokens)
    from registry_addBuddy_loop[OF inv u this] fin registry_of_send
    have "registry_of h' = (registry_of h)(u_nick u \<mapsto> (u_id u, set (u_buddies u) \<union> set (tokens True [] data)))" by auto
    then show ?thesis using se Some u d registry_of_user[OF inv u]
      by (simp add: session_nick_def change_buddies_def listed_def)
  qed
qed

lemma registry_removeBuddies:
  assumes inv: "reg_inv h" and run: "removeBuddies env pkg s h = Inr h'"
    and live: "\<And>se r. sessions h s = Some se \<Longrightarrow> se_user se = Some r \<Longrightarrow> r \<in> dom (users h)"
  shows "registry_of h' = change_buddies (session_nick h s) (\<lambda>B. B - listed False pkg) (registry_of h)"
proof -
  obtain se where se: "sessions h s = Some se" using run by (auto simp: removeBuddies_def fault_simps)
  show ?thesis
  proof (cases "se_user se")
    case None
    with run se show ?thesis by (simp add: removeBuddies_def session_nick_def change_buddies_def)
  next
    case (Some ur)
    then obtain u where u: "users h ur = Some u" using live[OF se] by blast
    from run se Some obtain data where d: "getDataStr pkg = Inr data"
      and lp: "nick_loop False (removeBuddy env ur) data (data @ [0]) 0 0 h = Inr h'"
      by (auto simp: removeBuddies_def fault_simps)
    have "0 \<notin> set data" using d cstr_no_nul by (auto simp: getDataStr_def cstr_at_def)
    with lp have "foldF (removeBuddy env ur) (tokens False [] data) h = Inr h'" by (simp add: nick_loop_tokens)
    from registry_removeBuddy_loop[OF inv u this] show ?thesis using se Some u d registry_of_user[OF inv u]
      by (simp add: session_nick_def change_buddies_def listed_def)
  qed
qed

lemma registry_publish:
  assumes inv: "reg_inv h"
  shows "registry_of (publish env i c nick s se h) = (registry_of h)(nick \<mapsto> (i, {}))"
proof (rule ext)
  fix n
  have "nick_umap h n = Some (Some q) \<Longrightarrow> q \<noteq> next_ref h" for q
    using reg_inv_nick[OF inv, of n "Some q"] reg_inv_user(1)[OF inv, of q] by (metis less_irrefl option.inject)
  then show "registry_of (publish env i c nick s se h) n = ((registry_of h)(nick \<mapsto> (i, {}))) n"
    by (auto simp: registry_of_def publish_def Let_def SyncHashMap_put_def setSockPtr_def newUser_def split: option.splits)
qed

lemma registry_registerNick:
  assumes inv: "reg_inv h" and run: "registerNick env pkg s h = Inr h'"
  shows "\<exists>nick. getDataStr pkg = Inr nick \<and>
    (if registry_of h nick \<noteq> None then registry_of h' = registry_of h
     else \<exists>i. fresh_id (registry_of h) i \<and> registry_of h' = (registry_of h)(nick \<mapsto> (i, {})))"
  using run
proof (cases rule: registerNickE)
  case (taken nick)
  then obtain p where "send s p h = Inr h'" by (auto simp: nick_nack_def fault_simps)
  with taken registry_of_send registry_of_None[OF inv, of nick] show ?thesis by auto
next
  case (registered nick i c se h1 usr)
  let ?p = "publish env i c nick s se h"
  let ?h = "h1\<lparr>rand_calls := rand_calls h1 + 1,
            users := (users h1)(next_ref h \<mapsto> setToken usr (e_rand env (rand_calls h1)))\<rparr>"
  note free = generate_free[OF registered(3)]
  have "reg_inv h1" using reg_inv_send[OF reg_inv_publish[OF inv registered(2)] registered(5)] free by simp
  then have "registry_of ?h = registry_of h1"
    by (rule registry_of_upd_same[OF _ registered(6), of "setToken usr (e_rand env (rand_calls h1))"]) (simp_all add: setToken_def)
  then have "registry_of h' = registry_of ?p"
    using registry_of_send[OF registered(7)] registry_of_send[OF registered(5)] by simp
  moreover have "fresh_id (registry_of h) i" using registry_of_fresh[OF inv] free by simp
  ultimately show ?thesis
    using registered(1,2) registry_publish[OF inv] registry_of_None[OF inv, of nick] by auto
qed

lemma handle_refines:
  assumes inv: "srv_inv h" and t: "getType pkg = Inr t" and run: "handle env pkg s h = Inr h'"
  shows "(if t = REGISTER_NICK then
       \<exists>nick. getDataStr pkg = Inr nick \<and>
         (if registry_of h nick \<noteq> None then registry_of h' = registry_of h
          else \<exists>i. fresh_id (registry_of h) i \<and> registry_of h' = (registry_of h)(nick \<mapsto> (i, {})))
     else registry_of h' =
       (if t = ADD_BUDDIES then change_buddies (session_nick h s) (\<lambda>B. B \<union> listed True pkg) (registry_of h)
        else if t = REMOVE_BUDDIES then change_buddies (session_nick h s) (\<lambda>B. B - listed False pkg) (registry_of h)
        else registry_of h))"
proof -
  have r: "reg_inv h" and si: "sess_inv h" using inv by (simp_all add: srv_inv_def)
  have run': "(if t = REGISTER_NICK then registerNick env pkg s h else if t = ADD_BUDDIES then addBuddies env pkg s h
      else if t = REMOVE_BUDDIES then removeBuddies env pkg s h else Inr h) = Inr h'"
    using run t by (simp add: handle_def)
  consider (reg) "t = REGISTER_NICK" "registerNick env pkg s h = Inr h'"
    | (add) "t \<noteq> REGISTER_NICK" "t = ADD_BUDDIES" "addBuddies env pkg s h = Inr h'"
    | (rem) "t \<noteq> REGISTER_NICK" "t \<noteq> ADD_BUDDIES" "t = REMOVE_BUDDIES" "removeBuddies env pkg s h = Inr h'"
    | (other) "t \<noteq> REGISTER_NICK" "t \<noteq> ADD_BUDDIES" "t \<noteq> REMOVE_BUDDIES" "h' = h"
    using run' by (auto split: if_splits)
  then show ?thesis
  proof cases
    case reg
    then show ?thesis using registry_registerNick[OF r reg(2)] by simp
  next
    case add
    then show ?thesis using registry_addBuddies[OF r add(3)] by simp
  next
    case rem
    have "sessions h s = Some se \<Longrightarrow> se_user se = Some q \<Longrightarrow> q \<in> dom (users h)" for se q
      using sess_inv_session(4)[OF si] by blast
    then show ?thesis using rem registry_removeBuddies[OF r rem(4)] by simp
  next
    case other
    then show ?thesis by simp
  qed
qed

section \<open>The server\<close>

lemma change_buddies_steps:
  assumes "f = (\<lambda>B. B \<union> N) \<or> f = (\<lambda>B. B - N)"
  shows "reg_step\<^sup>*\<^sup>* A (change_buddies me f A)"
proof (cases "\<exists>n i B. me = Some n \<and> A n = Some (i, B)")
  case True
  then obtain n i B where n: "me = Some n" "A n = Some (i, B)" by blast
  have "reg_step A (A(n \<mapsto> (i, f B)))" using assms reg_step.add[of A n i B N] reg_step.remove[of A n i B N] n(2) by auto
  with n show ?thesis by (simp add: change_buddies_def r_into_rtranclp)
qed (auto simp: change_buddies_def split: option.splits)

lemma handle_steps:
  assumes "srv_inv h" "handle env pkg s h = Inr h'"
  shows "reg_step\<^sup>*\<^sup>* (registry_of h) (registry_of h')"
proof -
  obtain t where t: "getType pkg = Inr t" using assms(2) by (auto simp: handle_def fault_simps)
  note r = handle_refines[OF assms(1) t assms(2)]
  show ?thesis
  proof (cases "t = REGISTER_NICK")
    case True
    with r obtain nick where n: "if registry_of h nick \<noteq> None then registry_of h' = registry_of h
        else \<exists>i. fresh_id (registry_of h) i \<and> registry_of h' = (registry_of h)(nick \<mapsto> (i, {}))" by auto
    show ?thesis
    proof (cases "registry_of h nick = None")
      case True
      with n obtain i where "fresh_id (registry_of h) i" "registry_of h' = (registry_of h)(nick \<mapsto> (i, {}))" by auto
      then show ?thesis using reg_step.register[of "registry_of h" nick i] True by simp
    qed (use n in simp)
  next
    case False
    with r show ?thesis using change_buddies_steps by (auto split: if_splits)
  qed
qed

text \<open>The end of a connection logs the session's user out.\<close>

lemma registry_closed:
  assumes r: "reg_inv h"
  shows "registry_of (closed e s se ep h) =
    (case session_user h se of None \<Rightarrow> registry_of h | Some u \<Rightarrow> (registry_of h)(u_nick u := None))"
proof (cases "\<exists>ur u. se_user se = Some ur \<and> users h ur = Some u")
  case True
  then obtain ur u where u: "se_user se = Some ur" "users h ur = Some u" by blast
  have "registry_of (closed e s se ep h) n = ((registry_of h)(u_nick u := None)) n" for n
  proof -
    have "nick_umap h n = Some (Some ur) \<longleftrightarrow> n = u_nick u"
      using reg_inv_user(4)[OF r u(2)] reg_inv_nick[OF r, of n "Some ur"] u(2) by (metis option.inject)
    then show ?thesis using u by (auto simp: closed_def registry_of_def split: option.splits)
  qed
  then show ?thesis using u by (auto simp: session_user_def)
next
  case False
  then have "registry_of (closed e s se ep h) = registry_of h"
    by (intro registry_of_cong) (auto simp: closed_def Let_def split: option.splits)
  then show ?thesis using False by (auto simp: session_user_def split: option.splits)
qed

interpretation reg_rel: command_relation "\<lambda>h h'. reg_step\<^sup>*\<^sup>* (registry_of h) (registry_of h')" env for env
proof unfold_locales
  show "reg_step\<^sup>*\<^sup>* (registry_of k) (registry_of (closed e s se ep k))" if "srv_inv k" for k e s se ep
  proof -
    have r: "reg_inv k" using that by (simp add: srv_inv_def)
    have "reg_step (registry_of k) ((registry_of k)(u_nick u := None))" if "session_user k se = Some u" for u
      using that registry_of_user[OF r] by (auto simp: session_user_def split: option.splits intro: reg_step.logout)
    then show ?thesis by (auto simp: registry_closed[OF r] split: option.splits)
  qed
  show "reg_step\<^sup>*\<^sup>* (registry_of k) (registry_of k')" if "users k' = users k" "nick_umap k' = nick_umap k" for k k'
    using registry_of_cong[OF that(2,1)] by simp
qed (blast intro: rtranclp_trans handle_steps)+

interpretation registry: inductive_invariant "\<lambda>h. \<exists>ep fd. h = hub_listening ep fd" "cmd_step ntop env"
    "\<lambda>h. (srv_inv h \<and> backlog_ok h) \<and> reg_step\<^sup>*\<^sup>* Map.empty (registry_of h)" for ntop env
proof unfold_locales
  fix h assume i: "\<exists>ep fd. h = hub_listening ep fd"
  then have "registry_of h = Map.empty" by (auto simp: hub_listening_def hub_start_def registry_of_def fun_eq_iff)
  with i show "(srv_inv h \<and> backlog_ok h) \<and> reg_step\<^sup>*\<^sup>* Map.empty (registry_of h)" using cmd.init_inv by auto
next
  fix h h' assume s: "cmd_step ntop env h h'" "(srv_inv h \<and> backlog_ok h) \<and> reg_step\<^sup>*\<^sup>* Map.empty (registry_of h)"
  then show "(srv_inv h' \<and> backlog_ok h') \<and> reg_step\<^sup>*\<^sup>* Map.empty (registry_of h')"
    using cmd.step_inv[OF s(1)] reg_rel.step_in[OF s(1)] by (auto intro: rtranclp_trans)
qed

section \<open>The properties\<close>

text \<open>
  C7: every command implements its abstract meaning. Registering a nick that is online changes nothing,
  registering one that is not gives it an id nobody has, different from 0, and no buddies; adding and
  removing change only the buddies of the nick the session is logged in as, by exactly the listed names,
  and nothing for a session that is not logged in; every other package changes nothing.
\<close>

theorem commands_refine:
  assumes inv: "srv_inv h" and t: "getType pkg = Inr t" and run: "handle env pkg s h = Inr h'"
  shows "(if t = REGISTER_NICK then
       \<exists>nick. getDataStr pkg = Inr nick \<and>
         (if registry_of h nick \<noteq> None then registry_of h' = registry_of h
          else \<exists>i. fresh_id (registry_of h) i \<and> registry_of h' = (registry_of h)(nick \<mapsto> (i, {})))
     else registry_of h' =
       (if t = ADD_BUDDIES then change_buddies (session_nick h s) (\<lambda>B. B \<union> listed True pkg) (registry_of h)
        else if t = REMOVE_BUDDIES then change_buddies (session_nick h s) (\<lambda>B. B - listed False pkg) (registry_of h)
        else registry_of h))"
  by (rule handle_refines[OF assms])

theorem commands_refine_witness:
  "\<exists>h' i. handle env0 (pkg_of REGISTER_NICK [67]) 0 hub_client = Inr h' \<and> registry_of h' [67] = Some (i, {}) \<and>
     i \<noteq> 0 \<and> registry_of h' [65] = Some (1, {})"
proof -
  let ?s = "session_one\<lparr>se_user := Some 1\<rparr>" and ?k = "sock_one\<lparr>sk_host := Str [49], sk_port := Str [50]\<rparr>"
  have h: "nick_umap hub_client [67] = None" "sessions hub_client 0 = Some ?s" "socks hub_client (se_sock ?s) = Some ?k"
    "sk_tx ?k = []" by (simp_all add: hub_client_def)
  obtain h' where run: "handle env0 (pkg_of REGISTER_NICK [67]) 0 hub_client = Inr h'"
    using registerNick_run[OF hub_client_pkg(2) h hub_client_id, of env0] hub_client_pkg(1) by (auto simp: handle_def)
  have r: "registry_of hub_client [67] = None" "registry_of hub_client [65] = Some (1, {})"
    by (simp_all add: registry_of_def hub_client_def user_setters newUser_def)
  show ?thesis
    using commands_refine[OF hub_client_inv hub_client_pkg(1) run] hub_client_pkg(2) run r by (auto simp: fresh_id_def)
qed

text \<open>
  The command server implements the registry. From start-up on, whatever clients connect, send in
  whatever fragments, and disconnect, the registry that the server holds has come about from the
  empty one by registrations with fresh ids, changes of buddies and logouts, and every further step of the
  server is again a sequence of such changes.
\<close>

theorem command_server_refines:
  assumes "cmd_reachable ntop env h"
  shows "reg_step\<^sup>*\<^sup>* Map.empty (registry_of h) \<and>
    (\<forall>h'. cmd_step ntop env h h' \<longrightarrow> reg_step\<^sup>*\<^sup>* (registry_of h) (registry_of h'))"
  using registry.reach_inv[OF assms] reg_rel.step_in by blast

theorem command_server_refines_witness:
  "\<exists>h. cmd_reachable (\<lambda>_. [49]) env0 h \<and> evs h 4 \<noteq> None \<and> reg_step\<^sup>*\<^sup>* Map.empty (registry_of h)"
proof -
  obtain h where h: "cmd_reachable (\<lambda>_. [49]) env0 h"
    "evs h 4 = Some \<lparr>ev_fd = 5, ev_ptr = Some 3, ev_clbk = ClientSocketClbk\<rparr>"
    using reachable_client by blast
  with command_server_refines[OF h(1)] show ?thesis by (intro exI[of _ h]) simp
qed

end
