(* ===== verification/Gps_Server.thy ===== *)
theory Gps_Server
  imports Command_Sessions
begin

text \<open>
  \<open>src/src/server/GpsDataServer.cpp\<close>: the UDP channel. A datagram of 8 bytes registers a user's
  UDP address, one of 12 or 16 bytes carries a position; after every datagram (and on a
  timeout) acknowledgements that could not be sent earlier are tried again.

  The datagram \<open>recvfrom\<close> delivers, or its errno, is an argument. \<open>umap\<close> is the id map of the
  shared state.
\<close>

section \<open>Recvfrom, Sendto (Socket.cpp)\<close>

text \<open>A datagram longer than the buffer is cut off.\<close>

definition Socket_Recvfrom ::
  "int + byte list \<times> sockaddr_storage \<Rightarrow> mem \<Rightarrow> (mem \<times> nat \<times> sockaddr_storage) res" where
  "Socket_Recvfrom d buf =
     (case d of
        Inl e \<Rightarrow> Inl (Throw (SocketException e))
      | Inr (bs, a) \<Rightarrow>
          let bs = take (length buf) bs in
          bindF (store buf 0 (map Some bs)) (\<lambda>buf. Inr (buf, length bs, a)))"

text \<open>\<open>err\<close> is the errno of \<open>sendto\<close>; a datagram that is sent is recorded in \<open>udp_out\<close>.\<close>

definition Socket_Sendto :: "int option \<Rightarrow> mem \<Rightarrow> sockaddr_storage \<Rightarrow> hub \<Rightarrow> hub res" where
  "Socket_Sendto err bytes a h =
     (case err of
        Some e \<Rightarrow> Inl (Throw (SocketException e))
      | None \<Rightarrow> Inr (h\<lparr>udp_out := udp_out h @ [(a, bytes)]\<rparr>))"

section \<open>The acknowledgement of a registration\<close>

definition sendUdpInitAck :: "uref \<Rightarrow> byte \<Rightarrow> hub \<Rightarrow> hub res" where
  "sendUdpInitAck ur status h =
     bindF (CmdPkg_new INITIALIZE_UDP_ACK 4) (\<lambda>ack.
     bindF (setDataByte ack 0 status) (\<lambda>ack.
     bindF (deref (users h) (Some ur)) (\<lambda>u.
     bindF (deref (socks h) (u_sock u)) (\<lambda>sk.
     bindF (wire ack) (\<lambda>bytes.
     (case Socket_Send sk bytes of
        (SendOk _, sk') \<Rightarrow> Inr (h\<lparr>socks := (socks h)(the (u_sock u) \<mapsto> sk')\<rparr>)
      | (SendErr e, sk') \<Rightarrow>
          if e \<noteq> EWOULDBLOCK then Inl (Throw (SocketException e))
          else Inr (h\<lparr>socks := (socks h)(the (u_sock u) \<mapsto> sk'),
                      pending_cmd_queue := pending_cmd_queue h @ [(ack, the (u_sock u))]\<rparr>)))))))"

definition initAddrUdp :: "hub \<Rightarrow> hub res" where
  "initAddrUdp h =
     bindF (toint host_order (gps_buf h) 0) (\<lambda>ident.
     bindF (toint host_order (gps_buf h) 4) (\<lambda>token.
     let (up, m) = SyncHashMap_get (id_umap h) ident; h = h\<lparr>id_umap := m\<rparr> in
     (case up of
        None \<Rightarrow> Inr h
      | Some ur \<Rightarrow>
          bindF (deref (users h) (Some ur)) (\<lambda>u.
          (case u_token u of
             None \<Rightarrow> Inl (Undefined UninitRead)
           | Some tok \<Rightarrow>
               if token \<noteq> tok then sendUdpInitAck ur 0 h
               else
                 bindF (deref (socks h) (u_sock u)) (\<lambda>sk.
                 (case sk_addr sk of
                    None \<Rightarrow> Inl (Undefined UninitRead)
                  | Some a \<Rightarrow>
                      if \<not> ip_equals a (their_addr h) then sendUdpInitAck ur 0 h
                      else sendUdpInitAck ur 1
                             (h\<lparr>users := (users h)(ur \<mapsto> setAddrUdp u (their_addr h))\<rparr>))))))))"

section \<open>Pending acknowledgements\<close>

text \<open>The loop of \<open>sendPendingCmd\<close>: the entries that stay on the list, and the state.\<close>

fun pending_loop :: "(CmdPkg \<times> sref) list \<Rightarrow> hub \<Rightarrow> ((CmdPkg \<times> sref) list \<times> hub) res" where
  "pending_loop [] h = Inr ([], h)"
| "pending_loop ((p, r) # ps) h =
     bindF (deref (socks h) (Some r)) (\<lambda>sk.
     bindF (wire p) (\<lambda>bytes.
     (case Socket_Send sk bytes of
        (SendOk _, sk') \<Rightarrow> pending_loop ps (h\<lparr>socks := (socks h)(r \<mapsto> sk')\<rparr>)
      | (SendErr e, sk') \<Rightarrow>
          if e \<noteq> EWOULDBLOCK then Inl (Throw (SocketException e))
          else bindF (pending_loop ps (h\<lparr>socks := (socks h)(r \<mapsto> sk')\<rparr>))
                 (\<lambda>(q, h). Inr ((p, r) # q, h)))))"

definition sendPendingCmd :: "hub \<Rightarrow> hub res" where
  "sendPendingCmd h =
     bindF (pending_loop (pending_cmd_queue h) h) (\<lambda>(q, h). Inr (h\<lparr>pending_cmd_queue := q\<rparr>))"

section \<open>Positions\<close>

definition otherSlot :: "slot \<Rightarrow> slot" where
  "otherSlot s = (case s of Slot1 \<Rightarrow> Slot2 | Slot2 \<Rightarrow> Slot1)"

definition processCoordinates :: "nat \<Rightarrow> hub \<Rightarrow> hub res" where
  "processCoordinates n h =
     bindF (touint host_order (gps_buf h) 0) (\<lambda>ident.
     let (up, m) = SyncHashMap_get (id_umap h) ident; h = h\<lparr>id_umap := m\<rparr> in
     (case up of
        None \<Rightarrow> Inr h
      | Some ur \<Rightarrow>
          bindF (deref (users h) (Some ur)) (\<lambda>u.
          (case u_addr_udp u of
             None \<Rightarrow> Inl (Undefined UninitRead)
           | Some a \<Rightarrow>
               if \<not> socket_equals (their_addr h) a then Inr h
               else
                 bindF (toint host_order (gps_buf h) 4) (\<lambda>lon.
                 bindF (toint host_order (gps_buf h) 8) (\<lambda>lat.
                 bindF (if n = 16 then toint host_order (gps_buf h) 12 else Inr 0) (\<lambda>alt.
                 let u = setSlot u (u_empty u) \<lparr>longitude = lon, latitude = lat, altitude = alt\<rparr> in
                 if u_ready u = None then
                   let u = setReady u (Some (u_empty u));
                       u = setEmpty u (otherSlot (u_empty u)) in
                   Inr (h\<lparr>users := (users h)(ur \<mapsto> u), uqueue := uqueue h @ [ident]\<rparr>)
                 else Inr (h\<lparr>users := (users h)(ur \<mapsto> u)\<rparr>))))))))"

definition gps_incomingData :: "int + byte list \<times> sockaddr_storage \<Rightarrow> hub \<Rightarrow> hub res" where
  "gps_incomingData d h =
     bindF (Socket_Recvfrom d (gps_buf h)) (\<lambda>(buf, n, a).
     let h = h\<lparr>gps_buf := buf, their_addr := a\<rparr> in
     bindF (if n = 12 \<or> n = 16 then processCoordinates n h
            else if n = 8 then initAddrUdp h
            else Inr h) sendPendingCmd)"

text \<open>
  \<open>GpsDataServer::loop\<close>: the epoll object is made for one descriptor, with a timeout of five
  seconds whose callback is \<open>sendPendingCmd\<close>. No callback is set for the end of an event; the
  pointer is then indeterminate.
\<close>

text \<open>
  The datagrams waiting at the socket are \<open>gl_inbox\<close>; the socket is left in blocking mode, so
  \<open>recvfrom\<close> with nothing to read does not return.
\<close>

record gps_loop_state =
  gl_hub :: hub
  gl_epl :: Epoll
  gl_inbox :: "(int + byte list \<times> sockaddr_storage) list"

definition gps_clbk :: "evref \<Rightarrow> evref \<Rightarrow> i32 \<Rightarrow> gps_loop_state \<Rightarrow> gps_loop_state res" where
  "gps_clbk server_event ev events g =
     (if ev = server_event then
        (case gl_inbox g of
           [] \<Rightarrow> Inl Diverge
         | d # ds \<Rightarrow> bindF (gps_incomingData d (gl_hub g)) (\<lambda>h. Inr (g\<lparr>gl_hub := h, gl_inbox := ds\<rparr>)))
      else Inr g)"

definition gps_body :: "evref \<Rightarrow> int \<Rightarrow> int + int \<Rightarrow> evref \<Rightarrow> i32 \<Rightarrow> gps_loop_state \<Rightarrow> gps_loop_state res" where
  "gps_body server_event fd pipe =
     Epoll_body gl_epl
       (\<lambda>ev g. Inr (if ev = server_event then fd else ep_stop_fd (gl_epl g)))
       (\<lambda>_ _ _. Inl (Undefined UninitRead))
       (\<lambda>g. bindF (removeEvent (gl_epl g) (ep_stop_fd (gl_epl g))) (\<lambda>ep.
            bindF (initStopPipe pipe ep) (\<lambda>ep. Inr (g\<lparr>gl_epl := ep\<rparr>))))
       (gps_clbk server_event)"

definition GpsDataServer_run ::
  "evref \<Rightarrow> int \<Rightarrow> int + int \<Rightarrow> wait_res list \<Rightarrow> gps_loop_state \<Rightarrow> gps_loop_state res" where
  "GpsDataServer_run server_event fd pipe =
     Epoll_loop gl_epl (\<lambda>ep g. g\<lparr>gl_epl := ep\<rparr>)
       (Some (\<lambda>g. bindF (sendPendingCmd (gl_hub g)) (\<lambda>h. Inr (g\<lparr>gl_hub := h\<rparr>))))
       (gps_body server_event fd pipe)"

definition GpsDataServer_loop ::
  "int + int \<Rightarrow> wait_res list \<Rightarrow> int + addrinfo list \<Rightarrow> int option \<Rightarrow> Socket \<Rightarrow>
   (int + byte list \<times> sockaddr_storage) list \<Rightarrow> hub \<Rightarrow> gps_loop_state option res" where
  "GpsDataServer_loop pipe ws gai create_err udpSocket inbox h =
     (case Socket_Bind gai udpSocket of
        (Some _, _, _) \<Rightarrow> Inl (Throw (SocketException 0))
      | (None, sk, _) \<Rightarrow>
          bindF (Epoll_new 1 create_err pipe (next_ref h)) (\<lambda>ep.
          let ep = setTimeout ep 5000; e = next_ref h + 1 in
          bindF (addEvent ep (sockfd sk) e (or EPOLLIN EPOLLET)) (\<lambda>ep.
          (case GpsDataServer_run e (sockfd sk) pipe ws
                  \<lparr>gl_hub = h\<lparr>next_ref := next_ref h + 2\<rparr>, gl_epl = ep, gl_inbox = inbox\<rparr> of
             Inl (Throw (EpollException x)) \<Rightarrow> Inr None
           | Inl x \<Rightarrow> Inl x
           | Inr g \<Rightarrow> Inr (Some g)))))"

definition GpsDataServer_stop :: "int option \<Rightarrow> Epoll \<Rightarrow> Epoll \<times> unit res" where
  "GpsDataServer_stop close_err ep = (Epoll_stop ep, Socket_Close close_err)"

section \<open>Lemmas\<close>

lemma Recvfrom_ok:
  assumes "length bs \<le> length buf"
  shows "Socket_Recvfrom (Inr (bs, a)) buf = Inr (map Some bs @ drop (length bs) buf, length bs, a)"
  using assms by (simp add: Socket_Recvfrom_def store_def)

text \<open>The integer at a position of a datagram.\<close>

lemma toint_datagram:
  assumes "length pre = i"
  shows "toint e (map Some (pre @ be32 v @ post) @ rest) i = Inr v"
proof -
  have "load (map Some (pre @ be32 v @ post) @ rest) i 4 = Inr (be32 v)"
    using assms by (simp add: load_Inr)
  then show ?thesis by (simp add: net_simps)
qed

lemma touint_toint: "touint e buf i = toint e buf i"
  by (simp add: net_simps)

lemma sendPendingCmd_empty: "pending_cmd_queue h = [] \<Longrightarrow> sendPendingCmd h = Inr h"
  by (simp add: sendPendingCmd_def)

definition udp_ack_bytes :: "byte \<Rightarrow> byte list" where
  "udp_ack_bytes status = [106, 0, 4, status]"

lemma udp_ack_pkg:
  "CmdPkg_new INITIALIZE_UDP_ACK 4 = Inr (mk_pkg INITIALIZE_UDP_ACK 4 [None])"
  "setDataByte (mk_pkg INITIALIZE_UDP_ACK 4 [None]) 0 c = Inr (mk_pkg INITIALIZE_UDP_ACK 4 [Some c])"
  "wire (mk_pkg INITIALIZE_UDP_ACK 4 [Some c]) = Inr (map Some (udp_ack_bytes c))"
  using CmdPkg_new_pkg[of 4 1 INITIALIZE_UDP_ACK]
  by (simp_all add: pkg_ops wire_pkg be16_numerals pkg_type_defs udp_ack_bytes_def)

lemma sendUdpInitAck_ok:
  assumes "users h r = Some u" "u_sock u = Some q" "socks h q = Some sk" "sk_tx sk = []"
  shows "sendUdpInitAck r c h =
    Inr (h\<lparr>socks := (socks h)(q \<mapsto> sk\<lparr>sk_out := sk_out sk @ map Some (udp_ack_bytes c)\<rparr>)\<rparr>)"
  using assms by (simp add: sendUdpInitAck_def udp_ack_pkg Socket_Send_all)

lemma get_live: "m i = Some (Some r) \<Longrightarrow> SyncHashMap_get m i = (Some r, m)"
  by (simp add: SyncHashMap_get_def)

lemma get_unknown: "m i = None \<Longrightarrow> SyncHashMap_get m i = (None, m(i \<mapsto> None))"
  by (simp add: SyncHashMap_get_def)

lemma id_umap_idem: "h\<lparr>id_umap := id_umap h\<rparr> = h"
  by simp

lemma initAddrUdp_eq:
  assumes "toint host_order (gps_buf h) 0 = Inr i" "toint host_order (gps_buf h) 4 = Inr t"
    and "id_umap h i = Some (Some r)" "users h r = Some u" "u_token u = Some tok" "u_sock u = Some q"
    and "socks h q = Some sk" "sk_addr sk = Some tcp"
  shows "initAddrUdp h =
    (if t = tok \<and> ip_equals tcp (their_addr h)
     then sendUdpInitAck r 1 (h\<lparr>users := (users h)(r \<mapsto> setAddrUdp u (their_addr h))\<rparr>)
     else sendUdpInitAck r 0 h)"
  using assms get_live[of "id_umap h" i r] by (simp add: initAddrUdp_def id_umap_idem)

definition located :: "uref \<Rightarrow> User \<Rightarrow> i32 \<Rightarrow> Coordinates \<Rightarrow> hub \<Rightarrow> hub" where
  "located r u i c h =
     (if u_ready u = None
      then h\<lparr>users := (users h)(r \<mapsto> setEmpty (setReady (setSlot u (u_empty u) c) (Some (u_empty u)))
                (otherSlot (u_empty u))), uqueue := uqueue h @ [i]\<rparr>
      else h\<lparr>users := (users h)(r \<mapsto> setSlot u (u_empty u) c)\<rparr>)"

lemma processCoordinates_eq:
  assumes "toint host_order (gps_buf h) 0 = Inr i" "toint host_order (gps_buf h) 4 = Inr lon"
    "toint host_order (gps_buf h) 8 = Inr lat" "(if n = 16 then toint host_order (gps_buf h) 12 else Inr 0) = Inr z"
    and "id_umap h i = Some (Some r)" "users h r = Some u" "u_addr_udp u = Some a0"
  shows "processCoordinates n h =
    (if socket_equals (their_addr h) a0
     then Inr (located r u i \<lparr>longitude = lon, latitude = lat, altitude = z\<rparr> h) else Inr h)"
  using assms get_live[of "id_umap h" i r]
  by (auto simp: processCoordinates_def touint_toint id_umap_idem located_def setReady_def Let_def)

section \<open>Registering a UDP address\<close>

text \<open>What a registration datagram does, before it is spelt out.\<close>

lemma initAddrUdp_run:
  assumes "id_umap h i = Some (Some r)" "users h r = Some u" "u_token u = Some tok" "u_sock u = Some q"
    and "socks h q = Some sk" "sk_tx sk = []" "sk_addr sk = Some tcp"
    and "length (gps_buf h) = BUF_LEN" "pending_cmd_queue h = []"
    and ok: "ok = (t = tok \<and> ip_equals tcp a)"
  shows "gps_incomingData (Inr (be32 i @ be32 t, a)) h = Inr (h\<lparr>gps_buf := map Some (be32 i @ be32 t) @ drop 8 (gps_buf h),
    their_addr := a, users := (if ok then (users h)(r \<mapsto> setAddrUdp u a) else users h),
    socks := (socks h)(q \<mapsto> sk\<lparr>sk_out := sk_out sk @ map Some (udp_ack_bytes (if ok then 1 else 0))\<rparr>)\<rparr>)"
proof -
  let ?buf = "map Some (be32 i @ be32 t) @ drop 8 (gps_buf h)"
  let ?h = "h\<lparr>gps_buf := ?buf, their_addr := a\<rparr>"
  have rf: "Socket_Recvfrom (Inr (be32 i @ be32 t, a)) (gps_buf h) = Inr (?buf, 8, a)"
    using Recvfrom_ok[of "be32 i @ be32 t" "gps_buf h" a] assms(8) by (simp add: BUF_LEN_def)
  have ld: "toint host_order ?buf 0 = Inr i" "toint host_order ?buf 4 = Inr t"
    using toint_datagram[of "[]" 0 host_order i "be32 t" "drop 8 (gps_buf h)"]
      toint_datagram[of "be32 i" 4 host_order t "[]" "drop 8 (gps_buf h)"] by simp_all
  let ?u = "setAddrUdp u a"
  let ?h1 = "if ok then ?h\<lparr>users := (users h)(r \<mapsto> ?u)\<rparr> else ?h"
  let ?h2 = "?h1\<lparr>socks := (socks h)(q \<mapsto> sk\<lparr>sk_out := sk_out sk @ map Some (udp_ack_bytes (if ok then 1 else 0))\<rparr>)\<rparr>"
  have ack: "sendUdpInitAck r (if ok then 1 else 0) ?h1 = Inr ?h2"
    using assms(1-6) by (cases ok) (simp_all add: sendUdpInitAck_ok setAddrUdp_def)
  have "initAddrUdp ?h = sendUdpInitAck r (if ok then 1 else 0) ?h1"
    using initAddrUdp_eq[of ?h i t r u tok q sk tcp] ld assms(1-5,7) unfolding ok by simp
  with rf ack have "gps_incomingData (Inr (be32 i @ be32 t, a)) h = sendPendingCmd ?h2"
    by (simp add: gps_incomingData_def)
  also have "\<dots> = Inr ?h2" using assms(9) by (intro sendPendingCmd_empty) simp
  finally show ?thesis by (cases ok) simp_all
qed

text \<open>
  C17: the registration datagram of a logged-in user whose TCP socket accepts data. The user's
  UDP address is set to the sender's address exactly if the token is the one the server sent
  over TCP and the IP address is that of the TCP connection; then the user also counts as
  ready for UDP. Otherwise no user changes. In both cases exactly one acknowledgement goes to
  the user's TCP socket, with status 1 or 0, and nothing else of the registry changes.
\<close>

theorem initAddrUdp_spec:
  assumes "id_umap h i = Some (Some r)" "users h r = Some u" "u_token u = Some tok" "u_sock u = Some q"
    and "socks h q = Some sk" "sk_tx sk = []" "sk_addr sk = Some tcp"
    and "length (gps_buf h) = BUF_LEN" "pending_cmd_queue h = []"
  shows "\<exists>h'. gps_incomingData (Inr (be32 i @ be32 t, a)) h = Inr h' \<and>
    (let ok = (t = tok \<and> ip_equals tcp a) in
     users h' = (if ok then (users h)(r \<mapsto> u\<lparr>u_addr_udp := Some a, u_udp_ready := True\<rparr>) else users h) \<and>
     socks h' = (socks h)(q \<mapsto> sk\<lparr>sk_out := sk_out sk @ map Some (udp_ack_bytes (if ok then 1 else 0))\<rparr>) \<and>
     id_umap h' = id_umap h \<and> nick_umap h' = nick_umap h \<and> uqueue h' = uqueue h \<and>
     pending_cmd_queue h' = [] \<and> udp_out h' = udp_out h)"
  using initAddrUdp_run[OF assms refl, of t a] assms(9) by (auto simp: Let_def setAddrUdp_def)

section \<open>Positions\<close>

text \<open>What a position datagram of a registered user does, before it is spelt out.\<close>

lemma position_run:
  assumes "id_umap h i = Some (Some r)" "users h r = Some u" "u_addr_udp u = Some a0"
    and "length (gps_buf h) = BUF_LEN" "pending_cmd_queue h = []"
    and bs: "bs = be32 i @ be32 lon @ be32 lat @ (case alt of None \<Rightarrow> [] | Some z \<Rightarrow> be32 z)"
  shows "gps_incomingData (Inr (bs, a)) h =
    (let h0 = h\<lparr>gps_buf := map Some bs @ drop (length bs) (gps_buf h), their_addr := a\<rparr> in
     Inr (if socket_equals a a0
          then located r u i \<lparr>longitude = lon, latitude = lat, altitude = (case alt of None \<Rightarrow> 0 | Some z \<Rightarrow> z)\<rparr> h0
          else h0))"
proof -
  let ?n = "length bs"
  let ?rest = "drop ?n (gps_buf h)"
  let ?buf = "map Some bs @ ?rest"
  let ?h = "h\<lparr>gps_buf := ?buf, their_addr := a\<rparr>"
  let ?z = "case alt of None \<Rightarrow> 0 | Some z \<Rightarrow> z"
  have n: "?n = (if alt = None then 12 else 16)" by (simp add: bs split: option.splits)
  then have rf: "Socket_Recvfrom (Inr (bs, a)) (gps_buf h) = Inr (?buf, ?n, a)"
    using assms(4) by (intro Recvfrom_ok) (simp add: BUF_LEN_def)
  have ld: "touint host_order ?buf 0 = Inr i" "toint host_order ?buf 4 = Inr lon" "toint host_order ?buf 8 = Inr lat"
    using toint_datagram[of "[]" 0 host_order i "be32 lon @ be32 lat @ (case alt of None \<Rightarrow> [] | Some z \<Rightarrow> be32 z)" ?rest]
      toint_datagram[of "be32 i" 4 host_order lon "be32 lat @ (case alt of None \<Rightarrow> [] | Some z \<Rightarrow> be32 z)" ?rest]
      toint_datagram[of "be32 i @ be32 lon" 8 host_order lat "case alt of None \<Rightarrow> [] | Some z \<Rightarrow> be32 z" ?rest]
    by (simp_all add: bs touint_toint)
  have alt: "(if ?n = 16 then toint host_order ?buf 12 else Inr 0) = (Inr ?z :: i32 res)"
    using n toint_datagram[of "be32 i @ be32 lon @ be32 lat" 12 host_order ?z "[]" ?rest]
    by (cases alt) (simp_all add: bs)
  let ?c = "\<lparr>longitude = lon, latitude = lat, altitude = ?z\<rparr>"
  let ?h' = "if socket_equals a a0 then located r u i ?c ?h else ?h"
  have "processCoordinates ?n ?h = (if socket_equals (their_addr ?h) a0 then Inr (located r u i ?c ?h) else Inr ?h)"
    by (rule processCoordinates_eq) (use ld alt assms(1-3) in \<open>simp_all add: touint_toint cong: if_cong split del: if_split\<close>)
  then have pc: "processCoordinates ?n ?h = Inr ?h'" by simp
  have sp: "sendPendingCmd ?h' = Inr ?h'"
    using assms(5) by (intro sendPendingCmd_empty) (simp add: located_def)
  have nn: "(?n = 12 \<or> ?n = 16) = True" using n by simp
  show ?thesis
    unfolding gps_incomingData_def rf by (simp only: bindF.simps split_conv Let_def nn if_True pc sp)
qed

text \<open>
  C18: a position datagram (12 bytes, or 16 with an altitude) for a user with a registered UDP
  address. From any other address or port it changes no user and queues nothing. From the
  registered one it writes exactly the position of the datagram (altitude 0 when absent) to
  the empty slot and keeps the other slot; when no broadcast is outstanding (\<open>ready\<close> is null) the
  written slot becomes the ready one, the other the empty one and the id is queued once,
  otherwise slots and queue stay.
\<close>

theorem position_spec:
  assumes "id_umap h i = Some (Some r)" "users h r = Some u" "u_addr_udp u = Some a0"
    and "length (gps_buf h) = BUF_LEN" "pending_cmd_queue h = []"
    and bs: "bs = be32 i @ be32 lon @ be32 lat @ (case alt of None \<Rightarrow> [] | Some z \<Rightarrow> be32 z)"
  shows "\<exists>h'. gps_incomingData (Inr (bs, a)) h = Inr h' \<and>
    id_umap h' = id_umap h \<and> nick_umap h' = nick_umap h \<and> socks h' = socks h \<and> udp_out h' = udp_out h \<and>
    (if \<not> socket_equals a a0 then users h' = users h \<and> uqueue h' = uqueue h
     else \<exists>u'. users h' = (users h)(r \<mapsto> u') \<and> u_id u' = u_id u \<and> u_nick u' = u_nick u \<and>
       u_buddies u' = u_buddies u \<and> u_addr_udp u' = u_addr_udp u \<and>
       slotOf u' (u_empty u) = \<lparr>longitude = lon, latitude = lat, altitude = (case alt of None \<Rightarrow> 0 | Some z \<Rightarrow> z)\<rparr> \<and>
       slotOf u' (otherSlot (u_empty u)) = slotOf u (otherSlot (u_empty u)) \<and>
       (if u_ready u = None
        then u_ready u' = Some (u_empty u) \<and> u_empty u' = otherSlot (u_empty u) \<and> uqueue h' = uqueue h @ [i]
        else u_ready u' = u_ready u \<and> u_empty u' = u_empty u \<and> uqueue h' = uqueue h))"
proof -
  let ?h = "h\<lparr>gps_buf := map Some bs @ drop (length bs) (gps_buf h), their_addr := a\<rparr>"
  let ?c = "\<lparr>longitude = lon, latitude = lat, altitude = (case alt of None \<Rightarrow> 0 | Some z \<Rightarrow> z)\<rparr>"
  let ?h' = "if socket_equals a a0 then located r u i ?c ?h else ?h"
  have run: "gps_incomingData (Inr (bs, a)) h = Inr ?h'"
    using position_run[OF assms(1-5) bs, of a] by (simp only: Let_def)
  have other: "otherSlot s \<noteq> s" for s by (cases s) (simp_all add: otherSlot_def)
  have slots: "slotOf (setEmpty (setReady v x) y) t = slotOf v t" for v x y t
    by (cases t) (simp_all add: setEmpty_def setReady_def)
  show ?thesis
  proof (cases "socket_equals a a0")
    case False
    then show ?thesis using run by (intro exI[of _ ?h']) simp
  next
    case True
    let ?v = "setSlot u (u_empty u) ?c"
    let ?u' = "if u_ready u = None then setEmpty (setReady ?v (Some (u_empty u))) (otherSlot (u_empty u)) else ?v"
    have f: "users ?h' = (users h)(r \<mapsto> ?u')" "id_umap ?h' = id_umap h" "nick_umap ?h' = nick_umap h"
      "socks ?h' = socks h" "udp_out ?h' = udp_out h" "uqueue ?h' = (if u_ready u = None then uqueue h @ [i] else uqueue h)"
      using True by (simp_all add: located_def)
    have g: "u_id ?u' = u_id u" "u_nick ?u' = u_nick u" "u_buddies ?u' = u_buddies u" "u_addr_udp ?u' = u_addr_udp u"
      "slotOf ?u' (u_empty u) = ?c" "slotOf ?u' (otherSlot (u_empty u)) = slotOf u (otherSlot (u_empty u))"
      "u_ready ?u' = (if u_ready u = None then Some (u_empty u) else u_ready u)"
      "u_empty ?u' = (if u_ready u = None then otherSlot (u_empty u) else u_empty u)"
      using other[of "u_empty u"] by (simp_all add: slots) (simp_all add: setEmpty_def setReady_def)
    have "\<not> \<not> socket_equals a a0" using True by simp
    show ?thesis
      by (intro exI[of _ ?h'] conjI run f(2-5), simp only: if_not_P[OF \<open>\<not> \<not> socket_equals a a0\<close>])
        (intro exI[of _ ?u'] conjI f(1) g(1-6), simp only: f g, simp)
  qed
qed

section \<open>Senders that are not registered\<close>

text \<open>
  C38: a datagram with an id nobody has. Whatever its kind and wherever it comes from, no user,
  socket or queue changes; but the lookup leaves a null entry for the id in the id map, so the
  id generator never hands out that id again: every datagram with an unknown id takes one id
  out of circulation.
\<close>

theorem unknown_id_spec:
  assumes "id_umap h i = None" "length (gps_buf h) = BUF_LEN" "pending_cmd_queue h = []"
    and bs: "bs = be32 i @ tail" "length bs \<in> {8, 12, 16}"
  shows "\<exists>h'. gps_incomingData (Inr (bs, a)) h = Inr h' \<and>
    users h' = users h \<and> socks h' = socks h \<and> sessions h' = sessions h \<and> nick_umap h' = nick_umap h \<and>
    uqueue h' = uqueue h \<and> udp_out h' = udp_out h \<and> id_umap h' = (id_umap h)(i \<mapsto> None) \<and>
    (\<forall>c j c'. generate (id_umap h') c = Some (j, c') \<longrightarrow> j \<noteq> i)"
proof -
  let ?rest = "drop (length bs) (gps_buf h)"
  let ?buf = "map Some bs @ ?rest"
  let ?h = "h\<lparr>gps_buf := ?buf, their_addr := a\<rparr>"
  let ?h' = "?h\<lparr>id_umap := (id_umap h)(i \<mapsto> None)\<rparr>"
  have rf: "Socket_Recvfrom (Inr (bs, a)) (gps_buf h) = Inr (?buf, length bs, a)"
    using bs(2) assms(2) by (intro Recvfrom_ok) (auto simp: BUF_LEN_def)
  have i: "toint host_order ?buf 0 = Inr i"
    using toint_datagram[of "[]" 0 host_order i tail ?rest] by (simp add: bs(1))
  have g: "SyncHashMap_get (id_umap h) i = (None, (id_umap h)(i \<mapsto> None))"
    using assms(1) by (rule get_unknown)
  have pc: "processCoordinates n ?h = Inr ?h'" for n
    using i g by (simp add: processCoordinates_def touint_toint)
  have ia: "initAddrUdp ?h = Inr ?h'" if "length bs = 8"
  proof -
    have "length tail = 4" using that by (simp add: bs(1))
    then have "toint host_order ?buf 4 = Inr (val32 tail)"
      using toint_datagram[of "be32 i" 4 host_order "val32 tail" "[]" ?rest] by (simp add: bs(1) be32_val32)
    with i g show ?thesis by (simp add: initAddrUdp_def)
  qed
  have run: "gps_incomingData (Inr (bs, a)) h = Inr ?h'"
    unfolding gps_incomingData_def rf using pc ia bs(2) assms(3) by (auto simp: sendPendingCmd_empty)
  have "j \<noteq> i" if "generate (id_umap ?h') c = Some (j, c')" for c j c'
    using generate_loop_result[OF that[unfolded generate_def]] by (auto simp: free_id_def)
  with run show ?thesis by (intro exI[of _ ?h']) simp
qed

text \<open>
  A position before the UDP address is registered. The address of a user is not set by the
  constructor of \<open>User\<close> and the handler compares the sender with it without asking whether
  UDP is ready: for every logged-in user that has not yet registered an address, a position
  datagram with that user's id, from anywhere, makes the server read an uninitialised address.
\<close>

theorem position_before_init:
  assumes "id_umap h i = Some (Some r)" "users h r = Some u" "u_addr_udp u = None"
    and "length (gps_buf h) = BUF_LEN" and bs: "bs = be32 i @ tail" "length bs = 12 \<or> length bs = 16"
  shows "gps_incomingData (Inr (bs, a)) h = Inl (Undefined UninitRead)"
proof -
  let ?rest = "drop (length bs) (gps_buf h)"
  let ?buf = "map Some bs @ ?rest"
  have rf: "Socket_Recvfrom (Inr (bs, a)) (gps_buf h) = Inr (?buf, length bs, a)"
    using bs(2) assms(4) by (intro Recvfrom_ok) (auto simp: BUF_LEN_def)
  have "toint host_order ?buf 0 = Inr i"
    using toint_datagram[of "[]" 0 host_order i tail ?rest] by (simp add: bs(1))
  then have "processCoordinates (length bs) (h\<lparr>gps_buf := ?buf, their_addr := a\<rparr>) = Inl (Undefined UninitRead)"
    using assms(1-3) get_live[of "id_umap h" i r] by (simp add: processCoordinates_def touint_toint)
  then show ?thesis unfolding gps_incomingData_def rf using bs(2) by auto
qed

section \<open>Witnesses\<close>

lemma hub_two_gps: "length (gps_buf hub_two) = BUF_LEN"
  by (simp add: hub_two_def hub_one_def hub_start_def)

theorem initAddrUdp_spec_witness:
  "\<exists>h'. gps_incomingData (Inr (be32 1 @ be32 77, no_addr)) hub_two = Inr h' \<and>
     users h' 1 = Some ((setToken (setSockPtr (newUser 1 [65]) (Some 0)) 77)
       \<lparr>u_addr_udp := Some no_addr, u_udp_ready := True\<rparr>)"
proof -
  have ip: "ip_equals no_addr no_addr" by (simp add: ip_equals_def)
  show ?thesis
    using initAddrUdp_spec[OF _ _ _ _ _ _ _ hub_two_gps, of 1 1
        "setToken (setSockPtr (newUser 1 [65]) (Some 0)) 77" 77 0 sock_one no_addr 77 no_addr] ip
    by (auto simp: user_setters newUser_def Let_def)
qed

theorem position_spec_witness:
  "\<exists>h'. gps_incomingData (Inr (be32 2 @ be32 10 @ be32 20 @ [], no_addr))
       (hub_two\<lparr>users := (users hub_two)(2 \<mapsto> setAddrUdp (newUser 2 [66]) no_addr)\<rparr>) = Inr h' \<and> uqueue h' = [2]"
proof -
  let ?h = "hub_two\<lparr>users := (users hub_two)(2 \<mapsto> setAddrUdp (newUser 2 [66]) no_addr)\<rparr>"
  have eq: "socket_equals no_addr no_addr" by (simp add: socket_equals_def)
  have len: "length (gps_buf ?h) = BUF_LEN" using hub_two_gps by simp
  show ?thesis
    using position_spec[OF _ _ _ len, of 2 2 "setAddrUdp (newUser 2 [66]) no_addr" no_addr
        "be32 2 @ be32 10 @ be32 20 @ []" 10 20 None no_addr] eq
    by (auto simp: user_setters newUser_def)
qed

theorem unknown_id_spec_witness:
  "\<exists>h'. gps_incomingData (Inr (be32 9 @ [0, 0, 0, 0], no_addr)) hub_two = Inr h' \<and> id_umap h' 9 = Some None"
  using unknown_id_spec[OF _ hub_two_gps, of 9 "be32 9 @ [0, 0, 0, 0]" "[0, 0, 0, 0]" no_addr] by auto

theorem position_before_init_witness:
  "gps_incomingData (Inr (be32 2 @ replicate 8 0, no_addr)) hub_two = Inl (Undefined UninitRead)"
  by (rule position_before_init[OF _ _ _ hub_two_gps, of 2 2 "newUser 2 [66]" _ "replicate 8 0"])
    (simp_all add: newUser_def)

end
