(* ===== verification/Broadcast.thy ===== *)
theory Broadcast
  imports Gps_Server
begin

text \<open>
  \<open>src/src/hubthread/CoordsBroadcastThread.cpp\<close>: the threads that take user ids from the queue
  and send the user's position to every buddy that is online.

  \<open>err\<close> gives the errno \<open>sendto\<close> fails with for an address, if it does. A thread owns the
  16-byte buffer \<open>buf\<close>. The buddies are visited in the order of the list that models the hash
  set; the order is unspecified in the code and no theorem depends on it.
\<close>

section \<open>broadcast\<close>

definition BCAST_BUF_LEN :: nat where "BCAST_BUF_LEN = 16"

text \<open>The body of the loop, for the copy \<open>u\<close> of the user's fields and the nick of a buddy.\<close>

definition broadcastTo ::
  "(sockaddr_storage \<Rightarrow> int option) \<Rightarrow> User \<Rightarrow> Coordinates \<Rightarrow> cstring \<Rightarrow> mem \<times> hub \<Rightarrow> (mem \<times> hub) res" where
  "broadcastTo err u coords nick st =
     (case st of (buf, h) \<Rightarrow>
      if SyncHashMap_count (nick_umap h) nick > 0 then
        let (bp, m) = SyncHashMap_get (nick_umap h) nick; h = h\<lparr>nick_umap := m\<rparr> in
        bindF (deref (users h) bp) (\<lambda>buddy.
        if \<not> u_udp_ready buddy then Inr (buf, h)
        else
          bindF (tobytes32 host_order buf 0 (u_id u)) (\<lambda>buf.
          bindF (tobytes32 host_order buf 4 (longitude coords)) (\<lambda>buf.
          bindF (tobytes32 host_order buf 8 (latitude coords)) (\<lambda>buf.
          bindF (if sint (altitude coords) > 0
                 then bindF (tobytes32 host_order buf 12 (altitude coords)) (\<lambda>buf. Inr (buf, 16))
                 else Inr (buf, 12)) (\<lambda>(buf, pkg_len).
          (case u_addr_udp buddy of
             None \<Rightarrow> Inl (Undefined UninitRead)
           | Some a \<Rightarrow> bindF (Socket_Sendto (err a) (take pkg_len buf) a h) (\<lambda>h. Inr (buf, h))))))))
      else Inr (buf, h))"

definition broadcast ::
  "(sockaddr_storage \<Rightarrow> int option) \<Rightarrow> uref \<Rightarrow> Coordinates \<Rightarrow> mem \<Rightarrow> hub \<Rightarrow> (mem \<times> hub) res" where
  "broadcast err ur coords buf h =
     bindF (deref (users h) (Some ur)) (\<lambda>u.
     foldF (broadcastTo err u coords) (u_buddies u) (buf, h))"

section \<open>run, stop\<close>

text \<open>One round of the loop of \<open>run\<close>, with \<open>ident\<close> the id that \<open>pull\<close> returned.\<close>

definition bcast_round :: "(sockaddr_storage \<Rightarrow> int option) \<Rightarrow> i32 \<Rightarrow> mem \<Rightarrow> hub \<Rightarrow> (mem \<times> hub) res" where
  "bcast_round err ident buf h =
     (let (up, m) = SyncHashMap_get (id_umap h) ident; h = h\<lparr>id_umap := m\<rparr> in
      (case up of
         None \<Rightarrow> Inr (buf, h)
       | Some ur \<Rightarrow>
           bindF (deref (users h) (Some ur)) (\<lambda>u.
           (case u_ready u of
              None \<Rightarrow> Inr (buf, h)
            | Some s \<Rightarrow>
                let coordsCopy = slotOf u s in
                bindF (broadcast err ur coordsCopy buf h) (\<lambda>(buf, h).
                bindF (deref (users h) (Some ur)) (\<lambda>u.
                Inr (buf, h\<lparr>users := (users h)(ur \<mapsto> setReady u None)\<rparr>)))))))"

text \<open>
  \<open>run\<close>, for the values the flag \<open>loop\<close> has when it is tested. With an empty queue \<open>pull\<close> waits,
  and the run so far is the result.
\<close>

fun bcast_run :: "(sockaddr_storage \<Rightarrow> int option) \<Rightarrow> bool list \<Rightarrow> mem \<Rightarrow> hub \<Rightarrow> (mem \<times> hub) res" where
  "bcast_run err [] buf h = Inr (buf, h)"
| "bcast_run err (False # fs) buf h = Inr (buf, h)"
| "bcast_run err (True # fs) buf h =
     (case uqueue h of
        [] \<Rightarrow> Inr (buf, h)
      | ident # q \<Rightarrow>
          bindF (bcast_round err ident buf (h\<lparr>uqueue := q\<rparr>)) (\<lambda>(buf, h). bcast_run err fs buf h))"

text \<open>\<open>stop\<close>: the flag of the thread and the state.\<close>

definition bcast_stop :: "hub \<Rightarrow> bool \<times> hub" where
  "bcast_stop h = (False, h\<lparr>uqueue := uqueue h @ [0]\<rparr>)"

section \<open>What a buddy receives\<close>

definition coords_bytes :: "i32 \<Rightarrow> Coordinates \<Rightarrow> byte list" where
  "coords_bytes i c = be32 i @ be32 (longitude c) @ be32 (latitude c) @
     (if sint (altitude c) > 0 then be32 (altitude c) else [])"

text \<open>How a client reads a position datagram.\<close>

definition decode_coords :: "byte list \<Rightarrow> (i32 \<times> Coordinates) option" where
  "decode_coords bs =
     (if length bs = 12 \<or> length bs = 16
      then Some (val32 (take 4 bs), \<lparr>longitude = val32 (take 4 (drop 4 bs)), latitude = val32 (take 4 (drop 8 bs)),
                   altitude = (if length bs = 16 then val32 (take 4 (drop 12 bs)) else 0)\<rparr>)
      else None)"

text \<open>The buddies that are online with a registered UDP address, and that address.\<close>

definition udp_buddy :: "hub \<Rightarrow> cstring \<Rightarrow> sockaddr_storage option" where
  "udp_buddy h n = (case nick_umap h n of
     Some (Some r) \<Rightarrow> (case users h r of
        Some b \<Rightarrow> if u_udp_ready b then u_addr_udp b else None
      | None \<Rightarrow> None)
   | _ \<Rightarrow> None)"

text \<open>The flag \<open>udp_ready\<close> is only set together with the address.\<close>

definition udp_inv :: "hub \<Rightarrow> bool" where
  "udp_inv h \<longleftrightarrow> (\<forall>r u. users h r = Some u \<longrightarrow> u_udp_ready u \<longrightarrow> u_addr_udp u \<noteq> None)"

text \<open>The buffer after a package was written to it, and the bytes sent from it.\<close>

lemma bcast_buf:
  assumes "length buf = BCAST_BUF_LEN"
  shows "\<exists>buf'. bindF (tobytes32 host_order buf 0 i) (\<lambda>buf.
      bindF (tobytes32 host_order buf 4 (longitude c)) (\<lambda>buf.
      bindF (tobytes32 host_order buf 8 (latitude c)) (\<lambda>buf.
      bindF (if sint (altitude c) > 0
             then bindF (tobytes32 host_order buf 12 (altitude c)) (\<lambda>buf. Inr (buf, 16 :: nat))
             else Inr (buf, 12)) k))) = k (buf', length (coords_bytes i c)) \<and>
    length buf' = BCAST_BUF_LEN \<and> take (length (coords_bytes i c)) buf' = map Some (coords_bytes i c)"
proof -
  let ?x = "map Some (be32 i)" and ?y = "map Some (be32 (longitude c))" and ?z = "map Some (be32 (latitude c))"
    and ?w = "map Some (be32 (altitude c))"
  have len: "length buf = 16" using assms by (simp add: BCAST_BUF_LEN_def)
  have 1: "tobytes32 host_order buf 0 i = Inr (?x @ drop 4 buf)"
    using len by (simp add: net_simps store_def)
  have 2: "tobytes32 host_order (?x @ drop 4 buf) 4 (longitude c) = Inr (?x @ ?y @ drop 8 buf)"
    using len by (simp add: net_simps store_def)
  have 3: "tobytes32 host_order (?x @ ?y @ drop 8 buf) 8 (latitude c) = Inr (?x @ ?y @ ?z @ drop 12 buf)"
    using len by (simp add: net_simps store_def)
  have 4: "tobytes32 host_order (?x @ ?y @ ?z @ drop 12 buf) 12 (altitude c) = Inr (?x @ ?y @ ?z @ ?w)"
    using len by (simp add: net_simps store_def)
  show ?thesis
  proof (cases "sint (altitude c) > 0")
    case True
    then show ?thesis by (intro exI[of _ "?x @ ?y @ ?z @ ?w"]) (simp add: 1 2 3 4 coords_bytes_def BCAST_BUF_LEN_def)
  next
    case False
    then show ?thesis using len
      by (intro exI[of _ "?x @ ?y @ ?z @ drop 12 buf"]) (simp add: 1 2 3 coords_bytes_def BCAST_BUF_LEN_def)
  qed
qed

lemma broadcastTo_eq:
  assumes inv: "reg_inv h" "udp_inv h" and ok: "\<forall>a. err a = None" and buf: "length buf = BCAST_BUF_LEN"
  shows "\<exists>buf'. broadcastTo err u c n (buf, h) =
      Inr (buf', h\<lparr>udp_out := udp_out h @
        (case udp_buddy h n of None \<Rightarrow> [] | Some a \<Rightarrow> [(a, map Some (coords_bytes (u_id u) c))])\<rparr>) \<and>
    length buf' = BCAST_BUF_LEN"
proof (cases "nick_umap h n")
  case None
  then show ?thesis using buf by (simp add: broadcastTo_def SyncHashMap_count_def udp_buddy_def)
next
  case (Some p)
  obtain r b where b: "p = Some r" "users h r = Some b" "u_nick b = n" by (rule reg_inv_nick[OF inv(1) Some])
  have cnt: "SyncHashMap_count (nick_umap h) n = 1" and get: "SyncHashMap_get (nick_umap h) n = (Some r, nick_umap h)"
    using Some b by (simp_all add: SyncHashMap_count_def SyncHashMap_get_def)
  show ?thesis
  proof (cases "u_udp_ready b")
    case False
    then show ?thesis using Some b cnt get buf by (simp add: broadcastTo_def udp_buddy_def)
  next
    case True
    then obtain a where a: "u_addr_udp b = Some a" using inv(2) b by (auto simp: udp_inv_def)
    let ?k = "\<lambda>(buf, pkg_len). bindF (Socket_Sendto (err a) (take pkg_len buf) a h) (\<lambda>h. Inr (buf, h))"
    from bcast_buf[OF buf, of "u_id u" c ?k] obtain buf' where
      run: "bindF (tobytes32 host_order buf 0 (u_id u)) (\<lambda>buf.
        bindF (tobytes32 host_order buf 4 (longitude c)) (\<lambda>buf.
        bindF (tobytes32 host_order buf 8 (latitude c)) (\<lambda>buf.
        bindF (if sint (altitude c) > 0
             then bindF (tobytes32 host_order buf 12 (altitude c)) (\<lambda>buf. Inr (buf, 16 :: nat))
             else Inr (buf, 12)) ?k))) = ?k (buf', length (coords_bytes (u_id u) c))"
      and b': "length buf' = BCAST_BUF_LEN" "take (length (coords_bytes (u_id u) c)) buf' = map Some (coords_bytes (u_id u) c)"
      by blast
    have "broadcastTo err u c n (buf, h) = ?k (buf', length (coords_bytes (u_id u) c))"
      unfolding run[symmetric] broadcastTo_def using cnt get b True a by simp
    also have "\<dots> = Inr (buf', h\<lparr>udp_out := udp_out h @ [(a, map Some (coords_bytes (u_id u) c))]\<rparr>)"
      using ok b' by (simp add: Socket_Sendto_def)
    finally show ?thesis using b' Some b True a by (simp add: udp_buddy_def)
  qed
qed

lemma udp_buddy_out: "udp_buddy (h\<lparr>udp_out := x\<rparr>) = udp_buddy h"
  by (rule ext) (simp add: udp_buddy_def cong: option.case_cong)

lemma broadcast_loop:
  assumes "reg_inv h" "udp_inv h" "\<forall>a. err a = None" "length buf = BCAST_BUF_LEN"
  shows "\<exists>buf'. foldF (broadcastTo err u c) ns (buf, h) =
      Inr (buf', h\<lparr>udp_out := udp_out h @ map (\<lambda>a. (a, map Some (coords_bytes (u_id u) c))) (List.map_filter (udp_buddy h) ns)\<rparr>) \<and>
    length buf' = BCAST_BUF_LEN"
  using assms
proof (induction ns arbitrary: buf h)
  case Nil
  then show ?case by (simp add: map_filter_simps)
next
  case (Cons n ns)
  from broadcastTo_eq[OF Cons.prems(1-4), of u c n] obtain buf1 where
    b1: "broadcastTo err u c n (buf, h) = Inr (buf1, h\<lparr>udp_out := udp_out h @
        (case udp_buddy h n of None \<Rightarrow> [] | Some a \<Rightarrow> [(a, map Some (coords_bytes (u_id u) c))])\<rparr>)"
      "length buf1 = BCAST_BUF_LEN" by blast
  let ?h1 = "h\<lparr>udp_out := udp_out h @
        (case udp_buddy h n of None \<Rightarrow> [] | Some a \<Rightarrow> [(a, map Some (coords_bytes (u_id u) c))])\<rparr>"
  have inv1: "reg_inv ?h1" "udp_inv ?h1" using Cons.prems(1,2) by (simp_all add: reg_inv_def udp_inv_def)
  have same: "udp_buddy ?h1 = udp_buddy h" by (rule udp_buddy_out)
  from Cons.IH[OF inv1 Cons.prems(3) b1(2)] obtain buf2 where
    "foldF (broadcastTo err u c) ns (buf1, ?h1) =
      Inr (buf2, ?h1\<lparr>udp_out := udp_out ?h1 @ map (\<lambda>a. (a, map Some (coords_bytes (u_id u) c))) (List.map_filter (udp_buddy h) ns)\<rparr>)"
    "length buf2 = BCAST_BUF_LEN" unfolding same by blast
  with b1 show ?case by (cases "udp_buddy h n") (auto simp: map_filter_simps)
qed

text \<open>
  C16: what a broadcast sends. For a live user it sends one datagram to every buddy that is
  online and has registered a UDP address, to that address, and to nobody else; every datagram
  holds the user's id and the given position. Nothing else of the state changes, in particular
  no lookup adds an entry to a map.
\<close>

theorem broadcast_spec:
  assumes "reg_inv h" "udp_inv h" "\<forall>a. err a = None" "length buf = BCAST_BUF_LEN" "users h r = Some u"
  shows "\<exists>buf'. broadcast err r c buf h =
      Inr (buf', h\<lparr>udp_out := udp_out h @
        map (\<lambda>a. (a, map Some (coords_bytes (u_id u) c))) (List.map_filter (udp_buddy h) (u_buddies u))\<rparr>) \<and>
    length buf' = BCAST_BUF_LEN"
  using broadcast_loop[OF assms(1-4), of u c "u_buddies u"] assms(5) by (simp add: broadcast_def)

theorem broadcast_spec_witness:
  "\<exists>buf' h'. broadcast (\<lambda>_. None) 1 zero_coords (replicate 16 None)
     (hub_two\<lparr>users := (users hub_two)(1 \<mapsto> (newUser 1 [65])\<lparr>u_buddies := [[66], [67]]\<rparr>,
                                       2 \<mapsto> setAddrUdp (newUser 2 [66]) no_addr)\<rparr>) = Inr (buf', h') \<and>
     udp_out h' = [(no_addr, map Some (coords_bytes 1 zero_coords))]"
proof -
  let ?u = "(newUser 1 [65])\<lparr>u_buddies := [[66], [67]]\<rparr>"
  let ?v = "setAddrUdp (newUser 2 [66]) no_addr"
  let ?h1 = "hub_two\<lparr>users := (users hub_two)(1 \<mapsto> ?u)\<rparr>"
  let ?h = "?h1\<lparr>users := (users ?h1)(2 \<mapsto> ?v)\<rparr>"
  have 1: "reg_inv ?h1"
    by (rule reg_inv_upd_user[OF reg_inv_two, of 1 "setToken (setSockPtr (newUser 1 [65]) (Some 0)) 77"])
      (simp_all add: newUser_def user_setters)
  have 2: "reg_inv ?h"
    by (rule reg_inv_upd_user[OF 1, of 2 "newUser 2 [66]"]) (simp_all add: newUser_def user_setters)
  have 3: "udp_inv ?h" by (auto simp: udp_inv_def newUser_def user_setters split: if_splits)
  have buds: "List.map_filter (udp_buddy ?h) [[66], [67]] = [no_addr]"
    by (simp add: map_filter_simps udp_buddy_def newUser_def user_setters)
  have 4: "length (replicate 16 None :: mem) = BCAST_BUF_LEN" by (simp add: BCAST_BUF_LEN_def)
  from broadcast_spec[OF 2 3 _ 4, of "\<lambda>_. None" 1 ?u zero_coords] buds
  show ?thesis by (auto simp: newUser_def)
qed

lemma decode_coords_bytes:
  "decode_coords (coords_bytes i c) =
     Some (i, c\<lparr>altitude := if sint (altitude c) > 0 then altitude c else 0\<rparr>)"
  by (cases c) (auto simp: decode_coords_def coords_bytes_def be32_def val32_def)

text \<open>
  What a client reads from a position datagram is the id, the longitude and the latitude
  that were broadcast, for all values; the altitude arrives if it is positive, and is read as
  0 otherwise: altitudes below zero are lost.
\<close>

theorem coords_roundtrip:
  "decode_coords (coords_bytes i c) =
     Some (i, c\<lparr>altitude := if sint (altitude c) > 0 then altitude c else 0\<rparr>)"
  by (rule decode_coords_bytes)

section \<open>A round of a broadcast thread\<close>

lemma bcast_round_eq:
  assumes inv: "reg_inv h" "udp_inv h" and ok: "\<forall>a. err a = None" and buf: "length buf = BCAST_BUF_LEN"
    and u: "id_umap h i = Some (Some r)" "users h r = Some u" "u_ready u = Some s"
  shows "\<exists>buf'. bcast_round err i buf h =
      Inr (buf', h\<lparr>udp_out := udp_out h @
          map (\<lambda>a. (a, map Some (coords_bytes (u_id u) (slotOf u s)))) (List.map_filter (udp_buddy h) (u_buddies u)),
        users := (users h)(r \<mapsto> u\<lparr>u_ready := None\<rparr>)\<rparr>) \<and> length buf' = BCAST_BUF_LEN"
proof -
  let ?out = "udp_out h @ map (\<lambda>a. (a, map Some (coords_bytes (u_id u) (slotOf u s)))) (List.map_filter (udp_buddy h) (u_buddies u))"
  obtain buf' where b: "broadcast err r (slotOf u s) buf h = Inr (buf', h\<lparr>udp_out := ?out\<rparr>)" "length buf' = BCAST_BUF_LEN"
    using broadcast_loop[OF inv ok buf, of u "slotOf u s" "u_buddies u"] u(2) by (auto simp: broadcast_def)
  have "bcast_round err i buf h = Inr (buf', h\<lparr>udp_out := ?out, users := (users h)(r \<mapsto> u\<lparr>u_ready := None\<rparr>)\<rparr>)"
    using u b(1) get_live[of "id_umap h" i r] by (simp add: bcast_round_def id_umap_idem setReady_def)
  with b(2) show ?thesis by blast
qed

end
