(* ===== verification/Gps_Effects.thy ===== *)
theory Gps_Effects
  imports Registry_Refinement Broadcast
begin

text \<open>
  What the GPS server can do to the shared state, for every datagram whatever its bytes: at most one effect on
  a user or the id map (\<open>dgram_effect\<close>), and changes of acknowledgements, which touch only
  the scripts of sockets and the list of pending acknowledgements (\<open>acks_only\<close>).
\<close>

section \<open>What the GPS server changes\<close>

text \<open>Only sockets' scripts and the list of pending acknowledgements differ.\<close>

definition is_ack :: "CmdPkg \<Rightarrow> bool" where
  "is_ack p \<longleftrightarrow> (\<exists>c. p = mk_pkg INITIALIZE_UDP_ACK 4 [Some c])"

definition acks_only :: "hub \<Rightarrow> hub \<Rightarrow> bool" where
  "acks_only h h' \<longleftrightarrow> (\<exists>S q. h' = h\<lparr>socks := S, pending_cmd_queue := q\<rparr> \<and>
     (\<forall>r. map_option sock_name (S r) = map_option sock_name (socks h r)) \<and>
     (\<forall>x \<in> set q. x \<in> set (pending_cmd_queue h) \<or> is_ack (fst x) \<and> S (snd x) \<noteq> None))"

lemma acks_onlyE:
  assumes "acks_only h h'"
  obtains S q where "h' = h\<lparr>socks := S, pending_cmd_queue := q\<rparr>"
    "\<forall>r. map_option sock_name (S r) = map_option sock_name (socks h r)"
    "\<forall>x \<in> set q. x \<in> set (pending_cmd_queue h) \<or> is_ack (fst x) \<and> S (snd x) \<noteq> None"
  using assms unfolding acks_only_def by blast

lemma acks_onlyI:
  assumes "h' = h\<lparr>socks := S, pending_cmd_queue := q\<rparr>"
    "\<forall>r. map_option sock_name (S r) = map_option sock_name (socks h r)"
    "\<forall>x \<in> set q. x \<in> set (pending_cmd_queue h) \<or> is_ack (fst x) \<and> S (snd x) \<noteq> None"
  shows "acks_only h h'"
  using assms unfolding acks_only_def by blast

lemma acks_only_refl: "acks_only h h"
  by (rule acks_onlyI[where S = "socks h" and q = "pending_cmd_queue h"]) simp_all

lemma acks_only_trans:
  assumes "acks_only h k" "acks_only k l"
  shows "acks_only h l"
proof -
  obtain S q where k: "k = h\<lparr>socks := S, pending_cmd_queue := q\<rparr>"
    "\<forall>r. map_option sock_name (S r) = map_option sock_name (socks h r)"
    "\<forall>x \<in> set q. x \<in> set (pending_cmd_queue h) \<or> is_ack (fst x) \<and> S (snd x) \<noteq> None"
    using assms(1) by (rule acks_onlyE)
  obtain S' q' where l: "l = k\<lparr>socks := S', pending_cmd_queue := q'\<rparr>"
    "\<forall>r. map_option sock_name (S' r) = map_option sock_name (socks k r)"
    "\<forall>x \<in> set q'. x \<in> set (pending_cmd_queue k) \<or> is_ack (fst x) \<and> S' (snd x) \<noteq> None"
    using assms(2) by (rule acks_onlyE)
  have "S' r \<noteq> None" if "S r \<noteq> None" for r using l(2) k(1) that by (cases "S' r") (auto dest: spec[of _ r])
  then show ?thesis by (intro acks_onlyI[where S = S' and q = q']) (use k l in auto)
qed

lemma acks_only_sock:
  assumes "socks h r = Some sk" "sock_name sk' = sock_name sk"
  shows "acks_only h (h\<lparr>socks := (socks h)(r \<mapsto> sk')\<rparr>)"
  by (rule acks_onlyI[where S = "(socks h)(r \<mapsto> sk')" and q = "pending_cmd_queue h"]) (use assms in auto)

lemma acks_only_ack:
  assumes "sendUdpInitAck r c h = Inr h'"
  shows "acks_only h h'"
proof -
  obtain u q sk where u: "users h r = Some u" "u_sock u = Some q" "socks h q = Some sk"
    using assms by (auto simp: sendUdpInitAck_def fault_simps)
  obtain x sk' where s: "Socket_Send sk (map Some (udp_ack_bytes c)) = (x, sk')" by fastforce
  let ?p = "mk_pkg INITIALIZE_UDP_ACK 4 [Some c]"
  have "h' = h\<lparr>socks := (socks h)(q \<mapsto> sk')\<rparr> \<or>
      h' = h\<lparr>socks := (socks h)(q \<mapsto> sk'), pending_cmd_queue := pending_cmd_queue h @ [(?p, q)]\<rparr>"
    using assms u s by (cases x) (auto simp: sendUdpInitAck_def udp_ack_pkg split: if_splits)
  then show ?thesis
  proof
    assume "h' = h\<lparr>socks := (socks h)(q \<mapsto> sk')\<rparr>"
    then show ?thesis using acks_only_sock[OF u(3) sock_name_Send[OF s]] by simp
  next
    assume "h' = h\<lparr>socks := (socks h)(q \<mapsto> sk'), pending_cmd_queue := pending_cmd_queue h @ [(?p, q)]\<rparr>"
    then show ?thesis
      by (rule acks_onlyI) (use u sock_name_Send[OF s] in \<open>auto simp: is_ack_def\<close>)
  qed
qed

lemma acks_only_pending_loop:
  assumes "pending_loop ps h = Inr (q, h')"
  shows "acks_only h h' \<and> set q \<subseteq> set ps"
  using assms
proof (induction ps arbitrary: h q h')
  case (Cons a ps)
  obtain p r where a: "a = (p, r)" by fastforce
  obtain sk bytes where sk: "socks h r = Some sk" "wire p = Inr bytes" using Cons.prems a by (auto simp: fault_simps)
  obtain x sk' where s: "Socket_Send sk bytes = (x, sk')" by fastforce
  let ?k = "h\<lparr>socks := (socks h)(r \<mapsto> sk')\<rparr>"
  have k: "acks_only h ?k" using sk(1) sock_name_Send[OF s] by (rule acks_only_sock)
  obtain q' where q': "pending_loop ps ?k = Inr (q', h')" "set q \<subseteq> insert a (set q')"
    using Cons.prems sk s a by (cases x) (auto simp: fault_simps split: if_splits)
  from Cons.IH[OF q'(1)] acks_only_trans[OF k] q'(2) show ?case by auto
qed (simp add: acks_only_refl)

lemma acks_only_pending:
  assumes "sendPendingCmd h = Inr h'"
  shows "acks_only h h'"
proof -
  obtain q k where l: "pending_loop (pending_cmd_queue h) h = Inr (q, k)" "h' = k\<lparr>pending_cmd_queue := q\<rparr>"
    using assms by (auto simp: sendPendingCmd_def fault_simps)
  from acks_only_pending_loop[OF l(1)] have a: "acks_only h k" "set q \<subseteq> set (pending_cmd_queue h)" by auto
  from a(1) obtain S q0 where k: "k = h\<lparr>socks := S, pending_cmd_queue := q0\<rparr>"
    "\<forall>r. map_option sock_name (S r) = map_option sock_name (socks h r)" by (rule acks_onlyE)
  show ?thesis by (rule acks_onlyI[where S = S and q = q]) (use k l(2) a(2) in auto)
qed

text \<open>The integers of a datagram, for any bytes.\<close>

lemma toint_bytes:
  assumes "i + 4 \<le> length bs"
  shows "toint e (map Some bs @ rest) i = Inr (val32 (take 4 (drop i bs)))"
proof -
  have "length (take 4 (drop i bs)) = 4" using assms by simp
  moreover have "take i bs @ take 4 (drop i bs) @ drop (i + 4) bs = bs"
    by (metis add.commute append_take_drop_id drop_drop)
  ultimately have b: "take i bs @ be32 (val32 (take 4 (drop i bs))) @ drop (i + 4) bs = bs" by (simp only: be32_val32)
  have "length (take i bs) = i" using assms by simp
  from toint_datagram[OF this, of e "val32 (take 4 (drop i bs))" "drop (i + 4) bs" rest] show ?thesis by (simp only: b)
qed

section \<open>The kinds of datagrams\<close>

text \<open>Registration datagrams as the client sends them.\<close>

definition decode_init :: "byte list \<Rightarrow> (i32 \<times> i32) option" where
  "decode_init bs = (if length bs = 8 then Some (val32 (take 4 bs), val32 (drop 4 bs)) else None)"

lemma get_cases:
  obtains (null) "SyncHashMap_get m i = (None, m(i \<mapsto> None))" "\<forall>r. m i \<noteq> Some (Some r)"
    | (live) r where "SyncHashMap_get m i = (Some r, m)" "m i = Some (Some r)"
proof (cases "m i")
  case None
  then show ?thesis by (intro null) (simp_all add: SyncHashMap_get_def)
next
  case (Some p)
  then show ?thesis by (cases p) (auto intro: null live simp: SyncHashMap_get_def fun_upd_idem)
qed

text \<open>What a datagram does that the server accepts without a fault, up to acknowledgements.\<close>

datatype dgram_effect = Ignored | UnknownId i32 | Located uref User i32 Coordinates | Bound uref User i32 i32

fun dgram_hub :: "dgram_effect \<Rightarrow> sockaddr_storage \<Rightarrow> hub \<Rightarrow> hub" where
  "dgram_hub Ignored a h = h"
| "dgram_hub (UnknownId i) a h = h\<lparr>id_umap := (id_umap h)(i \<mapsto> None)\<rparr>"
| "dgram_hub (Located r u i c) a h = located r u i c h"
| "dgram_hub (Bound r u i t) a h = h\<lparr>users := (users h)(r \<mapsto> setAddrUdp u a)\<rparr>"

fun dgram_ok :: "dgram_effect \<Rightarrow> byte list \<Rightarrow> sockaddr_storage \<Rightarrow> hub \<Rightarrow> bool" where
  "dgram_ok Ignored bs a h = True"
| "dgram_ok (UnknownId i) bs a h = (\<forall>r. id_umap h i \<noteq> Some (Some r))"
| "dgram_ok (Located r u i c) bs a h = (decode_coords bs = Some (i, c) \<and> id_umap h i = Some (Some r) \<and> users h r = Some u \<and>
     (\<exists>a0. u_addr_udp u = Some a0 \<and> socket_equals a a0))"
| "dgram_ok (Bound r u i t) bs a h = (decode_init bs = Some (i, t) \<and> id_umap h i = Some (Some r) \<and> users h r = Some u \<and>
     u_token u = Some t \<and> (\<exists>q sk tcp. u_sock u = Some q \<and> socks h q = Some sk \<and> sk_addr sk = Some tcp \<and> ip_equals tcp a))"

lemma processCoordinates_effect:
  assumes run: "processCoordinates (length bs) h = Inr h'" and n: "length bs = 12 \<or> length bs = 16"
    and buf: "gps_buf h = map Some bs @ rest"
  shows "\<exists>f. dgram_ok f bs (their_addr h) h \<and> h' = dgram_hub f (their_addr h) h"
proof -
  let ?i = "val32 (take 4 bs)"
  let ?c = "\<lparr>longitude = val32 (take 4 (drop 4 bs)), latitude = val32 (take 4 (drop 8 bs)),
     altitude = (if length bs = 16 then val32 (take 4 (drop 12 bs)) else 0)\<rparr>"
  have ld: "toint host_order (gps_buf h) 0 = Inr ?i" "toint host_order (gps_buf h) 4 = Inr (val32 (take 4 (drop 4 bs)))"
    "toint host_order (gps_buf h) 8 = Inr (val32 (take 4 (drop 8 bs)))"
    "(if length bs = 16 then toint host_order (gps_buf h) 12 else Inr 0) = Inr (altitude ?c)"
    unfolding buf using n toint_bytes[of _ bs host_order rest] by (auto simp: toint_bytes)
  have dec: "decode_coords bs = Some (?i, ?c)" using n by (auto simp: decode_coords_def)
  show ?thesis
  proof (cases rule: get_cases[of "id_umap h" ?i])
    case null
    then have "h' = dgram_hub (UnknownId ?i) (their_addr h) h"
      using run ld(1) by (simp add: processCoordinates_def touint_toint)
    with null(2) show ?thesis by (intro exI[of _ "UnknownId ?i"]) simp
  next
    case (live r)
    then obtain u a0 where u: "users h r = Some u" "u_addr_udp u = Some a0"
      using run ld(1) by (auto simp: processCoordinates_def touint_toint fault_simps split: option.splits)
    from processCoordinates_eq[OF ld live(2) u] run
    have h': "(if socket_equals (their_addr h) a0 then Inr (located r u ?i ?c h) else Inr h) = (Inr h' :: hub res)" by simp
    show ?thesis
    proof (cases "socket_equals (their_addr h) a0")
      case True
      with h' u live dec show ?thesis by (intro exI[of _ "Located r u ?i ?c"]) simp
    next
      case False
      with h' show ?thesis by (intro exI[of _ Ignored]) simp
    qed
  qed
qed

lemma initAddrUdp_effect:
  assumes run: "initAddrUdp h = Inr h'" and n: "length bs = 8" and buf: "gps_buf h = map Some bs @ rest"
  shows "\<exists>f. dgram_ok f bs (their_addr h) h \<and> acks_only (dgram_hub f (their_addr h) h) h'"
proof -
  let ?i = "val32 (take 4 bs)" and ?t = "val32 (drop 4 bs)"
  have ld: "toint host_order (gps_buf h) 0 = Inr ?i" "toint host_order (gps_buf h) 4 = Inr ?t"
    unfolding buf using n by (simp_all add: toint_bytes)
  have dec: "decode_init bs = Some (?i, ?t)" using n by (simp add: decode_init_def)
  show ?thesis
  proof (cases rule: get_cases[of "id_umap h" ?i])
    case null
    then have "h' = dgram_hub (UnknownId ?i) (their_addr h) h" using run ld by (simp add: initAddrUdp_def)
    with null(2) acks_only_refl show ?thesis by (intro exI[of _ "UnknownId ?i"]) simp
  next
    case (live r)
    then obtain u tok where u: "users h r = Some u" "u_token u = Some tok"
      using run ld by (auto simp: initAddrUdp_def fault_simps split: option.splits)
    have nack: "\<exists>f. dgram_ok f bs (their_addr h) h \<and> acks_only (dgram_hub f (their_addr h) h) h'"
      if "sendUdpInitAck r 0 h = Inr h'"
      using acks_only_ack[OF that] by (intro exI[of _ Ignored]) simp
    show ?thesis
    proof (cases "?t = tok")
      case False
      then have "sendUdpInitAck r 0 h = Inr h'" using run ld live u by (simp add: initAddrUdp_def id_umap_idem)
      then show ?thesis by (rule nack)
    next
      case True
      then obtain q sk tcp where k: "u_sock u = Some q" "socks h q = Some sk" "sk_addr sk = Some tcp"
        using run ld live u by (auto simp: initAddrUdp_def id_umap_idem fault_simps split: option.splits)
      note eq = initAddrUdp_eq[OF ld live(2) u k]
      show ?thesis
      proof (cases "ip_equals tcp (their_addr h)")
        case False
        then have "sendUdpInitAck r 0 h = Inr h'" using eq run by simp
        then show ?thesis by (rule nack)
      next
        case ip: True
        then have "acks_only (dgram_hub (Bound r u ?i ?t) (their_addr h) h) h'"
          using eq run True by (intro acks_only_ack) simp
        then show ?thesis using dec live(2) u k ip True by (intro exI[of _ "Bound r u ?i ?t"]) simp
      qed
    qed
  qed
qed

text \<open>The part of \<open>incomingData\<close> before the pending acknowledgements are tried again.\<close>

definition received :: "byte list \<Rightarrow> sockaddr_storage \<Rightarrow> hub \<Rightarrow> hub" where
  "received bs a h = h\<lparr>gps_buf := map Some (take (length (gps_buf h)) bs) @ drop (length bs) (gps_buf h), their_addr := a\<rparr>"

definition dispatch :: "nat \<Rightarrow> hub \<Rightarrow> hub res" where
  "dispatch n h = (if n = 12 \<or> n = 16 then processCoordinates n h else if n = 8 then initAddrUdp h else Inr h)"

lemma gps_incomingData_eq:
  assumes "length (gps_buf h) = BUF_LEN"
  shows "gps_incomingData (Inr (bs, a)) h = bindF (dispatch (length bs) (received bs a h)) sendPendingCmd"
proof -
  let ?bs = "take (length (gps_buf h)) bs"
  have rf: "Socket_Recvfrom (Inr (bs, a)) (gps_buf h) = Inr (gps_buf (received bs a h), length ?bs, a)"
    by (auto simp: Socket_Recvfrom_def Let_def store_def received_def min_def)
  have "dispatch (length ?bs) k = dispatch (length bs) k" for k
    using assms by (auto simp: dispatch_def BUF_LEN_def min_def)
  moreover have "h\<lparr>gps_buf := gps_buf (received bs a h), their_addr := a\<rparr> = received bs a h" by (simp add: received_def)
  ultimately show ?thesis
    by (simp only: gps_incomingData_def rf bindF.simps split_conv Let_def dispatch_def[symmetric])
qed

lemma received_sel [simp]:
  "users (received bs a h) = users h" "id_umap (received bs a h) = id_umap h" "nick_umap (received bs a h) = nick_umap h"
  "socks (received bs a h) = socks h" "their_addr (received bs a h) = a" "uqueue (received bs a h) = uqueue h"
  "pending_cmd_queue (received bs a h) = pending_cmd_queue h" "udp_out (received bs a h) = udp_out h"
  "next_ref (received bs a h) = next_ref h"
  by (simp_all add: received_def)

lemma received_buf:
  assumes "length (gps_buf h) = BUF_LEN"
  shows "length (gps_buf (received bs a h)) = BUF_LEN"
    and "length bs \<le> 16 \<Longrightarrow> gps_buf (received bs a h) = map Some bs @ drop (length bs) (gps_buf h)"
  using assms by (auto simp: received_def BUF_LEN_def min_def)

lemma dispatch_effect:
  assumes len: "length (gps_buf h) = BUF_LEN" and run: "dispatch (length bs) (received bs a h) = Inr k"
  shows "\<exists>f. dgram_ok f bs a h \<and> acks_only (dgram_hub f a (received bs a h)) k"
proof -
  let ?h = "received bs a h"
  have same: "dgram_ok f bs a ?h = dgram_ok f bs a h" for f by (cases f) simp_all
  consider "length bs = 12 \<or> length bs = 16" "processCoordinates (length bs) ?h = Inr k"
    | "length bs = 8" "initAddrUdp ?h = Inr k" | "k = ?h"
    using run by (auto simp: dispatch_def split: if_splits)
  then show ?thesis
  proof cases
    case 1
    then have "gps_buf ?h = map Some bs @ drop (length bs) (gps_buf h)" by (intro received_buf(2)[OF len]) auto
    from processCoordinates_effect[OF 1(2,1) this] acks_only_refl same show ?thesis by auto
  next
    case 2
    then have "gps_buf ?h = map Some bs @ drop (length bs) (gps_buf h)" by (intro received_buf(2)[OF len]) auto
    from initAddrUdp_effect[OF 2(2,1) this] same show ?thesis by auto
  next
    case 3
    then show ?thesis using acks_only_refl by (intro exI[of _ Ignored]) simp
  qed
qed

lemma gps_incomingData_effect:
  assumes run: "gps_incomingData (Inr (bs, a)) h = Inr h'" and len: "length (gps_buf h) = BUF_LEN"
  shows "\<exists>f. dgram_ok f bs a h \<and> acks_only (dgram_hub f a (received bs a h)) h'"
proof -
  obtain k where "dispatch (length bs) (received bs a h) = Inr k" and p: "sendPendingCmd k = Inr h'"
    using run unfolding gps_incomingData_eq[OF len] by (rule bindF_InrE)
  from dispatch_effect[OF len this(1)] acks_only_trans[OF _ acks_only_pending[OF p]] show ?thesis by blast
qed

end
