(* ===== verification/Hub_System.thy ===== *)
theory Hub_System
  imports Gps_Effects
begin

text \<open>
  The whole server as one transition system: the command server, the GPS server and the broadcast threads
  take turns on the shared state. The theory proves the invariant of that system and that the broadcast threads
  work off whatever is queued.
\<close>

section \<open>Rounds of the broadcast threads\<close>

text \<open>A round that returns would also return if every datagram could be sent.\<close>

lemma bindF_mono:
  assumes "bindF m f = Inr x" "\<And>y. m = Inr y \<Longrightarrow> m' = Inr y" "\<And>y. f y = Inr x \<Longrightarrow> g y = Inr x"
  shows "bindF m' g = Inr x"
  using assms by (auto simp: bindF_Inr_iff)

lemma else_mono: "(if b then p else q) = y \<Longrightarrow> (q = y \<Longrightarrow> q' = y) \<Longrightarrow> (if b then p else q') = y"
  by (auto split: if_splits)

lemma Sendto_mono: "Socket_Sendto err b a h = Inr x \<Longrightarrow> Socket_Sendto None b a h = Inr x"
  by (cases err) (simp_all add: Socket_Sendto_def)

lemma broadcastTo_mono:
  assumes "broadcastTo err u c n st = Inr x"
  shows "broadcastTo (\<lambda>_. None) u c n st = Inr x"
proof -
  obtain buf h where st: "st = (buf, h)" by fastforce
  obtain bp m where g: "SyncHashMap_get (nick_umap h) n = (bp, m)" by fastforce
  show ?thesis
  proof (cases "SyncHashMap_count (nick_umap h) n > 0")
    case False
    then have "broadcastTo e u c n st = Inr (buf, h)" for e by (simp add: broadcastTo_def st)
    with assms show ?thesis by simp
  next
    case True
    let ?send = "\<lambda>err buddy (buf, pkg_len :: nat). case u_addr_udp buddy of None \<Rightarrow> Inl (Undefined UninitRead)
      | Some a \<Rightarrow> bindF (Socket_Sendto (err a) (take pkg_len buf) a (h\<lparr>nick_umap := m\<rparr>)) (\<lambda>h. Inr (buf, h))"
    have s: "?send err b y = Inr x \<Longrightarrow> ?send (\<lambda>_. None) b y = Inr x" for b y
      by (cases y) (auto split: option.splits elim!: bindF_mono intro: Sendto_mono)
    from assms True g st show ?thesis
      unfolding broadcastTo_def
      by (simp only: split_conv if_True Let_def)
        (erule bindF_mono, assumption, erule else_mono, (erule bindF_mono, assumption)+, erule s)
  qed
qed

lemma broadcast_mono: "broadcast err r c buf h = Inr x \<Longrightarrow> broadcast (\<lambda>_. None) r c buf h = Inr x"
proof -
  have "foldF (broadcastTo err u c) ns st = Inr x \<Longrightarrow> foldF (broadcastTo (\<lambda>_. None) u c) ns st = Inr x" for u ns st
    by (induction ns arbitrary: st) (auto dest: broadcastTo_mono simp: bindF_Inr_iff)
  then show "broadcast err r c buf h = Inr x \<Longrightarrow> broadcast (\<lambda>_. None) r c buf h = Inr x"
    by (auto simp: broadcast_def fault_simps)
qed

lemma bcast_round_mono:
  assumes "bcast_round err i buf h = Inr x"
  shows "bcast_round (\<lambda>_. None) i buf h = Inr x"
proof -
  obtain up m where g: "SyncHashMap_get (id_umap h) i = (up, m)" by fastforce
  have b: "(case u_ready u of None \<Rightarrow> Inr (buf, k) | Some s \<Rightarrow> let c = slotOf u s in bindF (broadcast (\<lambda>_. None) r c buf k) f) = Inr x"
    if "(case u_ready u of None \<Rightarrow> Inr (buf, k) | Some s \<Rightarrow> let c = slotOf u s in bindF (broadcast err r c buf k) f) = Inr x" for u r k f
    using that by (auto split: option.splits elim!: bindF_mono intro: broadcast_mono)
  show ?thesis
    using assms g by (cases up) (auto simp: bcast_round_def Let_def elim!: bindF_mono intro: b)
qed

text \<open>What a broadcast sends for the user \<open>u\<close>.\<close>

definition sent_for :: "hub \<Rightarrow> User \<Rightarrow> slot \<Rightarrow> (sockaddr_storage \<times> mem) list" where
  "sent_for h u s = map (\<lambda>a. (a, map Some (coords_bytes (u_id u) (slotOf u s)))) (List.map_filter (udp_buddy h) (u_buddies u))"

definition after_round :: "i32 \<Rightarrow> hub \<Rightarrow> hub" where
  "after_round i h =
     (case id_umap h i of
        Some (Some r) \<Rightarrow> (case users h r of
           Some u \<Rightarrow> (case u_ready u of
              Some s \<Rightarrow> h\<lparr>udp_out := udp_out h @ sent_for h u s, users := (users h)(r \<mapsto> u\<lparr>u_ready := None\<rparr>)\<rparr>
            | None \<Rightarrow> h)
         | None \<Rightarrow> h)
      | _ \<Rightarrow> h\<lparr>id_umap := (id_umap h)(i \<mapsto> None)\<rparr>)"

text \<open>In a well-formed state a round returns, unless sending fails.\<close>

lemma bcast_round_total:
  assumes inv: "reg_inv h" "udp_inv h" and ok: "\<forall>a. err a = None" and buf: "length buf = BCAST_BUF_LEN"
  shows "\<exists>buf'. bcast_round err i buf h = Inr (buf', after_round i h) \<and> length buf' = BCAST_BUF_LEN"
proof (cases rule: get_cases[of "id_umap h" i])
  case null
  have "after_round i h = h\<lparr>id_umap := (id_umap h)(i \<mapsto> None)\<rparr>"
    using null(2) by (auto simp: after_round_def split: option.splits)
  with null buf show ?thesis by (simp add: bcast_round_def)
next
  case (live r)
  obtain u where u: "users h r = Some u" using reg_inv_id[OF inv(1) live(2)] by blast
  show ?thesis
  proof (cases "u_ready u")
    case None
    with live u buf show ?thesis by (simp add: bcast_round_def after_round_def id_umap_idem)
  next
    case (Some s)
    with bcast_round_eq[OF inv ok buf live(2) u Some] live u show ?thesis by (simp add: after_round_def sent_for_def)
  qed
qed

lemma bcast_round_run:
  assumes "reg_inv h" "udp_inv h" "length buf = BCAST_BUF_LEN" "bcast_round err i buf h = Inr (buf', h')"
  shows "h' = after_round i h"
  using bcast_round_total[OF assms(1,2) _ assms(3), of "\<lambda>_. None" i] bcast_round_mono[OF assms(4)] by auto

section \<open>The steps of the whole server\<close>

datatype action = Command | Datagram "byte list" sockaddr_storage | Timeout | Round | StopThread

inductive hub_step :: "(sockaddr_storage \<Rightarrow> cstring) \<Rightarrow> env \<Rightarrow> action \<Rightarrow> hub \<Rightarrow> hub \<Rightarrow> bool" for ntop env where
  command: "cmd_step ntop env h h' \<Longrightarrow> hub_step ntop env Command h h'"
| datagram: "gps_incomingData (Inr (bs, a)) h = Inr h' \<Longrightarrow> hub_step ntop env (Datagram bs a) h h'"
| timeout: "sendPendingCmd h = Inr h' \<Longrightarrow> hub_step ntop env Timeout h h'"
| round: "uqueue h = i # q \<Longrightarrow> length buf = BCAST_BUF_LEN \<Longrightarrow>
     bcast_round err i buf (h\<lparr>uqueue := q\<rparr>) = Inr (buf', h') \<Longrightarrow> hub_step ntop env Round h h'"
| stop: "bcast_stop h = (l, h') \<Longrightarrow> hub_step ntop env StopThread h h'"

inductive_cases hub_stepE: "hub_step ntop env act h h'"

abbreviation hub_reachable :: "(sockaddr_storage \<Rightarrow> cstring) \<Rightarrow> env \<Rightarrow> hub \<Rightarrow> bool" where
  "hub_reachable ntop env \<equiv> reach (\<lambda>h. \<exists>ep fd. h = hub_listening ep fd) (\<lambda>h h'. \<exists>act. hub_step ntop env act h h')"

section \<open>Well-formed states\<close>

text \<open>
  A user at rest: it has a token and a socket pointer; the UDP flag is set exactly when the address is; a
  position is ready only for a user with an address, is in the slot that is not being written, and
  has its id on the queue.
\<close>

definition user_ok :: "i32 list \<Rightarrow> User \<Rightarrow> bool" where
  "user_ok q u \<longleftrightarrow> u_token u \<noteq> None \<and> u_sock u \<noteq> None \<and> (u_udp_ready u \<longrightarrow> u_addr_udp u \<noteq> None) \<and>
     (u_addr_udp u \<noteq> None \<longrightarrow> u_udp_ready u) \<and>
     u_ready u \<noteq> Some (u_empty u) \<and> (u_ready u \<noteq> None \<longrightarrow> u_udp_ready u \<and> u_id u \<in> set q)"

lemma user_ok_mono: "user_ok q u \<Longrightarrow> set q \<subseteq> set q' \<Longrightarrow> user_ok q' u"
  by (auto simp: user_ok_def)

definition hub_inv :: "hub \<Rightarrow> bool" where
  "hub_inv h \<longleftrightarrow> srv_inv h \<and> backlog_ok h \<and> addressed h \<and> length (gps_buf h) = BUF_LEN \<and>
     (\<forall>x \<in> set (pending_cmd_queue h). is_ack (fst x)) \<and>
     (\<forall>r u. users h r = Some u \<longrightarrow> user_ok (uqueue h) u)"

lemma hub_invD:
  assumes "hub_inv h"
  shows "srv_inv h" "reg_inv h" "sess_inv h" "backlog_ok h" "addressed h" "length (gps_buf h) = BUF_LEN"
    "\<forall>x \<in> set (pending_cmd_queue h). is_ack (fst x)" "users h r = Some u \<Longrightarrow> user_ok (uqueue h) u" "udp_inv h"
  using assms by (auto simp: hub_inv_def srv_inv_def udp_inv_def user_ok_def)

lemma hub_inv_listening: "hub_inv (hub_listening ep fd)"
  using srv_inv_listening backlog_ok_listening
  by (simp add: hub_inv_def addressed_def hub_listening_def hub_start_def)

lemma hub_inv_command:
  assumes step: "cmd_step ntop env h h'" and inv: "hub_inv h"
  shows "hub_inv h'"
proof -
  have k: "keeps_users h h'" using kept.step_in[OF step hub_invD(1)[OF inv]] .
  have 1: "srv_inv h' \<and> backlog_ok h'" using cmd_step_inv[OF step] hub_invD[OF inv] by blast
  have "user_ok (uqueue h') u'" if "users h' r = Some u'" for r u'
  proof -
    have q: "uqueue h' = uqueue h" using k by (simp add: keeps_users_def gps_view_def)
    consider u where "users h r = Some u" "core u' = core u" | "fresh_user (core u')"
      using k \<open>users h' r = Some u'\<close> unfolding keeps_users_def by blast
    then show ?thesis
    proof cases
      case 1
      from hub_invD(8)[OF inv 1(1)] core_eqD[OF 1(2)] show ?thesis by (simp add: user_ok_def q)
    next
      case 2
      from fresh_userD[OF 2] show ?thesis by (auto simp: user_ok_def)
    qed
  qed
  with 1 k hub_invD[OF inv] show ?thesis unfolding hub_inv_def keeps_users_def gps_view_def by simp
qed

lemma hub_inv_acks:
  assumes inv: "hub_inv h" and a: "acks_only h h'"
  shows "hub_inv h'"
proof -
  obtain S q where h': "h' = h\<lparr>socks := S, pending_cmd_queue := q\<rparr>"
    and S: "\<forall>r. map_option sock_name (S r) = map_option sock_name (socks h r)"
    and q: "\<forall>x \<in> set q. x \<in> set (pending_cmd_queue h) \<or> is_ack (fst x) \<and> S (snd x) \<noteq> None"
    using a by (rule acks_onlyE)
  have S': "\<exists>sk. socks h r = Some sk \<and> sock_name sk' = sock_name sk" if "S r = Some sk'" for r sk'
    using S[rule_format, of r] that by (cases "socks h r") auto
  have n: "map_option (\<lambda>sk. (sk_host sk, sk_port sk)) (S r) = map_option (\<lambda>sk. (sk_host sk, sk_port sk)) (socks h r)" for r
    using S[rule_format, of r] by (cases "S r"; cases "socks h r") (auto simp: sock_name_def)
  have "srv_inv h'" by (rule srv_inv_cong[OF hub_invD(1)[OF inv]]) (simp_all add: h' graph_view_def usr_view_def n)
  moreover have "addressed h'"
    using hub_invD(5)[OF inv] S' by (fastforce simp: addressed_def h' sock_name_def)
  ultimately show ?thesis using hub_invD[OF inv] q by (auto simp: hub_inv_def h' backlog_ok_def)
qed

text \<open>A change of one user that keeps its name.\<close>

lemma srv_inv_upd_user:
  assumes inv: "srv_inv h" and u: "users h r = Some u" "u_id u' = u_id u" "u_nick u' = u_nick u" "distinct (u_buddies u')"
  shows "srv_inv (h\<lparr>users := (users h)(r \<mapsto> u')\<rparr>)"
proof -
  have "reg_inv h" "sess_inv h" using inv by (simp_all add: srv_inv_def)
  then have "reg_inv (h\<lparr>users := (users h)(r \<mapsto> u')\<rparr>)"
    using reg_inv_upd_user[OF _ u] by simp
  moreover have "sess_inv (h\<lparr>users := (users h)(r \<mapsto> u')\<rparr>)"
    using sess_inv_cong[OF \<open>sess_inv h\<close>, of "h\<lparr>users := (users h)(r \<mapsto> u')\<rparr>"] usr_view_user[OF u(1), of u']
    by (simp add: graph_view_def)
  ultimately show ?thesis by (simp add: srv_inv_def)
qed

lemma hub_inv_upd_user:
  assumes inv: "hub_inv h" and u: "users h r = Some u" "u_id u' = u_id u" "u_nick u' = u_nick u" "u_buddies u' = u_buddies u"
    and ok: "user_ok (uqueue h) u'"
  shows "hub_inv (h\<lparr>users := (users h)(r \<mapsto> u')\<rparr>)"
  using srv_inv_upd_user[OF hub_invD(1)[OF inv] u(1-3)] reg_inv_user(3)[OF hub_invD(2)[OF inv] u(1)] u(4) hub_invD[OF inv] ok
  by (auto simp: hub_inv_def backlog_ok_def addressed_def)

lemma hub_inv_frame:
  assumes "hub_inv h"
  shows "length b = BUF_LEN \<Longrightarrow> hub_inv (h\<lparr>gps_buf := b, their_addr := a\<rparr>)"
    and "set (uqueue h) \<subseteq> set q \<Longrightarrow> hub_inv (h\<lparr>uqueue := q\<rparr>)"
    and "hub_inv (h\<lparr>udp_out := out\<rparr>)"
    and "\<forall>r. id_umap h i \<noteq> Some (Some r) \<Longrightarrow> hub_inv (h\<lparr>id_umap := (id_umap h)(i \<mapsto> None)\<rparr>)"
proof -
  have s: "srv_inv (h\<lparr>gps_buf := b, their_addr := a\<rparr>)" "srv_inv (h\<lparr>uqueue := q\<rparr>)" "srv_inv (h\<lparr>udp_out := out\<rparr>)"
    by (rule srv_inv_cong[OF hub_invD(1)[OF assms]]; simp add: graph_view_def usr_view_def)+
  have mono: "user_ok q u" if "users h r = Some u" "set (uqueue h) \<subseteq> set q" for r u
    using hub_invD(8)[OF assms that(1)] that(2) by (rule user_ok_mono)
  note rest = hub_inv_def backlog_ok_def addressed_def
  show "length b = BUF_LEN \<Longrightarrow> hub_inv (h\<lparr>gps_buf := b, their_addr := a\<rparr>)"
    and "set (uqueue h) \<subseteq> set q \<Longrightarrow> hub_inv (h\<lparr>uqueue := q\<rparr>)" and "hub_inv (h\<lparr>udp_out := out\<rparr>)"
    using s assms mono by (auto simp: rest)
  assume i: "\<forall>r. id_umap h i \<noteq> Some (Some r)"
  let ?h = "h\<lparr>id_umap := (id_umap h)(i \<mapsto> None)\<rparr>"
  have "reg_inv ?h" using hub_invD(2)[OF assms] i unfolding reg_inv_def by (auto split: if_splits)
  moreover have "sess_inv ?h" using hub_invD(3)[OF assms] by (rule sess_inv_cong) (simp add: graph_view_def usr_view_def)
  ultimately show "hub_inv ?h" using assms by (auto simp: rest srv_inv_def)
qed

lemma hub_inv_received:
  assumes "hub_inv h"
  shows "hub_inv (received bs a h)"
proof -
  have "received bs a h = h\<lparr>gps_buf := gps_buf (received bs a h), their_addr := a\<rparr>" by (simp add: received_def)
  then show ?thesis using hub_inv_frame(1)[OF assms received_buf(1)[OF hub_invD(6)[OF assms]]] by metis
qed

lemma hub_inv_located:
  assumes inv: "hub_inv h" and u: "users h r = Some u" "u_id u = i" "u_addr_udp u \<noteq> None"
  shows "hub_inv (located r u i c h)"
proof -
  have ok: "user_ok (uqueue h) u" using hub_invD(8)[OF inv u(1)] .
  show ?thesis
  proof (cases "u_ready u = None")
    case True
    let ?u = "setEmpty (setReady (setSlot u (u_empty u) c) (Some (u_empty u))) (otherSlot (u_empty u))"
    have "hub_inv (h\<lparr>uqueue := uqueue h @ [i]\<rparr>)" by (rule hub_inv_frame(2)[OF inv]) auto
    then have "hub_inv (h\<lparr>uqueue := uqueue h @ [i], users := (users h)(r \<mapsto> ?u)\<rparr>)"
      using hub_inv_upd_user[of "h\<lparr>uqueue := uqueue h @ [i]\<rparr>" r u ?u] u ok
      by (cases "u_empty u") (simp_all add: user_ok_def user_setters otherSlot_def)
    moreover have "h\<lparr>uqueue := uqueue h @ [i], users := (users h)(r \<mapsto> ?u)\<rparr> = located r u i c h"
      using True by (simp add: located_def)
    ultimately show ?thesis by simp
  next
    case False
    have "user_ok (uqueue h) (setSlot u (u_empty u) c)" using ok by (simp add: user_ok_def)
    then have "hub_inv (h\<lparr>users := (users h)(r \<mapsto> setSlot u (u_empty u) c)\<rparr>)"
      by (intro hub_inv_upd_user[OF inv u(1)]) simp_all
    with False show ?thesis by (auto simp: located_def)
  qed
qed

lemma hub_inv_datagram:
  assumes inv: "hub_inv h" and run: "gps_incomingData (Inr (bs, a)) h = Inr h'"
  shows "hub_inv h'"
proof -
  obtain f where f: "dgram_ok f bs a h" and h': "acks_only (dgram_hub f a (received bs a h)) h'"
    using gps_incomingData_effect[OF run hub_invD(6)[OF inv]] by blast
  let ?h = "received bs a h"
  have k: "hub_inv ?h" by (rule hub_inv_received[OF inv])
  have "hub_inv (dgram_hub f a ?h)"
  proof (cases f)
    case Ignored
    with k show ?thesis by simp
  next
    case (UnknownId i)
    with f hub_inv_frame(4)[OF k, of i] show ?thesis by simp
  next
    case (Located r u i c)
    with f have l: "users h r = Some u" "id_umap h i = Some (Some r)" "u_addr_udp u \<noteq> None" by auto
    then have "u_id u = i" using reg_inv_id[OF hub_invD(2)[OF inv]] by force
    with hub_inv_located[OF k _ _ l(3)] l(1) show ?thesis by (simp add: Located)
  next
    case (Bound r u i t)
    with f have u: "users h r = Some u" by simp
    from hub_invD(8)[OF inv u] have "user_ok (uqueue ?h) (setAddrUdp u a)" by (simp add: user_ok_def setAddrUdp_def)
    with hub_inv_upd_user[OF k, of r u "setAddrUdp u a"] u show ?thesis by (simp add: Bound setAddrUdp_def)
  qed
  then show ?thesis using h' by (rule hub_inv_acks)
qed

lemma hub_inv_round:
  assumes inv: "hub_inv h" and q: "uqueue h = i # q"
  shows "hub_inv (after_round i (h\<lparr>uqueue := q\<rparr>))"
    and "reg_inv (h\<lparr>uqueue := q\<rparr>)" "udp_inv (h\<lparr>uqueue := q\<rparr>)"
proof -
  let ?h = "h\<lparr>uqueue := q\<rparr>"
  have s: "srv_inv ?h" by (rule srv_inv_cong[OF hub_invD(1)[OF inv]]) (simp_all add: graph_view_def usr_view_def)
  then show r: "reg_inv ?h" by (simp add: srv_inv_def)
  show "udp_inv ?h" using hub_invD(9)[OF inv] by (simp add: udp_inv_def)
  text \<open>Users with another id keep their place on the queue.\<close>
  have other: "user_ok q u" if "users h r = Some u" "u_ready u = None \<or> u_id u \<noteq> i" for r u
    using hub_invD(8)[OF inv that(1)] that(2) q by (auto simp: user_ok_def)
  have rest: "backlog_ok ?h" "addressed ?h" "length (gps_buf ?h) = BUF_LEN" "\<forall>x \<in> set (pending_cmd_queue ?h). is_ack (fst x)"
    using hub_invD[OF inv] by (simp_all add: backlog_ok_def addressed_def)
  have ok: "hub_inv ?h" if "\<And>r u. users h r = Some u \<Longrightarrow> u_ready u = None \<or> u_id u \<noteq> i"
    using s rest other that by (auto simp: hub_inv_def)
  show "hub_inv (after_round i ?h)"
  proof (cases rule: get_cases[of "id_umap h" i])
    case null
    have "u_id u \<noteq> i" if "users h r = Some u" for r u
      using reg_inv_user(5)[OF hub_invD(2)[OF inv] that] null(2) by auto
    then have "hub_inv ?h" using ok by blast
    moreover have "after_round i ?h = ?h\<lparr>id_umap := (id_umap ?h)(i \<mapsto> None)\<rparr>"
      using null(2) by (auto simp: after_round_def split: option.splits)
    ultimately show ?thesis using null(2) hub_inv_frame(4)[of ?h i] by simp
  next
    case (live r)
    obtain u where u: "users h r = Some u" "u_id u = i" using reg_inv_id[OF hub_invD(2)[OF inv] live(2)] by blast
    have uniq: "r' = r" if "users h r' = Some u'" "u_id u' = i" for r' u'
      using reg_inv_unique(2)[OF hub_invD(2)[OF inv] u(1) that(1)] u(2) that(2) by simp
    show ?thesis
    proof (cases "u_ready u")
      case None
      then have "hub_inv ?h" using ok uniq u(1) by (metis option.inject)
      with None live u show ?thesis by (simp add: after_round_def)
    next
      case (Some s')
      let ?u = "u\<lparr>u_ready := None\<rparr>" and ?out = "udp_out h @ sent_for ?h u s'"
      let ?k = "?h\<lparr>users := (users h)(r \<mapsto> ?u)\<rparr>"
      have "srv_inv ?k" using srv_inv_upd_user[OF s, of r u ?u] reg_inv_user(3)[OF hub_invD(2)[OF inv] u(1)] u(1) by simp
      moreover have "user_ok q v" if "users ?k t = Some v" for t v
      proof (cases "t = r")
        case True
        with that hub_invD(8)[OF inv u(1)] show ?thesis by (auto simp: user_ok_def)
      next
        case False
        with that uniq other show ?thesis by auto
      qed
      ultimately have "hub_inv ?k" using rest by (simp add: hub_inv_def backlog_ok_def addressed_def)
      moreover have "after_round i ?h = ?k\<lparr>udp_out := ?out\<rparr>" using Some live u by (simp add: after_round_def)
      ultimately show ?thesis using hub_inv_frame(3)[of ?k ?out] by simp
    qed
  qed
qed

lemma hub_step_inv:
  assumes "hub_step ntop env act h h'" "hub_inv h"
  shows "hub_inv h'"
  using assms(1)
proof cases
  case command
  from command(2) assms(2) show ?thesis by (rule hub_inv_command)
next
  case (datagram bs a)
  from assms(2) datagram(2) show ?thesis by (rule hub_inv_datagram)
next
  case timeout
  from assms(2) acks_only_pending[OF timeout(2)] show ?thesis by (rule hub_inv_acks)
next
  case (round i q buf err buf')
  note r = hub_inv_round[OF assms(2) round(2)]
  from bcast_round_run[OF r(2,3) round(3,4)] r(1) show ?thesis by simp
next
  case (stop l)
  then have "h' = h\<lparr>uqueue := uqueue h @ [0]\<rparr>" by (simp add: bcast_stop_def)
  then show ?thesis using hub_inv_frame(2)[OF assms(2), of "uqueue h @ [0]"] by auto
qed

interpretation hub: inductive_invariant "\<lambda>h. \<exists>ep fd. h = hub_listening ep fd"
    "\<lambda>h h'. \<exists>act. hub_step ntop env act h h'" hub_inv for ntop env
  by unfold_locales (auto simp: hub_inv_listening dest: hub_step_inv)

lemma cmd_hub_reachable: "cmd_reachable ntop env h \<Longrightarrow> hub_reachable ntop env h"
  by (induction rule: reach.induct) (auto intro: reach.intros hub_step.command)

section \<open>Draining the queue\<close>

definition ready_users :: "hub \<Rightarrow> uref set" where
  "ready_users h = {r. \<exists>u. users h r = Some u \<and> u_ready u \<noteq> None}"

text \<open>The datagrams a user's position is worth.\<close>

definition position_sent :: "hub \<Rightarrow> uref \<Rightarrow> (sockaddr_storage \<times> mem) list" where
  "position_sent h r = (case users h r of None \<Rightarrow> [] | Some u \<Rightarrow>
     (case u_ready u of None \<Rightarrow> [] | Some s \<Rightarrow> sent_for h u s))"

lemma udp_buddy_cong:
  assumes "nick_umap h' = nick_umap h" "\<And>r. map_option (\<lambda>u. (u_udp_ready u, u_addr_udp u)) (users h' r) =
    map_option (\<lambda>u. (u_udp_ready u, u_addr_udp u)) (users h r)"
  shows "udp_buddy h' = udp_buddy h"
proof (rule ext)
  fix n
  have "(case users h' r of Some b \<Rightarrow> if u_udp_ready b then u_addr_udp b else None | None \<Rightarrow> None) =
      (case users h r of Some b \<Rightarrow> if u_udp_ready b then u_addr_udp b else None | None \<Rightarrow> None)" for r
    using assms(2)[of r] by (cases "users h r"; cases "users h' r") auto
  then show "udp_buddy h' n = udp_buddy h n" by (auto simp: udp_buddy_def assms(1) split: option.splits)
qed

lemma sent_for_cong: "udp_buddy h' = udp_buddy h \<Longrightarrow> sent_for h' u s = sent_for h u s"
  by (simp add: sent_for_def)

lemma drain_step:
  assumes inv: "hub_inv h" and q: "uqueue h = i # q"
  defines "h1 \<equiv> after_round i (h\<lparr>uqueue := q\<rparr>)"
  shows "uqueue h1 = q"
    and "ready_users h1 = ready_users h \<and> udp_out h1 = udp_out h \<or>
      (\<exists>r \<in> ready_users h. ready_users h1 = ready_users h - {r} \<and> udp_out h1 = udp_out h @ position_sent h r)"
    and "t \<in> ready_users h1 \<Longrightarrow> position_sent h1 t = position_sent h t"
proof -
  let ?h = "h\<lparr>uqueue := q\<rparr>"
  have same: "uqueue k = q \<and> ready_users k = ready_users h \<and> udp_out k = udp_out h \<and> position_sent k t = position_sent h t"
    if k: "k = ?h\<lparr>id_umap := m\<rparr>" for k m
  proof -
    have "udp_buddy k = udp_buddy h" by (rule udp_buddy_cong) (simp_all add: k)
    then show ?thesis using sent_for_cong[of k h] by (auto simp: k ready_users_def position_sent_def split: option.splits)
  qed
  have "uqueue h1 = q \<and> (ready_users h1 = ready_users h \<and> udp_out h1 = udp_out h \<or>
      (\<exists>r \<in> ready_users h. ready_users h1 = ready_users h - {r} \<and> udp_out h1 = udp_out h @ position_sent h r)) \<and>
      (t \<in> ready_users h1 \<longrightarrow> position_sent h1 t = position_sent h t)"
  proof (cases "\<exists>r u s. id_umap h i = Some (Some r) \<and> users h r = Some u \<and> u_ready u = Some s")
    case False
    have "h1 = ?h\<lparr>id_umap := (id_umap h)(i \<mapsto> None)\<rparr> \<or> h1 = ?h\<lparr>id_umap := id_umap h\<rparr>"
      using False by (auto simp: h1_def after_round_def split: option.splits)
    with same[of h1] show ?thesis by blast
  next
    case True
    then obtain r u s where u: "id_umap h i = Some (Some r)" "users h r = Some u" "u_ready u = Some s" by blast
    have h1: "h1 = ?h\<lparr>udp_out := udp_out h @ sent_for ?h u s, users := (users h)(r \<mapsto> u\<lparr>u_ready := None\<rparr>)\<rparr>"
      using u by (simp add: h1_def after_round_def)
    have b: "udp_buddy h1 = udp_buddy h" "udp_buddy ?h = udp_buddy h"
      by (rule udp_buddy_cong; simp add: h1 u(2))+
    have "position_sent h r = sent_for ?h u s" using u sent_for_cong[OF b(2)] by (simp add: position_sent_def)
    then have o: "udp_out h1 = udp_out h @ position_sent h r" by (simp add: h1)
    have rd: "r \<in> ready_users h" "ready_users h1 = ready_users h - {r}" using u by (auto simp: ready_users_def h1)
    have "position_sent h1 t = position_sent h t" if "t \<in> ready_users h1"
    proof -
      have "users h1 t = users h t" using that rd(2) by (auto simp: h1)
      then show ?thesis using sent_for_cong[OF b(1)] by (simp add: position_sent_def split: option.splits)
    qed
    with o rd show ?thesis by (auto simp: h1)
  qed
  then show "uqueue h1 = q"
    and "ready_users h1 = ready_users h \<and> udp_out h1 = udp_out h \<or>
      (\<exists>r \<in> ready_users h. ready_users h1 = ready_users h - {r} \<and> udp_out h1 = udp_out h @ position_sent h r)"
    and "t \<in> ready_users h1 \<Longrightarrow> position_sent h1 t = position_sent h t" by blast+
qed

lemma ready_users_queued: "hub_inv h \<Longrightarrow> uqueue h = [] \<Longrightarrow> ready_users h = {}"
  using hub_invD(8) by (fastforce simp: ready_users_def user_ok_def)

lemma drain:
  assumes "hub_inv h" "\<forall>a. err a = None" "length buf = BCAST_BUF_LEN" "uqueue h = q"
  shows "\<exists>buf' h' rs. bcast_run err (replicate (length q) True) buf h = Inr (buf', h') \<and>
    uqueue h' = [] \<and> ready_users h' = {} \<and> hub_inv h' \<and> distinct rs \<and> set rs = ready_users h \<and>
    udp_out h' = udp_out h @ concat (map (position_sent h) rs)"
  using assms(1,3,4)
proof (induction q arbitrary: h buf)
  case Nil
  then show ?case using ready_users_queued[of h] by (intro exI[of _ buf] exI[of _ h] exI[of _ "[]"]) simp
next
  case (Cons i q)
  let ?h1 = "after_round i (h\<lparr>uqueue := q\<rparr>)"
  note r = hub_inv_round[OF Cons.prems(1,3)] and d = drain_step[OF Cons.prems(1,3)]
  obtain buf1 where b: "bcast_round err i buf (h\<lparr>uqueue := q\<rparr>) = Inr (buf1, ?h1)" "length buf1 = BCAST_BUF_LEN"
    using bcast_round_total[OF r(2,3) assms(2) Cons.prems(2), of i] by blast
  from Cons.IH[OF r(1) b(2) d(1)] obtain buf' h' rs where
    run: "bcast_run err (replicate (length q) True) buf1 ?h1 = Inr (buf', h')" "uqueue h' = []" "ready_users h' = {}" "hub_inv h'"
    and rs: "distinct rs" "set rs = ready_users ?h1" "udp_out h' = udp_out ?h1 @ concat (map (position_sent ?h1) rs)"
    by blast
  have run': "bcast_run err (replicate (length (i # q)) True) buf h = Inr (buf', h')"
    using run(1) b(1) Cons.prems(3) by simp
  have eq: "map (position_sent ?h1) rs = map (position_sent h) rs" using d(3) rs(2) by simp
  from d(2) show ?case
  proof
    assume "ready_users ?h1 = ready_users h \<and> udp_out ?h1 = udp_out h"
    then show ?thesis using run' run(2-4) rs eq by (intro exI[of _ buf'] exI[of _ h'] exI[of _ rs]) simp
  next
    assume "\<exists>r \<in> ready_users h. ready_users ?h1 = ready_users h - {r} \<and> udp_out ?h1 = udp_out h @ position_sent h r"
    then obtain r where "r \<in> ready_users h" "ready_users ?h1 = ready_users h - {r}" "udp_out ?h1 = udp_out h @ position_sent h r"
      by blast
    then show ?thesis using run' run(2-4) rs eq
      by (intro exI[of _ buf'] exI[of _ h'] exI[of _ "r # rs"]) auto
  qed
qed

text \<open>
  A well-formed server with two users: A is logged in on session 0 and has a position ready for its buddies
  B (online, with an address) and C (offline).
\<close>

definition user_A :: User where
  "user_A = (setAddrUdp (setToken (setSockPtr (newUser 1 [65]) (Some 0)) 77) no_addr)
     \<lparr>u_buddies := [[66], [67]], u_ready := Some Slot1, u_empty := Slot2\<rparr>"

definition user_B :: User where
  "user_B = setAddrUdp (setToken (setSockPtr (newUser 2 [66]) (Some 0)) 78) no_addr"

definition hub_live :: hub where
  "hub_live = hub_client\<lparr>users := (users hub_client)(1 \<mapsto> user_A, 2 \<mapsto> user_B), uqueue := [1]\<rparr>"

lemma hub_live_sel [simp]:
  "users hub_live = Map.empty(1 \<mapsto> user_A, 2 \<mapsto> user_B)" "uqueue hub_live = [1]" "pending_cmd_queue hub_live = []"
  "socks hub_live = Map.empty(0 \<mapsto> sock_one\<lparr>sk_host := Str [49], sk_port := Str [50]\<rparr>)" "udp_out hub_live = []"
  "nick_umap hub_live = Map.empty([65] \<mapsto> Some 1, [66] \<mapsto> Some 2)" "backlog hub_live = []"
  "id_umap hub_live = Map.empty(1 \<mapsto> Some 1, 2 \<mapsto> Some 2)" "length (gps_buf hub_live) = BUF_LEN"
  "sessions hub_live = Map.empty(0 \<mapsto> session_one\<lparr>se_user := Some 1\<rparr>)" "cmd_epl hub_live = cmd_epl hub_client"
  "evs hub_live = Map.empty(2 \<mapsto> \<lparr>ev_fd = 5, ev_ptr = Some 0, ev_clbk = ClientSocketClbk\<rparr>)"
  using hub_two_gps by (simp_all add: hub_live_def hub_client_def hub_two_def hub_one_def hub_start_def fun_eq_iff)

lemma hub_live_inv: "hub_inv hub_live"
proof -
  let ?h1 = "hub_client\<lparr>users := (users hub_client)(1 \<mapsto> user_A)\<rparr>"
  let ?h2 = "?h1\<lparr>users := (users ?h1)(2 \<mapsto> user_B)\<rparr>"
  have c: "users hub_client = users hub_two" by (simp add: hub_client_def)
  have 1: "srv_inv ?h1"
    by (rule srv_inv_upd_user[OF hub_client_inv, of 1 "setToken (setSockPtr (newUser 1 [65]) (Some 0)) 77"])
      (simp_all add: c user_A_def newUser_def user_setters)
  have "srv_inv ?h2"
    by (rule srv_inv_upd_user[OF 1, of 2 "newUser 2 [66]"]) (simp_all add: c user_B_def newUser_def user_setters)
  then have "srv_inv hub_live" by (rule srv_inv_cong) (simp_all add: hub_live_def graph_view_def usr_view_def)
  then show ?thesis
    by (auto simp: hub_inv_def backlog_ok_def addressed_def user_ok_def user_A_def user_B_def newUser_def user_setters split: if_splits)
qed

text \<open>
  C8: the broadcast threads catch up. From every well-formed state, if \<open>sendto\<close> works, as many rounds as there are ids
  on the queue return without a fault and empty the queue; afterwards no position is waiting, and each position
  that was waiting has been sent exactly once: one datagram to every buddy of its user that is online and has
  an address. Ids on the queue that occur twice, belong to nobody or to a user without a position do no harm.
\<close>

theorem broadcast_drain:
  assumes inv: "hub_inv h" and ok: "\<forall>a. err a = None" and buf: "length buf = BCAST_BUF_LEN"
  shows "\<exists>buf' h' rs. bcast_run err (replicate (length (uqueue h)) True) buf h = Inr (buf', h') \<and>
    uqueue h' = [] \<and> (\<forall>r u. users h' r = Some u \<longrightarrow> u_ready u = None) \<and>
    distinct rs \<and> set rs = {r. \<exists>u. users h r = Some u \<and> u_ready u \<noteq> None} \<and>
    udp_out h' = udp_out h @ concat (map (position_sent h) rs)"
proof -
  obtain buf' h' rs where d: "bcast_run err (replicate (length (uqueue h)) True) buf h = Inr (buf', h')"
    "uqueue h' = []" "ready_users h' = {}" "distinct rs" "set rs = ready_users h"
    "udp_out h' = udp_out h @ concat (map (position_sent h) rs)"
    using drain[OF inv ok buf refl] by blast
  from d(3) have "\<forall>r u. users h' r = Some u \<longrightarrow> u_ready u = None" unfolding ready_users_def by blast
  with d show ?thesis unfolding ready_users_def by blast
qed

theorem broadcast_drain_witness:
  "\<exists>buf' h'. bcast_run (\<lambda>_. None) [True] (replicate 16 None) hub_live = Inr (buf', h') \<and> uqueue h' = [] \<and>
     udp_out h' = [(no_addr, map Some (coords_bytes 1 zero_coords))]"
proof -
  have b: "length (replicate 16 None :: mem) = BCAST_BUF_LEN" by (simp add: BCAST_BUF_LEN_def)
  obtain buf' h' rs where d: "bcast_run (\<lambda>_. None) [True] (replicate 16 None) hub_live = Inr (buf', h')" "uqueue h' = []"
    "distinct rs" "set rs = {r. \<exists>u. users hub_live r = Some u \<and> u_ready u \<noteq> None}"
    "udp_out h' = concat (map (position_sent hub_live) rs)"
    using broadcast_drain[OF hub_live_inv _ b, of "\<lambda>_. None"] by auto
  have "{r. \<exists>u. users hub_live r = Some u \<and> u_ready u \<noteq> None} = {1}"
    by (auto simp: user_A_def user_B_def newUser_def user_setters split: if_splits)
  with d(3,4) have rs: "rs = [1]" by (cases rs; cases "tl rs") auto
  have "List.map_filter (udp_buddy hub_live) [[66], [67]] = [no_addr]"
    by (simp add: map_filter_simps udp_buddy_def user_B_def newUser_def user_setters)
  then have "position_sent hub_live 1 = [(no_addr, map Some (coords_bytes 1 zero_coords))]"
    by (simp add: position_sent_def sent_for_def user_A_def newUser_def user_setters)
  with d(1,2,5) rs show ?thesis by auto
qed

end
