(* ===== verification/Gps_Faults.thy ===== *)
theory Gps_Faults
  imports Hub_System
begin

text \<open>
  Everything that can go wrong in the GPS server of a well-formed state, and one of the ways spelt out: an
  acknowledgement that waits for a connection which is closed meanwhile.
\<close>

section \<open>What can go wrong in the GPS server\<close>

lemma pending_loop_fault:
  assumes "pending_loop ps h = Inl f" "\<forall>x \<in> set ps. is_ack (fst x)"
  shows "(\<exists>e. f = Throw (SocketException e)) \<or> (f = Undefined UseAfterFree \<and> (\<exists>x \<in> set ps. socks h (snd x) = None))"
  using assms
proof (induction ps arbitrary: h)
  case (Cons a ps)
  obtain p r where a: "a = (p, r)" by fastforce
  show ?case
  proof (cases "socks h r")
    case None
    with Cons.prems(1) a show ?thesis by auto
  next
    case (Some sk)
    obtain c where "p = mk_pkg INITIALIZE_UDP_ACK 4 [Some c]" using Cons.prems(2) a by (auto simp: is_ack_def)
    then have w: "wire p = Inr (map Some (udp_ack_bytes c))" using udp_ack_pkg(3) by simp
    obtain x sk' where s: "Socket_Send sk (map Some (udp_ack_bytes c)) = (x, sk')" by fastforce
    let ?k = "h\<lparr>socks := (socks h)(r \<mapsto> sk')\<rparr>"
    from Cons.prems(1) a Some w s have "(\<exists>e. f = Throw (SocketException e)) \<or> pending_loop ps ?k = Inl f"
      by (cases x) (auto simp: bindF_Inl_iff split: if_splits)
    then show ?thesis
    proof
      assume "pending_loop ps ?k = Inl f"
      from Cons.IH[OF this] Cons.prems(2) show ?thesis by (auto split: if_splits)
    qed simp
  qed
qed simp

lemma sendPendingCmd_fault:
  assumes "sendPendingCmd h = Inl f" "\<forall>x \<in> set (pending_cmd_queue h). is_ack (fst x)"
  shows "(\<exists>e. f = Throw (SocketException e)) \<or>
    (f = Undefined UseAfterFree \<and> (\<exists>x \<in> set (pending_cmd_queue h). socks h (snd x) = None))"
  using assms pending_loop_fault by (auto simp: sendPendingCmd_def bindF_Inl_iff)

lemma sendUdpInitAck_fault:
  assumes "sendUdpInitAck r c h = Inl f" "users h r = Some u" "u_sock u = Some q"
  shows "(\<exists>e. f = Throw (SocketException e)) \<or> (f = Undefined UseAfterFree \<and> socks h q = None)"
proof (cases "socks h q")
  case None
  with assms show ?thesis by (simp add: sendUdpInitAck_def udp_ack_pkg)
next
  case (Some sk)
  obtain x sk' where s: "Socket_Send sk (map Some (udp_ack_bytes c)) = (x, sk')" by fastforce
  with assms Some show ?thesis by (cases x) (auto simp: sendUdpInitAck_def udp_ack_pkg split: if_splits)
qed

text \<open>A user that a datagram makes the server follow a dangling pointer for.\<close>

definition dangling_user :: "hub \<Rightarrow> i32 \<Rightarrow> bool" where
  "dangling_user h i \<longleftrightarrow> (\<exists>r u q. id_umap h i = Some (Some r) \<and> users h r = Some u \<and> u_sock u = Some q \<and> socks h q = None)"

definition unaddressed_user :: "hub \<Rightarrow> i32 \<Rightarrow> bool" where
  "unaddressed_user h i \<longleftrightarrow> (\<exists>r u. id_umap h i = Some (Some r) \<and> users h r = Some u \<and> u_addr_udp u = None)"

lemma processCoordinates_fault:
  assumes run: "processCoordinates (length bs) h = Inl f" and n: "length bs = 12 \<or> length bs = 16"
    and buf: "gps_buf h = map Some bs @ rest" and inv: "reg_inv h"
  shows "f = Undefined UninitRead \<and> (\<exists>i c. decode_coords bs = Some (i, c) \<and> unaddressed_user h i)"
proof -
  have ld: "toint host_order (gps_buf h) k = Inr (val32 (take 4 (drop k bs)))" if "k + 4 \<le> length bs" for k
    unfolding buf using that by (rule toint_bytes)
  let ?i = "val32 (take 4 bs)"
  have i: "toint host_order (gps_buf h) 0 = Inr ?i" using ld[of 0] n by auto
  show ?thesis
  proof (cases rule: get_cases[of "id_umap h" ?i])
    case null
    with run i show ?thesis by (simp add: processCoordinates_def touint_toint)
  next
    case (live r)
    obtain u where u: "users h r = Some u" using reg_inv_id[OF inv live(2)] by blast
    show ?thesis
    proof (cases "u_addr_udp u")
      case None
      with run i live u have "f = Undefined UninitRead" by (simp add: processCoordinates_def touint_toint)
      then show ?thesis using None n live u by (auto simp: decode_coords_def unaddressed_user_def)
    next
      case (Some a0)
      obtain z where z: "(if length bs = 16 then toint host_order (gps_buf h) 12 else Inr 0) = (Inr z :: i32 res)"
        using ld[of 12] by (cases "length bs = 16") auto
      have "toint host_order (gps_buf h) 4 = Inr (val32 (take 4 (drop 4 bs)))"
        "toint host_order (gps_buf h) 8 = Inr (val32 (take 4 (drop 8 bs)))" using ld[of 4] ld[of 8] n by auto
      from processCoordinates_eq[OF i this z live(2) u Some] run show ?thesis by (auto split: if_splits)
    qed
  qed
qed

lemma initAddrUdp_fault:
  assumes run: "initAddrUdp h = Inl f" and n: "length bs = 8" and buf: "gps_buf h = map Some bs @ rest"
    and inv: "reg_inv h" "addressed h" and ok: "\<forall>r u. users h r = Some u \<longrightarrow> u_token u \<noteq> None \<and> u_sock u \<noteq> None"
  shows "(\<exists>e. f = Throw (SocketException e)) \<or>
    (f = Undefined UseAfterFree \<and> (\<exists>i t. decode_init bs = Some (i, t) \<and> dangling_user h i))"
proof -
  let ?i = "val32 (take 4 bs)" and ?t = "val32 (drop 4 bs)"
  have ld: "toint host_order (gps_buf h) 0 = Inr ?i" "toint host_order (gps_buf h) 4 = Inr ?t"
    unfolding buf using n by (simp_all add: toint_bytes)
  have dec: "decode_init bs = Some (?i, ?t)" using n by (simp add: decode_init_def)
  show ?thesis
  proof (cases rule: get_cases[of "id_umap h" ?i])
    case null
    with run ld show ?thesis by (simp add: initAddrUdp_def)
  next
    case (live r)
    obtain u where u: "users h r = Some u" using reg_inv_id[OF inv(1) live(2)] by blast
    then obtain tok q where t: "u_token u = Some tok" "u_sock u = Some q" using ok by blast
    show ?thesis
    proof (cases "socks h q")
      case None
      then have "dangling_user h ?i" using live u t by (auto simp: dangling_user_def)
      moreover have "f = Undefined UseAfterFree"
        using run ld live u t None by (simp add: initAddrUdp_def id_umap_idem sendUdpInitAck_def udp_ack_pkg split: if_splits)
      ultimately show ?thesis using dec by blast
    next
      case (Some sk)
      then obtain tcp where "sk_addr sk = Some tcp" using inv(2) by (auto simp: addressed_def)
      note eq = initAddrUdp_eq[OF ld live(2) u t Some this]
      have "socks h q \<noteq> None" using Some by simp
      show ?thesis
      proof (cases "?t = tok \<and> ip_equals tcp (their_addr h)")
        case True
        with eq run have "sendUdpInitAck r 1 (h\<lparr>users := (users h)(r \<mapsto> setAddrUdp u (their_addr h))\<rparr>) = Inl f" by simp
        from sendUdpInitAck_fault[OF this, of "setAddrUdp u (their_addr h)" q] t Some show ?thesis by (simp add: setAddrUdp_def)
      next
        case False
        with eq run have "sendUdpInitAck r 0 h = Inl f" by (simp only: if_False)
        from sendUdpInitAck_fault[OF this u t(2)] Some show ?thesis by simp
      qed
    qed
  qed
qed

text \<open>
  C9: everything that can go wrong when a well-formed server gets a datagram, whatever its length, bytes and sender.
  Apart from the exceptions of \<open>send\<close> and \<open>recvfrom\<close> there are exactly three faults: a position for a user
  that has no UDP address yet (a read of an uninitialised member), a registration for a user whose socket was
  deleted, and a pending acknowledgement whose socket was deleted (both a use after free). In particular no
  datagram causes an access outside a buffer.
\<close>

theorem gps_server_faults:
  assumes inv: "hub_inv h" and run: "gps_incomingData (Inr (bs, a)) h = Inl f"
  shows "(\<exists>e. f = Throw (SocketException e)) \<or>
    (f = Undefined UninitRead \<and> (\<exists>i c. decode_coords bs = Some (i, c) \<and> unaddressed_user h i)) \<or>
    (f = Undefined UseAfterFree \<and>
      ((\<exists>i t. decode_init bs = Some (i, t) \<and> dangling_user h i) \<or> (\<exists>x \<in> set (pending_cmd_queue h). socks h (snd x) = None)))"
proof -
  let ?h = "received bs a h"
  have len: "length (gps_buf h) = BUF_LEN" by (rule hub_invD(6)[OF inv])
  have k: "hub_inv ?h" by (rule hub_inv_received[OF inv])
  have same: "unaddressed_user ?h = unaddressed_user h" "dangling_user ?h = dangling_user h"
    by (simp_all add: fun_eq_iff unaddressed_user_def dangling_user_def)
  have ok: "\<forall>r u. users ?h r = Some u \<longrightarrow> u_token u \<noteq> None \<and> u_sock u \<noteq> None"
    using hub_invD(8)[OF k] by (simp add: user_ok_def)
  from run consider (coords) "length bs = 12 \<or> length bs = 16" "processCoordinates (length bs) ?h = Inl f"
    | (init) "length bs = 8" "initAddrUdp ?h = Inl f"
    | (pending) k where "dispatch (length bs) ?h = Inr k" "sendPendingCmd k = Inl f"
    unfolding gps_incomingData_eq[OF len] by (auto simp: bindF_Inl_iff dispatch_def split: if_splits)
  then show ?thesis
  proof cases
    case coords
    then have "gps_buf ?h = map Some bs @ drop (length bs) (gps_buf h)" by (intro received_buf(2)[OF len]) auto
    from processCoordinates_fault[OF coords(2,1) this hub_invD(2)[OF k]] same(1) show ?thesis by simp
  next
    case init
    then have "gps_buf ?h = map Some bs @ drop (length bs) (gps_buf h)" by (intro received_buf(2)[OF len]) auto
    from initAddrUdp_fault[OF init(2,1) this hub_invD(2,5)[OF k] ok] same(2) show ?thesis by auto
  next
    case (pending k')
    from dispatch_effect[OF len pending(1)] obtain g where g: "acks_only (dgram_hub g a ?h) k'" by blast
    then obtain S q where k': "k' = (dgram_hub g a ?h)\<lparr>socks := S, pending_cmd_queue := q\<rparr>"
      "\<forall>r. map_option sock_name (S r) = map_option sock_name (socks (dgram_hub g a ?h) r)"
      "\<forall>x \<in> set q. x \<in> set (pending_cmd_queue (dgram_hub g a ?h)) \<or> is_ack (fst x) \<and> S (snd x) \<noteq> None"
      by (rule acks_onlyE)
    have g': "socks (dgram_hub g a ?h) = socks h" "pending_cmd_queue (dgram_hub g a ?h) = pending_cmd_queue h"
      by (cases g; simp add: located_def)+
    have "\<forall>x \<in> set q. is_ack (fst x)" using k'(3) hub_invD(7)[OF inv] unfolding g' by blast
    with sendPendingCmd_fault[OF pending(2)] k'(1) consider (throw) e where "f = Throw (SocketException e)"
      | (uaf) x where "f = Undefined UseAfterFree" "x \<in> set q" "S (snd x) = None" by auto
    then show ?thesis
    proof cases
      case uaf
      have "socks h (snd x) = None" using k'(2)[rule_format, of "snd x"] uaf(3) unfolding g' by simp
      with uaf k'(3) show ?thesis unfolding g' by blast
    qed simp
  qed
qed

theorem gps_server_faults_witness:
  "\<exists>h. hub_inv h \<and> gps_incomingData (Inr ([], no_addr)) h = Inl (Undefined UseAfterFree) \<and>
     (\<exists>x \<in> set (pending_cmd_queue h). socks h (snd x) = None)"
proof -
  let ?h = "hub_live\<lparr>pending_cmd_queue := [(mk_pkg INITIALIZE_UDP_ACK 4 [Some 1], 7)]\<rparr>"
  have s: "srv_inv ?h" by (rule srv_inv_cong[OF hub_invD(1)[OF hub_live_inv]]) (simp_all add: graph_view_def usr_view_def)
  have inv: "hub_inv ?h" using hub_live_inv s by (auto simp: hub_inv_def backlog_ok_def addressed_def is_ack_def)
  have run: "gps_incomingData (Inr ([], no_addr)) ?h = Inl (Undefined UseAfterFree)"
    using gps_incomingData_eq[of ?h "[]" no_addr] by (simp add: dispatch_def sendPendingCmd_def)
  from gps_server_faults[OF inv run] inv run show ?thesis
    by (intro exI[of _ ?h]) (simp add: decode_init_def)
qed

section \<open>Acknowledgements for connections that are closed\<close>

lemma ack_blocked:
  assumes "users h r = Some u" "u_sock u = Some q" "socks h q = Some sk" "sk_tx sk = SendErr EWOULDBLOCK # tx"
  shows "sendUdpInitAck r c h = Inr (h\<lparr>socks := (socks h)(q \<mapsto> sk\<lparr>sk_tx := tx\<rparr>),
    pending_cmd_queue := pending_cmd_queue h @ [(mk_pkg INITIALIZE_UDP_ACK 4 [Some c], q)]\<rparr>)"
  using assms by (simp add: sendUdpInitAck_def udp_ack_pkg Socket_Send_def)

lemma pending_blocked:
  assumes "pending_cmd_queue h = [(mk_pkg INITIALIZE_UDP_ACK 4 [Some c], q)]" "socks h q = Some sk"
    "sk_tx sk = SendErr EWOULDBLOCK # tx"
  shows "sendPendingCmd h = Inr (h\<lparr>socks := (socks h)(q \<mapsto> sk\<lparr>sk_tx := tx\<rparr>)\<rparr>)"
  using assms by (simp add: sendPendingCmd_def udp_ack_pkg Socket_Send_def)

text \<open>
  C10: an acknowledgement that outlives its connection. When a client's TCP socket is full, the acknowledgement
  of its UDP registration is put on the list of pending commands with a pointer to the socket. Closing the
  connection deletes the socket but not the entry, so the next timeout (and the next datagram) makes the GPS server
  send on the freed socket. This happens from every well-formed state with a logged-in client, for either
  outcome of the registration.
\<close>

theorem pending_ack_dangling:
  assumes inv: "hub_inv h" and s: "sessions h s = Some se" "se_user se = Some r"
    and u: "users h r = Some u" "u_sock u = Some (se_sock se)"
    and sk: "socks h (se_sock se) = Some sk" "sk_tx sk = SendErr EWOULDBLOCK # SendErr EWOULDBLOCK # tx"
    and ev: "evs h e = Some ev" "ev_clbk ev = ClientSocketClbk" "ev_ptr ev = Some s"
    and ep: "removeEvent (cmd_epl h) (ev_fd ev) = Inr ep" and idle: "pending_cmd_queue h = []"
  shows "\<exists>h1 h2. gps_incomingData (Inr (be32 (u_id u) @ be32 t, a)) h = Inr h1 \<and> closeConnection e h1 = Inr h2 \<and>
    users h2 r = None \<and> socks h2 (se_sock se) = None \<and> sendPendingCmd h2 = Inl (Undefined UseAfterFree)"
proof -
  let ?bs = "be32 (u_id u) @ be32 t" and ?q = "se_sock se"
  let ?h = "received ?bs a h"
  have len: "length (gps_buf h) = BUF_LEN" by (rule hub_invD(6)[OF inv])
  obtain tok where tok: "u_token u = Some tok" using hub_invD(8)[OF inv u(1)] by (auto simp: user_ok_def)
  obtain tcp where tcp: "sk_addr sk = Some tcp" using hub_invD(5)[OF inv] sk(1) by (auto simp: addressed_def)
  have id: "id_umap ?h (u_id u) = Some (Some r)" using reg_inv_user(5)[OF hub_invD(2)[OF inv] u(1)] by simp
  have b: "gps_buf ?h = map Some ?bs @ drop 8 (gps_buf h)" using received_buf(2)[OF len, of ?bs a] by simp
  have ld: "toint host_order (gps_buf ?h) 0 = Inr (u_id u)" "toint host_order (gps_buf ?h) 4 = Inr t"
    unfolding b using toint_datagram[of "[]" 0 host_order "u_id u" "be32 t" "drop 8 (gps_buf h)"]
      toint_datagram[of "be32 (u_id u)" 4 host_order t "[]" "drop 8 (gps_buf h)"] by simp_all
  let ?ok = "t = tok \<and> ip_equals tcp a"
  let ?c = "if ?ok then 1 else 0"
  let ?g = "if ?ok then ?h\<lparr>users := (users h)(r \<mapsto> setAddrUdp u a)\<rparr> else ?h"
  let ?u = "if ?ok then setAddrUdp u a else u"
  let ?p = "(mk_pkg INITIALIZE_UDP_ACK 4 [Some ?c], ?q)"
  have run: "initAddrUdp ?h = sendUdpInitAck r ?c ?g"
    using initAddrUdp_eq[OF ld id _ tok u(2) _ tcp] u(1) sk(1) by simp
  have g: "users ?g r = Some ?u" "u_sock ?u = Some ?q" "socks ?g ?q = Some sk" "pending_cmd_queue ?g = []"
    "sessions ?g = sessions h" "evs ?g = evs h" "cmd_epl ?g = cmd_epl h"
    using u sk(1) idle by (simp_all add: setAddrUdp_def received_def)
  let ?k = "?g\<lparr>socks := (socks ?g)(?q \<mapsto> sk\<lparr>sk_tx := SendErr EWOULDBLOCK # tx\<rparr>), pending_cmd_queue := [?p]\<rparr>"
  let ?h1 = "?k\<lparr>socks := (socks ?k)(?q \<mapsto> sk\<lparr>sk_tx := tx\<rparr>)\<rparr>"
  have "initAddrUdp ?h = Inr ?k" using run ack_blocked[OF g(1-3) sk(2), of ?c] g(4) by simp
  moreover have "sendPendingCmd ?k = Inr ?h1" using pending_blocked[of ?k ?c ?q _ tx] by simp
  ultimately have h1: "gps_incomingData (Inr (?bs, a)) h = Inr ?h1"
    unfolding gps_incomingData_eq[OF len] by (simp add: dispatch_def)
  have inv1: "srv_inv ?h1" using hub_inv_datagram[OF inv h1] by (rule hub_invD)
  have sel: "sessions ?h1 = sessions h" "evs ?h1 = evs h" "cmd_epl ?h1 = cmd_epl h" "users ?h1 r = Some ?u"
    "pending_cmd_queue ?h1 = [?p]"
    using g by simp_all
  have "evs ?h1 e = Some ev" using ev(1) sel(2) by simp
  then obtain s' se' where c: "ev_ptr ev = Some s'" "sessions ?h1 s' = Some se'"
    "closeConnection e ?h1 = bindF (removeEvent (cmd_epl ?h1) (ev_fd ev)) (\<lambda>ep. Inr (closed e s' se' ep ?h1))"
    by (rule closeConnection_eq[OF inv1 _ ev(2)])
  have eq: "s' = s" "se' = se" using c(1,2) ev(3) s(1) sel(1) by simp_all
  let ?h2 = "closed e s se ep ?h1"
  have h2: "closeConnection e ?h1 = Inr ?h2" by (simp only: c(3) sel(3) ep bindF.simps eq)
  have "pending_cmd_queue (closed e s se ep k) = pending_cmd_queue k" for k
    by (auto simp: closed_def Let_def split: option.splits)
  then have f: "users ?h2 r = None" "socks ?h2 ?q = None" "pending_cmd_queue ?h2 = [?p]"
    using sel(4,5) s(2) by (simp_all add: closed_def closed_sel)
  have "sendPendingCmd ?h2 = Inl (Undefined UseAfterFree)" using f(2,3) by (simp add: sendPendingCmd_def)
  then show ?thesis by (intro exI[of _ ?h1] exI[of _ ?h2] conjI h1 h2 f(1,2))
qed

theorem pending_ack_dangling_witness:
  "\<exists>h h1 h2. hub_inv h \<and> gps_incomingData (Inr (be32 1 @ be32 77, no_addr)) h = Inr h1 \<and>
     closeConnection 2 h1 = Inr h2 \<and> sendPendingCmd h2 = Inl (Undefined UseAfterFree)"
proof -
  let ?k = "sock_one\<lparr>sk_host := Str [49], sk_port := Str [50]\<rparr>"
  let ?sk = "?k\<lparr>sk_tx := [SendErr EWOULDBLOCK, SendErr EWOULDBLOCK]\<rparr>"
  let ?h = "hub_live\<lparr>socks := (socks hub_live)(0 \<mapsto> ?sk)\<rparr>"
  have inv: "hub_inv ?h" using hub_inv_acks[OF hub_live_inv acks_only_sock[of hub_live 0 ?k ?sk]] by simp
  obtain ep where ep: "removeEvent (cmd_epl ?h) 5 = Inr ep" using hub_client_event by auto
  have u: "users ?h 1 = Some user_A" "u_sock user_A = Some 0" "u_id user_A = 1"
    by (simp_all add: user_A_def newUser_def user_setters)
  let ?s = "session_one\<lparr>se_user := Some 1\<rparr>" and ?e = "\<lparr>ev_fd = 5, ev_ptr = Some 0, ev_clbk = ClientSocketClbk\<rparr>"
  have "sessions ?h 0 = Some ?s" "se_user ?s = Some 1" "u_sock user_A = Some (se_sock ?s)" "socks ?h (se_sock ?s) = Some ?sk"
    "sk_tx ?sk = SendErr EWOULDBLOCK # SendErr EWOULDBLOCK # []" "evs ?h 2 = Some ?e" "ev_clbk ?e = ClientSocketClbk"
    "ev_ptr ?e = Some 0" "removeEvent (cmd_epl ?h) (ev_fd ?e) = Inr ep" "pending_cmd_queue ?h = []"
    using u(2) ep by simp_all
  from pending_ack_dangling[OF inv this(1,2) u(1) this(3-10), of 77 no_addr] inv u(3) show ?thesis by auto
qed

end
