(* ===== verification/Service_Refinement.thy ===== *)
theory Service_Refinement
  imports Gps_Faults "HOL-Library.Multiset"
begin

text \<open>
  What the whole server promises its users, without heaps, sockets, buffers and queues: who is online, with which
  buddies, at which address, which position is waiting to be delivered, and which datagrams were sent. Every
  step of the server implements a sequence of steps of that service.
\<close>

section \<open>The abstract service\<close>

record member =
  m_id :: i32
  m_buddies :: "cstring set"
  m_token :: i32
  m_addr :: "sockaddr_storage option"
  m_pos :: "Coordinates option"

type_synonym service = "cstring \<rightharpoonup> member"
type_synonym outbox = "(sockaddr_storage \<times> mem) list"

definition new_member :: "i32 \<Rightarrow> i32 \<Rightarrow> member" where
  "new_member i t = \<lparr>m_id = i, m_buddies = {}, m_token = t, m_addr = None, m_pos = None\<rparr>"

text \<open>The datagrams that deliver a position: one to every buddy that is online and has an address.\<close>

definition deliveries :: "service \<Rightarrow> member \<Rightarrow> Coordinates \<Rightarrow> (sockaddr_storage \<times> mem) multiset" where
  "deliveries A m c = image_mset (\<lambda>n. (the (Option.bind (A n) m_addr), map Some (coords_bytes (m_id m) c)))
     (mset_set {n \<in> m_buddies m. Option.bind (A n) m_addr \<noteq> None})"

inductive svc_step :: "action \<Rightarrow> service \<times> outbox \<Rightarrow> service \<times> outbox \<Rightarrow> bool" where
  register: "A n = None \<Longrightarrow> i \<noteq> 0 \<Longrightarrow> \<forall>n' m. A n' = Some m \<longrightarrow> m_id m \<noteq> i \<Longrightarrow>
     svc_step Command (A, out) (A(n \<mapsto> new_member i t), out)"
| befriend: "A n = Some m \<Longrightarrow> svc_step Command (A, out) (A(n \<mapsto> m\<lparr>m_buddies := m_buddies m \<union> N\<rparr>), out)"
| unfriend: "A n = Some m \<Longrightarrow> svc_step Command (A, out) (A(n \<mapsto> m\<lparr>m_buddies := m_buddies m - N\<rparr>), out)"
| leave: "A n = Some m \<Longrightarrow> svc_step Command (A, out) (A(n := None), out)"
| bind: "A n = Some m \<Longrightarrow> decode_init bs = Some (m_id m, m_token m) \<Longrightarrow>
     svc_step (Datagram bs a) (A, out) (A(n \<mapsto> m\<lparr>m_addr := Some a\<rparr>), out)"
| report: "A n = Some m \<Longrightarrow> decode_coords bs = Some (m_id m, c) \<Longrightarrow> m_addr m = Some a0 \<Longrightarrow> socket_equals a a0 \<Longrightarrow>
     m_pos m = None \<Longrightarrow> svc_step (Datagram bs a) (A, out) (A(n \<mapsto> m\<lparr>m_pos := Some c\<rparr>), out)"
| deliver: "A n = Some m \<Longrightarrow> m_pos m = Some c \<Longrightarrow> mset ds = deliveries A m c \<Longrightarrow>
     svc_step Round (A, out) (A(n \<mapsto> m\<lparr>m_pos := None\<rparr>), out @ ds)"

inductive_cases svc_stepE: "svc_step act x y"

section \<open>Reading it off the state\<close>

definition member_of :: "User \<Rightarrow> member" where
  "member_of u = \<lparr>m_id = u_id u, m_buddies = set (u_buddies u), m_token = the (u_token u), m_addr = u_addr_udp u,
     m_pos = map_option (slotOf u) (u_ready u)\<rparr>"

definition service_of :: "hub \<Rightarrow> service" where
  "service_of h n = (case nick_umap h n of Some (Some r) \<Rightarrow> map_option member_of (users h r) | _ \<Rightarrow> None)"

definition abs_hub :: "hub \<Rightarrow> service \<times> outbox" where
  "abs_hub h = (service_of h, udp_out h)"

lemma service_user:
  assumes "reg_inv h" "users h r = Some u"
  shows "service_of h (u_nick u) = Some (member_of u)"
  using reg_inv_user(4)[OF assms] assms(2) by (simp add: service_of_def)

lemma service_cong: "nick_umap h' = nick_umap h \<Longrightarrow> users h' = users h \<Longrightarrow> service_of h' = service_of h"
  by (rule ext) (simp add: service_of_def cong: option.case_cong)

lemma nick_owner:
  assumes inv: "reg_inv h" and u: "users h r = Some u"
  shows "nick_umap h n = Some (Some r) \<longleftrightarrow> n = u_nick u"
  using reg_inv_user(4)[OF inv u] reg_inv_nick[OF inv, of n "Some r"] u by (metis option.inject)

lemma service_upd:
  assumes inv: "reg_inv h" and u: "users h r = Some u"
    and h': "users h' = (users h)(r \<mapsto> u')" "nick_umap h' = nick_umap h"
  shows "service_of h' = (service_of h)(u_nick u \<mapsto> member_of u')"
proof (rule ext)
  fix n
  show "service_of h' n = ((service_of h)(u_nick u \<mapsto> member_of u')) n"
    using nick_owner[OF inv u, of n] u by (auto simp: service_of_def h' split: option.splits)
qed

lemma service_upd_same:
  assumes "reg_inv h" "users h r = Some u" "users h' = (users h)(r \<mapsto> u')" "nick_umap h' = nick_umap h"
    and "member_of u' = member_of u"
  shows "service_of h' = service_of h"
  using service_upd[OF assms(1-4)] service_user[OF assms(1,2)] assms(5) by (simp add: fun_upd_idem)

lemma service_registry: "registry_of h n = map_option (\<lambda>m. (m_id m, m_buddies m)) (service_of h n)"
  by (auto simp: registry_of_def service_of_def member_of_def option.map_comp comp_def split: option.splits)

lemma service_None: "reg_inv h \<Longrightarrow> service_of h n = None \<longleftrightarrow> nick_umap h n = None"
  using registry_of_None[of h n] by (simp add: service_registry)

section \<open>Commands\<close>

text \<open>A command leaves the token, the address and the position of everybody who is online.\<close>

lemma member_core:
  assumes "core u' = core u"
  shows "member_of u' = (member_of u)\<lparr>m_buddies := set (u_buddies u')\<rparr>"
  using core_eqD[OF assms] by (simp add: member_of_def cong: option.map_cong)

lemma nick_umap_core:
  assumes inv: "reg_inv h" "reg_inv h'" and c: "core_view h' = core_view h"
  shows "nick_umap h' = nick_umap h"
proof (rule ext)
  fix n
  have sub: "nick_umap k' n = nick_umap k n"
    if k: "reg_inv k" "reg_inv k'" "core_view k' = core_view k" and p: "nick_umap k n = Some p" for k k' p
  proof -
    obtain r u where u: "p = Some r" "users k r = Some u" "u_nick u = n" using k(1) p by (rule reg_inv_nick)
    then obtain u' where "users k' r = Some u'" "core u' = core u" using core_viewD(2)[OF k(3), of r] by auto
    with reg_inv_user(4)[OF k(2)] core_eqD(2) u p show ?thesis by metis
  qed
  show "nick_umap h' n = nick_umap h n"
    using sub[OF inv c] sub[OF inv(2,1) c[symmetric]] by (cases "nick_umap h n"; cases "nick_umap h' n") auto
qed

lemma service_core:
  assumes inv: "reg_inv h" "reg_inv h'" and c: "core_view h' = core_view h"
  shows "service_of h' n = map_option (\<lambda>m. m\<lparr>m_buddies := snd (the (registry_of h' n))\<rparr>) (service_of h n)"
proof (cases "nick_umap h n")
  case None
  then have "service_of h n = None" "service_of h' n = None"
    using service_None[OF inv(1), of n] service_None[OF inv(2), of n] nick_umap_core[OF inv c] by simp_all
  then show ?thesis by simp
next
  case (Some p)
  obtain r u where u: "p = Some r" "users h r = Some u" "u_nick u = n" using inv(1) Some by (rule reg_inv_nick)
  then obtain u' where u': "users h' r = Some u'" "core u' = core u" using core_viewD(2)[OF c, of r] by auto
  then have "u_nick u' = n" using core_eqD(2)[of u' u] u(3) by simp
  with service_user[OF inv(1) u(2)] service_user[OF inv(2) u'(1)] registry_of_user[OF inv(2) u'(1)] member_core[OF u'(2)] u(3)
  show ?thesis by simp
qed

lemma service_core_buddies:
  assumes inv: "reg_inv h" "reg_inv h'" "core_view h' = core_view h"
    and r: "registry_of h' = change_buddies me f (registry_of h)" and f: "f = (\<lambda>B. B \<union> N) \<or> f = (\<lambda>B. B - N)"
  shows "(svc_step Command)\<^sup>*\<^sup>* (service_of h, out) (service_of h', out)"
proof (cases "\<exists>n m. me = Some n \<and> service_of h n = Some m")
  case True
  then obtain n m where m: "me = Some n" "service_of h n = Some m" by blast
  then have r': "registry_of h' = (registry_of h)(n \<mapsto> (m_id m, f (m_buddies m)))"
    using r by (simp add: change_buddies_def service_registry)
  have "service_of h' = (service_of h)(n \<mapsto> m\<lparr>m_buddies := f (m_buddies m)\<rparr>)"
  proof (rule ext)
    fix k
    show "service_of h' k = ((service_of h)(n \<mapsto> m\<lparr>m_buddies := f (m_buddies m)\<rparr>)) k"
      using service_core[OF inv, of k] m(2) by (cases "service_of h k") (auto simp: r' service_registry[of h k])
  qed
  then show ?thesis using f m(2) svc_step.befriend[of "service_of h" n m out N] svc_step.unfriend[of "service_of h" n m out N] by auto
next
  case False
  then have "change_buddies me f (registry_of h) = registry_of h"
    by (auto simp: change_buddies_def service_registry split: option.splits)
  then have "service_of h' k = service_of h k" for k
    using service_core[OF inv, of k] r by (cases "service_of h k") (auto simp: service_registry)
  then have "service_of h' = service_of h" by (rule ext)
  then show ?thesis by simp
qed

lemma service_joined:
  assumes inv: "reg_inv h" "reg_inv h'" and j: "joined h r u h'"
  shows "svc_step Command (service_of h, out) (service_of h', out)"
proof -
  have j': "users h r = None" "users h' = (users h)(r \<mapsto> u)" "fresh_user u" using j by (auto simp: joined_def)
  have u: "users h' r = Some u" using j'(2) by simp
  have old: "users h' q = Some v" "q \<noteq> r" if "users h q = Some v" for q v using j'(1,2) that by auto
  have "nick_umap h' n = (if n = u_nick u then Some (Some r) else nick_umap h n)" for n
  proof (cases "nick_umap h' n")
    case None
    have "nick_umap h n = None"
    proof (rule ccontr)
      assume "nick_umap h n \<noteq> None"
      then obtain p where "nick_umap h n = Some p" by blast
      then obtain q v where "users h q = Some v" "u_nick v = n" using reg_inv_nick[OF inv(1)] by metis
      with old reg_inv_user(4)[OF inv(2)] None show False by force
    qed
    then show ?thesis using None reg_inv_user(4)[OF inv(2) u] by auto
  next
    case (Some p)
    obtain q v where v: "p = Some q" "users h' q = Some v" "u_nick v = n" using inv(2) Some by (rule reg_inv_nick)
    show ?thesis
    proof (cases "q = r")
      case True
      with v u Some show ?thesis by auto
    next
      case False
      then have "users h q = Some v" using v(2) j'(2) by simp
      then have "nick_umap h n = Some (Some q)" using reg_inv_user(4)[OF inv(1)] v(3) by blast
      moreover have "n \<noteq> u_nick u" using reg_inv_unique(1)[OF inv(2) u v(2)] v(3) False by auto
      ultimately show ?thesis using Some v(1) by simp
    qed
  qed
  note nm = this
  have "nick_umap h n \<noteq> Some (Some r)" for n
  proof
    assume "nick_umap h n = Some (Some r)"
    with inv(1) obtain q v where "Some r = Some q" "users h q = Some v" by (rule reg_inv_nick)
    with j'(1) show False by simp
  qed
  then have "service_of h' n = ((service_of h)(u_nick u \<mapsto> member_of u)) n" for n
    unfolding service_of_def nm j'(2) by (auto split: option.splits)
  then have s: "service_of h' = (service_of h)(u_nick u \<mapsto> member_of u)" by (rule ext)
  have fresh: "service_of h (u_nick u) = None"
  proof (rule ccontr)
    assume "service_of h (u_nick u) \<noteq> None"
    then obtain p where "nick_umap h (u_nick u) = Some p" using service_None[OF inv(1), of "u_nick u"] by auto
    with inv(1) obtain q v where v: "users h q = Some v" "u_nick v = u_nick u" by (rule reg_inv_nick)
    from reg_inv_unique(1)[OF inv(2) u old(1)[OF v(1)]] old(2)[OF v(1)] v(2) show False by simp
  qed
  have "m_id m \<noteq> u_id u" if m: "service_of h n = Some m" for n m
  proof -
    obtain q v where v: "users h q = Some v" "m = member_of v"
      using m unfolding service_of_def by (cases "nick_umap h n") (auto split: option.splits)
    from reg_inv_unique(2)[OF inv(2) u old(1)[OF v(1)]] old(2)[OF v(1)] show ?thesis by (simp add: v(2) member_of_def)
  qed
  moreover obtain t where "member_of u = new_member (u_id u) t"
    using j'(3) by (auto simp: fresh_user_def member_of_def new_member_def newUser_def user_setters)
  ultimately show ?thesis
    using svc_step.register[of "service_of h" "u_nick u" "u_id u" out t] fresh reg_inv_user(2)[OF inv(2) u] by (auto simp: s)
qed

lemma handle_svc:
  assumes inv: "srv_inv h" and run: "handle env pkg s h = Inr h'"
  shows "(svc_step Command)\<^sup>*\<^sup>* (service_of h, out) (service_of h', out)"
proof -
  have r: "reg_inv h" "reg_inv h'" using inv srv_inv_handle[OF inv run] by (simp_all add: srv_inv_def)
  obtain t where t: "getType pkg = Inr t" using run by (auto simp: handle_def fault_simps)
  from core_view_handle[OF r(1) run] show ?thesis
  proof
    assume c: "core_view h' = core_view h"
    have nm: "nick_umap h' = nick_umap h" by (rule nick_umap_core[OF r c])
    have none: "registry_of h' = change_buddies None (\<lambda>B. B \<union> {}) (registry_of h)" if "registry_of h' = registry_of h"
      using that by (simp add: change_buddies_def)
    have "registry_of h' = registry_of h \<or>
        (\<exists>N. registry_of h' = change_buddies (session_nick h s) (\<lambda>B. B \<union> N) (registry_of h) \<or>
          registry_of h' = change_buddies (session_nick h s) (\<lambda>B. B - N) (registry_of h))"
    proof (cases "t = REGISTER_NICK")
      case True
      obtain nick where n: "if registry_of h nick \<noteq> None then registry_of h' = registry_of h
         else \<exists>i. fresh_id (registry_of h) i \<and> registry_of h' = (registry_of h)(nick \<mapsto> (i, {}))"
        using handle_refines[OF inv t run] True by auto
      have "registry_of h nick = None \<longleftrightarrow> registry_of h' nick = None" using registry_of_None r nm by metis
      with n show ?thesis by (auto split: if_splits)
    next
      case False
      with handle_refines[OF inv t run] show ?thesis by (simp split: if_splits) blast+
    qed
    with none have "\<exists>me N f. (f = (\<lambda>B. B \<union> N) \<or> f = (\<lambda>B. B - N)) \<and> registry_of h' = change_buddies me f (registry_of h)"
      by blast
    then show ?thesis using service_core_buddies[OF r c] by blast
  next
    assume "\<exists>r u. joined h r u h'"
    then show ?thesis using service_joined[OF r] by blast
  qed
qed

lemma service_closed:
  assumes r: "reg_inv h"
  shows "(svc_step Command)\<^sup>*\<^sup>* (service_of h, out) (service_of (closed e s se ep h), out)"
proof (cases "\<exists>ur u. se_user se = Some ur \<and> users h ur = Some u")
  case True
  then obtain ur u where u: "se_user se = Some ur" "users h ur = Some u" by blast
  have "service_of (closed e s se ep h) n = ((service_of h)(u_nick u := None)) n" for n
    using u nick_owner[OF r u(2), of n] by (auto simp: closed_def service_of_def split: option.splits)
  then have "service_of (closed e s se ep h) = (service_of h)(u_nick u := None)" by (rule ext)
  then show ?thesis using svc_step.leave[of "service_of h" "u_nick u" "member_of u" out] service_user[OF r u(2)] by auto
next
  case False
  then have "service_of (closed e s se ep h) = service_of h"
    by (intro service_cong) (auto simp: closed_def Let_def split: option.splits)
  then show ?thesis by simp
qed

interpretation svc_rel: command_relation "\<lambda>h h'. (svc_step Command)\<^sup>*\<^sup>* (abs_hub h) (abs_hub h')" env for env
proof unfold_locales
  show "(svc_step Command)\<^sup>*\<^sup>* (abs_hub k) (abs_hub k')"
    if "users k' = users k" "nick_umap k' = nick_umap k" "gps_view k' = gps_view k" for k k'
    using service_cong[OF that(2,1)] that(3) by (simp add: abs_hub_def gps_view_def)
  show "(svc_step Command)\<^sup>*\<^sup>* (abs_hub k) (abs_hub k')" if "srv_inv k" "handle env pkg s k = Inr k'" for k pkg s k'
  proof -
    have "udp_out k' = udp_out k"
      using core_view_handle[OF _ that(2)] that(1) core_viewD(1)[of k' k] by (auto simp: srv_inv_def joined_def gps_view_def)
    then show ?thesis using handle_svc[OF that, of "udp_out k"] by (simp add: abs_hub_def)
  qed
  show "(svc_step Command)\<^sup>*\<^sup>* (abs_hub k) (abs_hub (closed e s se ep k))" if "srv_inv k" for k e s se ep
  proof -
    have "udp_out (closed e s se ep k) = udp_out k" by (auto simp: closed_def Let_def split: option.splits)
    then show ?thesis using service_closed[of k "udp_out k" e s se ep] that by (simp add: abs_hub_def srv_inv_def)
  qed
qed (blast intro: rtranclp_trans)

section \<open>Datagrams\<close>

lemma abs_hub_cong: "nick_umap h' = nick_umap h \<Longrightarrow> users h' = users h \<Longrightarrow> udp_out h' = udp_out h \<Longrightarrow> abs_hub h' = abs_hub h"
  using service_cong[of h' h] by (simp add: abs_hub_def)

lemma abs_hub_acks: "acks_only h h' \<Longrightarrow> abs_hub h' = abs_hub h"
  by (erule acks_onlyE) (auto intro: abs_hub_cong)

lemma abs_hub_upd:
  assumes "reg_inv h" "users h r = Some u" "users h' = (users h)(r \<mapsto> u')" "nick_umap h' = nick_umap h" "udp_out h' = udp_out h"
  shows "abs_hub h' = ((service_of h)(u_nick u \<mapsto> member_of u'), udp_out h)"
  using service_upd[OF assms(1-4)] assms(5) by (simp add: abs_hub_def)

lemma member_located:
  assumes "u_ready u \<noteq> Some (u_empty u)"
  shows "member_of (if u_ready u = None then setEmpty (setReady (setSlot u (u_empty u) c) (Some (u_empty u))) (otherSlot (u_empty u))
      else setSlot u (u_empty u) c) =
    (if u_ready u = None then (member_of u)\<lparr>m_pos := Some c\<rparr> else member_of u)"
proof (cases "u_ready u")
  case None
  have "slotOf (setEmpty (setReady v x) y) t = slotOf v t" for v x y t
    by (cases t) (simp_all add: setEmpty_def setReady_def)
  with None show ?thesis by (simp add: member_of_def) (simp add: setEmpty_def setReady_def)
next
  case (Some s)
  with assms show ?thesis by (simp add: member_of_def)
qed

lemma datagram_svc:
  assumes inv: "hub_inv h" and run: "gps_incomingData (Inr (bs, a)) h = Inr h'"
  shows "abs_hub h' = abs_hub h \<or> svc_step (Datagram bs a) (abs_hub h) (abs_hub h')"
proof -
  obtain f where f: "dgram_ok f bs a h" and h': "acks_only (dgram_hub f a (received bs a h)) h'"
    using gps_incomingData_effect[OF run hub_invD(6)[OF inv]] by blast
  have r: "reg_inv h" "reg_inv (received bs a h)" using hub_invD(2)[OF inv] hub_invD(2)[OF hub_inv_received[OF inv]] by auto
  have a0: "abs_hub (received bs a h) = abs_hub h" "service_of (received bs a h) = service_of h"
    by (auto intro: abs_hub_cong service_cong)
  have "abs_hub (dgram_hub f a (received bs a h)) = abs_hub h \<or>
      svc_step (Datagram bs a) (abs_hub h) (abs_hub (dgram_hub f a (received bs a h)))"
  proof (cases f)
    case Ignored
    with a0 show ?thesis by simp
  next
    case (UnknownId i)
    then have "abs_hub (dgram_hub f a (received bs a h)) = abs_hub (received bs a h)" by (intro abs_hub_cong) simp_all
    with a0 show ?thesis by simp
  next
    case (Located r u i c)
    with f have l: "decode_coords bs = Some (i, c)" "id_umap h i = Some (Some r)" "users h r = Some u" by auto
    obtain b where b: "u_addr_udp u = Some b" "socket_equals a b" using f Located by auto
    have id: "u_id u = i" using reg_inv_id[OF r(1) l(2)] l(3) by force
    let ?u = "if u_ready u = None then setEmpty (setReady (setSlot u (u_empty u) c) (Some (u_empty u))) (otherSlot (u_empty u))
      else setSlot u (u_empty u) c"
    have "u_ready u \<noteq> Some (u_empty u)" using hub_invD(8)[OF inv l(3)] by (simp add: user_ok_def)
    note m = member_located[OF this, of c]
    have "abs_hub (located r u i c (received bs a h)) = ((service_of h)(u_nick u \<mapsto> member_of ?u), udp_out h)"
      using abs_hub_upd[OF r(2), of r u "located r u i c (received bs a h)" ?u] l(3) a0(2) by (simp add: located_def)
    then have e: "abs_hub (dgram_hub f a (received bs a h)) =
        ((service_of h)(u_nick u \<mapsto> if u_ready u = None then (member_of u)\<lparr>m_pos := Some c\<rparr> else member_of u), udp_out h)"
      unfolding m by (simp add: Located)
    have s: "service_of h (u_nick u) = Some (member_of u)" by (rule service_user[OF r(1) l(3)])
    show ?thesis
    proof (cases "u_ready u = None")
      case True
      have "svc_step (Datagram bs a) (service_of h, udp_out h)
          ((service_of h)(u_nick u \<mapsto> (member_of u)\<lparr>m_pos := Some c\<rparr>), udp_out h)"
        using svc_step.report[of "service_of h" "u_nick u" "member_of u" bs c b a "udp_out h"] s l(1) id b True
        by (simp add: member_of_def)
      with e True show ?thesis by (simp add: abs_hub_def)
    next
      case False
      with e s show ?thesis by (simp add: abs_hub_def fun_upd_idem)
    qed
  next
    case (Bound r u i t)
    with f have l: "decode_init bs = Some (i, t)" "id_umap h i = Some (Some r)" "users h r = Some u" "u_token u = Some t" by auto
    have id: "u_id u = i" using reg_inv_id[OF r(1) l(2)] l(3) by force
    have s: "service_of h (u_nick u) = Some (member_of u)" by (rule service_user[OF r(1) l(3)])
    have m: "member_of (setAddrUdp u a) = (member_of u)\<lparr>m_addr := Some a\<rparr>"
    proof -
      have "slotOf (setAddrUdp u a) = slotOf u"
      proof
        fix x show "slotOf (setAddrUdp u a) x = slotOf u x" by (cases x) (simp_all add: setAddrUdp_def)
      qed
      then show ?thesis by (simp add: member_of_def) (simp add: setAddrUdp_def)
    qed
    have "abs_hub (dgram_hub f a (received bs a h)) = ((service_of h)(u_nick u \<mapsto> (member_of u)\<lparr>m_addr := Some a\<rparr>), udp_out h)"
      using abs_hub_upd[OF r(2), of r u "dgram_hub f a (received bs a h)" "setAddrUdp u a"] l(3) a0(2) m by (simp add: Bound)
    moreover have "svc_step (Datagram bs a) (service_of h, udp_out h)
        ((service_of h)(u_nick u \<mapsto> (member_of u)\<lparr>m_addr := Some a\<rparr>), udp_out h)"
      by (rule svc_step.bind) (use s l(1,4) id in \<open>simp_all add: member_of_def\<close>)
    ultimately show ?thesis by (simp add: abs_hub_def)
  qed
  then show ?thesis by (simp add: abs_hub_acks[OF h'])
qed

section \<open>Rounds\<close>

lemma udp_buddy_service:
  assumes "hub_inv h"
  shows "udp_buddy h n = Option.bind (service_of h n) m_addr"
proof -
  have "(if u_udp_ready u then u_addr_udp u else None) = u_addr_udp u" if "users h r = Some u" for r u
    using hub_invD(8)[OF assms that] by (auto simp: user_ok_def)
  then show ?thesis by (auto simp: udp_buddy_def service_of_def member_of_def split: option.splits)
qed

lemma mset_map_filter:
  assumes "distinct xs"
  shows "mset (map f (List.map_filter g xs)) = image_mset (\<lambda>x. f (the (g x))) (mset_set {x \<in> set xs. g x \<noteq> None})"
proof -
  have "List.map_filter g xs = map (\<lambda>x. the (g x)) (filter (\<lambda>x. g x \<noteq> None) xs)"
    by (induction xs) (auto simp: map_filter_simps)
  then have "mset (map f (List.map_filter g xs)) = image_mset (\<lambda>x. f (the (g x))) (mset (filter (\<lambda>x. g x \<noteq> None) xs))"
    by (simp only: list.map_comp comp_def mset_map)
  also have "mset (filter (\<lambda>x. g x \<noteq> None) xs) = mset_set (set (filter (\<lambda>x. g x \<noteq> None) xs))"
    using assms by (intro mset_set_set[symmetric]) simp
  finally show ?thesis by (simp only: set_filter)
qed

lemma round_svc:
  assumes inv: "hub_inv h" and q: "uqueue h = i # q"
  shows "abs_hub (after_round i (h\<lparr>uqueue := q\<rparr>)) = abs_hub h \<or>
    svc_step Round (abs_hub h) (abs_hub (after_round i (h\<lparr>uqueue := q\<rparr>)))"
proof (cases "\<exists>r u s. id_umap h i = Some (Some r) \<and> users h r = Some u \<and> u_ready u = Some s")
  case False
  have "after_round i (h\<lparr>uqueue := q\<rparr>) = h\<lparr>uqueue := q, id_umap := (id_umap h)(i \<mapsto> None)\<rparr> \<or>
      after_round i (h\<lparr>uqueue := q\<rparr>) = h\<lparr>uqueue := q\<rparr>"
    using False by (auto simp: after_round_def split: option.splits)
  then show ?thesis by (auto intro: abs_hub_cong)
next
  case True
  then obtain r u s where u: "id_umap h i = Some (Some r)" "users h r = Some u" "u_ready u = Some s" by blast
  let ?h = "h\<lparr>uqueue := q\<rparr>" and ?u = "u\<lparr>u_ready := None\<rparr>"
  have r: "reg_inv h" by (rule hub_invD(2)[OF inv])
  let ?m = "member_of u" and ?ds = "sent_for h u s"
  have b: "udp_buddy ?h = udp_buddy h" by (rule udp_buddy_cong) simp_all
  have h1: "after_round i ?h = ?h\<lparr>udp_out := udp_out h @ ?ds, users := (users h)(r \<mapsto> ?u)\<rparr>"
    using u sent_for_cong[OF b] by (simp add: after_round_def)
  have m: "member_of ?u = ?m\<lparr>m_pos := None\<rparr>" by (simp add: member_of_def)
  have e: "abs_hub (after_round i ?h) = ((service_of h)(u_nick u \<mapsto> ?m\<lparr>m_pos := None\<rparr>), udp_out h @ ?ds)"
    using service_upd[OF r u(2), of "after_round i ?h" ?u] by (simp add: abs_hub_def h1 m)
  have "mset ?ds = deliveries (service_of h) ?m (slotOf u s)"
    unfolding sent_for_def deliveries_def
    using mset_map_filter[OF reg_inv_user(3)[OF r u(2)], of "\<lambda>a. (a, map Some (coords_bytes (u_id u) (slotOf u s)))" "udp_buddy h"]
      udp_buddy_service[OF inv] by (simp add: member_of_def)
  then have "svc_step Round (service_of h, udp_out h) ((service_of h)(u_nick u \<mapsto> ?m\<lparr>m_pos := None\<rparr>), udp_out h @ ?ds)"
    by (intro svc_step.deliver[where c = "slotOf u s"] service_user[OF r u(2)]) (simp_all add: u(3) member_of_def)
  with e show ?thesis by (simp add: abs_hub_def)
qed

section \<open>The whole server\<close>

lemma hub_step_svc:
  assumes "hub_step ntop env act h h'" and inv: "hub_inv h"
  shows "(svc_step act)\<^sup>*\<^sup>* (abs_hub h) (abs_hub h')"
  using assms(1)
proof cases
  case command
  with svc_rel.step_in[OF command(2) hub_invD(1)[OF inv]] show ?thesis by simp
next
  case (datagram bs a)
  with datagram_svc[OF inv datagram(2)] show ?thesis by auto
next
  case timeout
  with abs_hub_acks[OF acks_only_pending[OF timeout(2)]] show ?thesis by simp
next
  case (round i q buf err buf')
  note r = hub_inv_round[OF inv round(2)]
  from bcast_round_run[OF r(2,3) round(3,4)] round_svc[OF inv round(2)] round(1) show ?thesis by auto
next
  case (stop l)
  then have "abs_hub h' = abs_hub h" by (intro abs_hub_cong) (auto simp: bcast_stop_def)
  then show ?thesis by simp
qed

interpretation service: inductive_invariant "\<lambda>h. \<exists>ep fd. h = hub_listening ep fd" "\<lambda>h h'. \<exists>act. hub_step ntop env act h h'"
    "\<lambda>h. hub_inv h \<and> (\<lambda>x y. \<exists>act. svc_step act x y)\<^sup>*\<^sup>* (Map.empty, []) (abs_hub h)" for ntop env
proof unfold_locales
  fix h assume "\<exists>ep fd. h = hub_listening ep fd"
  then obtain ep fd where h: "h = hub_listening ep fd" by blast
  have "abs_hub h = (Map.empty, [])" by (simp add: h abs_hub_def service_of_def hub_listening_def hub_start_def fun_eq_iff)
  then show "hub_inv h \<and> (\<lambda>x y. \<exists>act. svc_step act x y)\<^sup>*\<^sup>* (Map.empty, []) (abs_hub h)"
    using hub_inv_listening[of ep fd] by (simp add: h)
next
  fix h h' assume s: "\<exists>act. hub_step ntop env act h h'"
    and i: "hub_inv h \<and> (\<lambda>x y. \<exists>act. svc_step act x y)\<^sup>*\<^sup>* (Map.empty, []) (abs_hub h)"
  then obtain act where act: "hub_step ntop env act h h'" by blast
  have "(\<lambda>x y. \<exists>act. svc_step act x y)\<^sup>*\<^sup>* (abs_hub h) (abs_hub h')"
    using hub_step_svc[OF act] i by (auto intro: mono_rtranclp[rule_format, of "svc_step act"])
  with i hub_step_inv[OF act] show "hub_inv h' \<and> (\<lambda>x y. \<exists>act. svc_step act x y)\<^sup>*\<^sup>* (Map.empty, []) (abs_hub h')"
    by (auto intro: rtranclp_trans)
qed

end
