(* ===== verification/Command_Framing.thy ===== *)
theory Command_Framing
  imports Command_Server
begin

text \<open>
  How \<open>CommandServer::incomingData\<close> cuts the byte stream of a connection into packages, and in
  which order packages leave the server.
\<close>

section \<open>The step of the receive loop\<close>

text \<open>
  The situation before a step: the session's buffer holds the bytes \<open>c\<close> that are left from
  earlier, \<open>bs\<close> has just arrived, both fit, and the byte counters of the buffer stay in range.
\<close>

definition recv_ready :: "hub \<Rightarrow> nat \<Rightarrow> Session \<Rightarrow> byte list \<Rightarrow> byte list \<Rightarrow> bool" where
  "recv_ready h s se c bs \<longleftrightarrow>
     sessions h s = Some se \<and> length (cmd_buf h) = CMDPKG_MAX \<and> cb_inv (se_buf se) \<and>
     cb_capacity (se_buf se) = 2 * CMDPKG_MAX \<and> cb_contents (se_buf se) = map Some c \<and>
     length bs \<le> CMDPKG_MAX \<and> length c + length bs \<le> 2 * CMDPKG_MAX \<and>
     cb_end (se_buf se) + length bs \<le> int_max"

lemma frame_header:
  assumes rdy: "recv_ready h s se c bs" and x: "c @ bs = t # be16 w @ rest"
  shows "\<exists>b cb. length b = CMDPKG_MAX \<and> take 3 b = map Some (t # be16 w) \<and> cb_inv cb \<and>
    cb_contents cb = map Some (c @ bs) \<and> cb_capacity cb = 2 * CMDPKG_MAX \<and>
    frame env s bs h =
      (if length (c @ bs) \<ge> unat w then
         bindF (cb_get cb (unat w)) (\<lambda>(cb, out).
         bindF (store b 0 out) (\<lambda>b.
         bindF (CmdPkg_ext b) (\<lambda>cmd.
         handle env cmd s
           (h\<lparr>cmd_buf := pk_bytes cmd, sessions := (sessions h)(s \<mapsto> se\<lparr>se_buf := cb\<rparr>)\<rparr>))))
       else Inr (h\<lparr>cmd_buf := b, sessions := (sessions h)(s \<mapsto> se\<lparr>se_buf := cb\<rparr>)\<rparr>))"
proof -
  note r = rdy[unfolded recv_ready_def]
  let ?buf = "map Some bs @ drop (length bs) (cmd_buf h)"
  have st0: "store (cmd_buf h) 0 (map Some bs) = Inr ?buf" using r by (simp add: store_def)
  have "length (cb_contents (se_buf se)) + length (map Some bs) \<le> cb_capacity (se_buf se)" using r by simp
  moreover have "length (map Some bs) \<le> cb_budget (se_buf se)" using r unfolding cb_budget_def by (simp add: le_diff_conv2)
  ultimately obtain cb where add: "cb_add (se_buf se) (map Some bs) = Inr (cb, length bs)"
    and cb: "cb_inv cb" "cb_contents cb = map Some (c @ bs)" "cb_capacity cb = 2 * CMDPKG_MAX"
    using cb.add_fits[of "se_buf se" "map Some bs"] r by auto
  have len: "3 \<le> length (cb_contents cb)" using cb(2) x by simp
  have hdr: "cb_read cb 3 = map Some (t # be16 w)"
    unfolding cb.read_fits[OF cb(1) len] cb(2) x by (simp add: be16_def numeral_3_eq_3)
  let ?b = "map Some (t # be16 w) @ drop 3 ?buf"
  have len0: "length ?buf = CMDPKG_MAX" using r by simp
  have st: "store ?buf 0 (cb_read cb 3) = Inr ?b"
    unfolding hdr using len0 by (simp add: store_def CMDPKG_MAX_def be16_def numeral_3_eq_3)
  have ld: "load ?b 1 2 = Inr (be16 w)" by (simp add: load_Inr be16_def)
  have sz: "cb_size cb = int (length (c @ bs))" using cb.size_contents[OF cb(1)] cb(2) by simp
  have "length ?b = 3 + (length ?buf - 3)" by simp
  with len0 have lb: "length ?b = CMDPKG_MAX" by (simp only: CMDPKG_MAX_def)
  have tk: "take 3 ?b = map Some (t # be16 w)" by (simp add: be16_def numeral_3_eq_3)
  have "frame env s bs h =
      (if length (c @ bs) \<ge> unat w then
         bindF (cb_get cb (unat w)) (\<lambda>(cb, out).
         bindF (store ?b 0 out) (\<lambda>b.
         bindF (CmdPkg_ext b) (\<lambda>cmd.
         handle env cmd s
           (h\<lparr>cmd_buf := pk_bytes cmd, sessions := (sessions h)(s \<mapsto> se\<lparr>se_buf := cb\<rparr>)\<rparr>))))
       else Inr (h\<lparr>cmd_buf := ?b, sessions := (sessions h)(s \<mapsto> se\<lparr>se_buf := cb\<rparr>)\<rparr>))"
  proof -
    have d: "deref (sessions h) (Some s) = Inr se" and tk0: "take (length bs) ?buf = map Some bs"
      using r by simp_all
    show ?thesis
      unfolding frame_def net_simps
      by (simp only: d st0 tk0 add st ld sz val_be bindF.simps split_conv of_nat_le_iff)
  qed
  then show ?thesis using lb tk cb by blast
qed

text \<open>How one complete package at the front of the stream is handled.\<close>

lemma frame_run:
  assumes rdy: "recv_ready h s se c bs" and x: "c @ bs = t # be16 (of_nat n) @ data @ rest"
    and n: "n = 3 + length data" "n < CMDPKG_MAX" and nul: "0 \<notin> set data"
  shows "\<exists>cmd cb. frame env s bs h = handle env cmd s
      (h\<lparr>cmd_buf := pk_bytes cmd, sessions := (sessions h)(s \<mapsto> se\<lparr>se_buf := cb\<rparr>)\<rparr>) \<and>
    getType cmd = Inr t \<and> getLen cmd = Inr (of_nat n) \<and> getDataStr cmd = Inr data \<and>
    length (pk_bytes cmd) = CMDPKG_MAX \<and>
    cb_inv cb \<and> cb_capacity cb = 2 * CMDPKG_MAX \<and> cb_contents cb = map Some rest"
proof -
  have u: "unat (of_nat n :: u16) = n" using n(2) by (simp add: unat_of_nat CMDPKG_MAX_def)
  obtain b cb where b: "length b = CMDPKG_MAX" and cb: "cb_inv cb" "cb_contents cb = map Some (c @ bs)"
      "cb_capacity cb = 2 * CMDPKG_MAX"
    and fr: "frame env s bs h = (if length (c @ bs) \<ge> unat (of_nat n :: u16) then
         bindF (cb_get cb (unat (of_nat n :: u16))) (\<lambda>(cb, out).
         bindF (store b 0 out) (\<lambda>b. bindF (CmdPkg_ext b) (\<lambda>cmd.
         handle env cmd s (h\<lparr>cmd_buf := pk_bytes cmd, sessions := (sessions h)(s \<mapsto> se\<lparr>se_buf := cb\<rparr>)\<rparr>))))
       else Inr (h\<lparr>cmd_buf := b, sessions := (sessions h)(s \<mapsto> se\<lparr>se_buf := cb\<rparr>)\<rparr>))"
    using frame_header[OF rdy x] by blast
  have len: "n \<le> length (cb_contents cb)" using cb(2) x n(1) by simp
  from cb.get_fits[OF cb(1) len] obtain cb2 where
    get: "cb_get cb n = Inr (cb2, take n (map Some (c @ bs)))" "cb_inv cb2" "cb_contents cb2 = drop n (map Some (c @ bs))"
      "cb_capacity cb2 = 2 * CMDPKG_MAX" using cb by auto
  let ?pkg = "map Some (t # be16 (of_nat n) @ data)"
  have out: "take n (map Some (c @ bs)) = ?pkg" "drop n (map Some (c @ bs)) = map Some rest"
    unfolding x using n(1) by (simp_all add: be16_def numeral_3_eq_3)
  let ?m = "drop n b"
  have st: "store b 0 ?pkg = Inr (?pkg @ ?m)"
  proof -
    have "length ?pkg = n" using n(1) by simp
    then show ?thesis using b n(2) unfolding store_def by simp
  qed
  have m: "n + length ?m = CMDPKG_MAX" "?m \<noteq> []" using b n by auto
  have "n < 2 ^ 16" using n(2) by (simp add: CMDPKG_MAX_def)
  from CmdPkg_ext_wire[OF nul n(1) this m(2), of t] obtain q where
    q: "CmdPkg_ext (?pkg @ ?m) = Inr q" "getType q = Inr t" "getLen q = Inr (of_nat n)" "getDataStr q = Inr data"
    and lq: "length (pk_bytes q) = CMDPKG_MAX"
    using m(1) by auto
  have "frame env s bs h = handle env q s
      (h\<lparr>cmd_buf := pk_bytes q, sessions := (sessions h)(s \<mapsto> se\<lparr>se_buf := cb2\<rparr>)\<rparr>)"
    using fr get(1) out(1) st q(1) len cb(2) u by simp
  with q lq get out(2) show ?thesis by auto
qed

text \<open>
  C19: one complete package at the front of the stream. Whatever fragments it arrived in, the
  command handler is run on exactly that package (its type, its length, its data), and the
  bytes behind it stay in the session's buffer. Only one package is taken per \<open>recv\<close>: when the
  bytes behind it are a complete package too, they wait there until more data arrives.
\<close>

theorem frame_package:
  assumes rdy: "recv_ready h s se c bs" and x: "c @ bs = t # be16 (of_nat n) @ data @ rest"
    and n: "n = 3 + length data" "n < CMDPKG_MAX" and nul: "0 \<notin> set data"
  shows "\<exists>cmd cb. frame env s bs h = handle env cmd s
      (h\<lparr>cmd_buf := pk_bytes cmd, sessions := (sessions h)(s \<mapsto> se\<lparr>se_buf := cb\<rparr>)\<rparr>) \<and>
    getType cmd = Inr t \<and> getLen cmd = Inr (of_nat n) \<and> getDataStr cmd = Inr data \<and>
    length (pk_bytes cmd) = CMDPKG_MAX \<and>
    cb_inv cb \<and> cb_capacity cb = 2 * CMDPKG_MAX \<and> cb_contents cb = map Some rest"
  by (rule frame_run[OF assms])

lemma cb_start_empty: "0 < n \<Longrightarrow> cb_inv (CircularBuffer n) \<and> cb_capacity (CircularBuffer n) = n \<and> cb_end (CircularBuffer n) = 0"
  by (simp add: cb_inv_new) (simp add: CircularBuffer_def)

lemma recv_ready_one: "length bs \<le> CMDPKG_MAX \<Longrightarrow> recv_ready hub_one 0 session_one [] bs"
  using cb_start_empty[of "2 * CMDPKG_MAX"] by (simp add: recv_ready_def CMDPKG_MAX_def int_max_def)

theorem frame_package_witness:
  "\<exists>cmd cb. frame env0 0 [1, 0, 5, 65, 66, 1] hub_one = handle env0 cmd 0
      (hub_one\<lparr>cmd_buf := pk_bytes cmd, sessions := (sessions hub_one)(0 \<mapsto> session_one\<lparr>se_buf := cb\<rparr>)\<rparr>) \<and>
    getDataStr cmd = Inr [65, 66] \<and> cb_contents cb = [Some 1]"
proof -
  have e: "be16 (of_nat 5) = [0, 5]" by code_simp
  have x: "[] @ [1, 0, 5, 65, 66, 1] = 1 # be16 (of_nat 5) @ [65, 66] @ [1 :: byte]"
    unfolding e by simp
  have n: "5 = 3 + length [65, 66 :: byte]" "5 < CMDPKG_MAX" "0 \<notin> set [65, 66 :: byte]"
    by (simp_all add: CMDPKG_MAX_def)
  have r: "recv_ready hub_one 0 session_one [] [1, 0, 5, 65, 66, 1]"
    by (rule recv_ready_one) (simp add: CMDPKG_MAX_def)
  from frame_package[OF r x n, of env0] show ?thesis by auto
qed

text \<open>
  An incomplete package. As long as fewer bytes have arrived than the header announces,
  nothing is executed: the bytes collect in the session's buffer, in order, and of the state
  only that buffer and the receive buffer change.
\<close>

theorem frame_incomplete:
  assumes rdy: "recv_ready h s se c bs" and x: "c @ bs = t # be16 w @ rest"
    and n: "length (c @ bs) < unat w"
  shows "\<exists>b cb. frame env s bs h = Inr (h\<lparr>cmd_buf := b, sessions := (sessions h)(s \<mapsto> se\<lparr>se_buf := cb\<rparr>)\<rparr>) \<and>
    length b = CMDPKG_MAX \<and> cb_inv cb \<and> cb_capacity cb = 2 * CMDPKG_MAX \<and> cb_contents cb = map Some (c @ bs)"
  using frame_header[OF rdy x, of env] n by auto

theorem frame_incomplete_witness:
  "\<exists>b cb. frame env0 0 [1, 0, 5, 65] hub_one =
     Inr (hub_one\<lparr>cmd_buf := b, sessions := (sessions hub_one)(0 \<mapsto> session_one\<lparr>se_buf := cb\<rparr>)\<rparr>) \<and>
     cb_contents cb = map Some [1, 0, 5, 65]"
proof -
  have e: "be16 5 = [0, 5]" "unat (5 :: u16) = 5" by code_simp+
  have x: "[] @ [1, 0, 5, 65] = 1 # be16 5 @ [65 :: byte]" unfolding e by simp
  have n: "length ([] @ [1, 0, 5, 65 :: byte]) < unat (5 :: u16)" unfolding e by simp
  have r: "recv_ready hub_one 0 session_one [] [1, 0, 5, 65]"
    by (rule recv_ready_one) (simp add: CMDPKG_MAX_def)
  from frame_incomplete[OF r x n, of env0] show ?thesis by auto
qed

text \<open>
  C34: packages of 512 bytes and more. The 16-bit length of the header is not checked against
  the 512-byte receive buffer. Once such a package is complete in the session's buffer (which
  holds 1024 bytes), copying it to the receive buffer, or, at exactly 512 bytes, the
  terminating NUL behind it, writes past the end of the array.
\<close>

theorem frame_overflow:
  assumes rdy: "recv_ready h s se c bs" and x: "c @ bs = t # be16 w @ rest"
    and n: "CMDPKG_MAX \<le> unat w" "unat w \<le> length (c @ bs)"
  shows "frame env s bs h = Inl (Undefined OutOfBounds)"
proof -
  obtain b cb where b: "length b = CMDPKG_MAX" and cb: "cb_inv cb" "cb_contents cb = map Some (c @ bs)"
    and fr: "frame env s bs h =
         bindF (cb_get cb (unat w)) (\<lambda>(cb, out).
         bindF (store b 0 out) (\<lambda>b. bindF (CmdPkg_ext b) (\<lambda>cmd.
         handle env cmd s (h\<lparr>cmd_buf := pk_bytes cmd, sessions := (sessions h)(s \<mapsto> se\<lparr>se_buf := cb\<rparr>)\<rparr>))))"
    using frame_header[OF rdy x, of env] n(2) by auto
  have "unat w \<le> length (cb_contents cb)" using cb(2) n(2) by simp
  from cb.get_fits[OF cb(1) this] obtain cb2 where
    get: "cb_get cb (unat w) = Inr (cb2, map Some (take (unat w) (c @ bs)))" using cb(2) by (auto simp: take_map)
  show ?thesis
  proof (cases "unat w = CMDPKG_MAX")
    case False
    then have "store b 0 (map Some (take (unat w) (c @ bs))) = Inl (Undefined OutOfBounds)"
      using b n by (simp add: store_def)
    with fr get show ?thesis by simp
  next
    case True
    let ?b = "map Some (take (unat w) (c @ bs))"
    have st: "store b 0 ?b = Inr ?b" using b n True by (simp add: store_def)
    have k: "unat w = Suc (Suc (Suc 509))" using True by (simp add: CMDPKG_MAX_def)
    have "?b = map Some (t # be16 w @ take 509 rest)" unfolding x k by (simp add: be16_def)
    then have "load ?b 1 2 = Inr (be16 w)" by (simp add: load_Inr be16_def)
    from CmdPkg_ext_overflow[OF this] have "CmdPkg_ext ?b = Inl (Undefined OutOfBounds)" using n by simp
    with fr get st show ?thesis by simp
  qed
qed

theorem frame_overflow_witness:
  "frame env0 0 (1 # 2 # 0 # replicate 509 65) hub_one = Inl (Undefined OutOfBounds)"
proof -
  have e: "be16 512 = [2, 0]" "unat (512 :: u16) = 512" by code_simp+
  have x: "[] @ 1 # 2 # 0 # replicate 509 65 = 1 # be16 512 @ replicate 509 (65 :: byte)" unfolding e by simp
  have n: "CMDPKG_MAX \<le> unat (512 :: u16)" "unat (512 :: u16) \<le> length ([] @ 1 # 2 # 0 # replicate 509 (65 :: byte))"
    unfolding e by (simp_all add: CMDPKG_MAX_def)
  have r: "recv_ready hub_one 0 session_one [] (1 # 2 # 0 # replicate 509 65)"
    by (rule recv_ready_one) (simp add: CMDPKG_MAX_def)
  from frame_overflow[OF r x n] show ?thesis by simp
qed

text \<open>
  C35: a header that arrives in pieces. The first \<open>recv\<close> of a connection may deliver only one or
  two bytes; the length is then computed from bytes of the receive buffer that the three-byte
  read did not deliver, which in a fresh server were never written: an uninitialised read.
\<close>

theorem frame_short_header:
  assumes "recv_ready h s se [] bs" and "bs \<noteq> []" "length bs < 3" and "cmd_buf h = replicate CMDPKG_MAX None"
    and "cb_end (se_buf se) = 0"
  shows "frame env s bs h = Inl (Undefined UninitRead)"
proof -
  note r = assms(1)[unfolded recv_ready_def]
  let ?buf = "map Some bs @ replicate (CMDPKG_MAX - length bs) None"
  have st0: "store (cmd_buf h) 0 (map Some bs) = Inr ?buf" using r assms(4) by (simp add: store_def)
  have fits: "length (cb_contents (se_buf se)) + length (map Some bs) \<le> cb_capacity (se_buf se)"
    "length (map Some bs) \<le> cb_budget (se_buf se)" using r assms(5) by (simp_all add: cb_budget_def)
  from cb.add_fits[OF _ fits] r obtain cb where add: "cb_add (se_buf se) (map Some bs) = Inr (cb, length bs)"
    and cb: "cb_inv cb" "cb_contents cb = map Some bs" "cb_capacity cb = 2 * CMDPKG_MAX"
      "cb_budget cb = cb_budget (se_buf se) - length bs" by auto
  have e: "cb_end cb = length bs"
    using add assms(5) by (auto simp: cb_add_def Let_def split: prod.splits if_splits)
  have sz: "cb_size cb = int (length bs)" using cb.size_contents[OF cb(1)] cb(2) by simp
  have "length (cb_read cb 3) = length bs"
    using cb_read_length[OF cb(1), of 3] e sz assms(2,3) cb(3) by (simp add: CMDPKG_MAX_def)
  then have "\<exists>b. store ?buf 0 (cb_read cb 3) = Inr b \<and> b ! 2 = None \<and> length b = CMDPKG_MAX"
    using assms(2,3) by (auto simp: store_def CMDPKG_MAX_def nth_append)
  then obtain b where st: "store ?buf 0 (cb_read cb 3) = Inr b" "b ! 2 = None" "length b = CMDPKG_MAX" by blast
  have "None \<in> set (take 2 (drop 1 b))"
    using st(2,3) nth_mem[of 1 "take 2 (drop 1 b)"] by (simp add: CMDPKG_MAX_def numeral_2_eq_2)
  then have ld: "load b 1 2 = Inl (Undefined UninitRead)"
    using st(3) by (simp add: load_def Let_def CMDPKG_MAX_def)
  have d: "deref (sessions h) (Some s) = Inr se" and tk0: "take (length bs) ?buf = map Some bs"
    using r by simp_all
  show ?thesis
    unfolding frame_def net_simps by (simp only: d st0 tk0 add st(1) ld bindF.simps split_conv)
qed

theorem frame_short_header_witness: "frame env0 0 [1] hub_one = Inl (Undefined UninitRead)"
proof -
  have r: "recv_ready hub_one 0 session_one [] [1]" by (rule recv_ready_one) (simp add: CMDPKG_MAX_def)
  show ?thesis
    by (rule frame_short_header[OF r]) (simp_all add: CircularBuffer_def)
qed

section \<open>The order of outgoing packages\<close>

text \<open>The bytes of a package, for packages that have some.\<close>

definition pkg_bytes :: "CmdPkg \<Rightarrow> mem" where
  "pkg_bytes p = (case wire p of Inr bs \<Rightarrow> bs | Inl _ \<Rightarrow> [])"

text \<open>A send script without short counts: every send takes all bytes or fails.\<close>

definition no_short :: "send_res list \<Rightarrow> bool" where
  "no_short tx \<longleftrightarrow> (\<forall>k. SendOk k \<in> set tx \<longrightarrow> 2 ^ 16 \<le> k)"

lemma wire_length: "wire p = Inr bs \<Longrightarrow> length bs < 2 ^ 16"
proof -
  assume "wire p = Inr bs"
  then obtain len :: u16 where "bs = take (unat len) (pk_bytes p)" by (auto simp: wire_def fault_simps)
  moreover have "unat len < 2 ^ 16" using unsigned_less[of len] by simp
  ultimately show ?thesis by simp
qed

lemma Socket_Send_whole:
  assumes "Socket_Send sk bs = (SendOk n, sk')" "no_short (sk_tx sk)" "length bs < 2 ^ 16"
  shows "sk_out sk' = sk_out sk @ bs"
  using assms by (auto simp: Socket_Send_def no_short_def split: list.splits send_res.splits)

lemma no_short_step: "Socket_Send sk bs = (r, sk') \<Longrightarrow> no_short (sk_tx sk) \<Longrightarrow> no_short (sk_tx sk')"
  by (auto simp: Socket_Send_def no_short_def split: list.splits send_res.splits)

lemma flush_loop_order:
  assumes "flush_loop q sk = Inr (q', sk')" "no_short (sk_tx sk)"
  shows "\<exists>sent. q = sent @ q' \<and> sk_out sk' = sk_out sk @ concat (map pkg_bytes sent) \<and>
    (q' = [] \<or> length (sk_tx sk') < length (sk_tx sk))"
  using assms
proof (induction q arbitrary: sk)
  case (Cons p ps)
  obtain bs where w: "wire p = Inr bs" using Cons.prems(1) by (auto simp: fault_simps)
  obtain r sk1 where r: "Socket_Send sk bs = (r, sk1)" by fastforce
  show ?case
  proof (cases r)
    case (SendOk n)
    with Cons.prems w r have "flush_loop ps sk1 = Inr (q', sk')" by simp
    from Cons.IH[OF this no_short_step[OF r Cons.prems(2)]] obtain sent where
      "ps = sent @ q'" "sk_out sk' = sk_out sk1 @ concat (map pkg_bytes sent)"
      "q' = [] \<or> length (sk_tx sk') < length (sk_tx sk1)" by blast
    moreover have "sk_out sk1 = sk_out sk @ bs"
      using Socket_Send_whole[OF _ Cons.prems(2) wire_length[OF w]] r SendOk by simp
    moreover have "pkg_bytes p = bs" using w by (simp add: pkg_bytes_def)
    ultimately show ?thesis using Socket_Send_tx_le[OF r] by (intro exI[of _ "p # sent"]) auto
  next
    case (SendErr e)
    with Cons.prems w r have e: "q' = p # ps" "sk' = sk1" by (auto split: if_splits)
    moreover have "sk_out sk1 = sk_out sk" "length (sk_tx sk1) < length (sk_tx sk)"
      using r SendErr by (auto simp: Socket_Send_def split: list.splits send_res.splits)
    ultimately show ?thesis by (intro exI[of _ "[]"]) simp
  qed
qed (simp add: exI[of _ "[]"])

lemma send_eventE:
  assumes "send_event ev h = Inr h'"
  obtains e s se sk q sk' where "evs h ev = Some e" "ev_ptr e = Some s" "sessions h s = Some se"
    "socks h (se_sock se) = Some sk" "flush_loop (se_queue se) sk = Inr (q, sk')"
    "h' = h\<lparr>socks := (socks h)(se_sock se \<mapsto> sk'), sessions := (sessions h)(s \<mapsto> se\<lparr>se_queue := q\<rparr>)\<rparr>"
  using assms by (auto simp: send_event_def event_session_def fault_simps)

text \<open>
  Flushing the send queue. When no send is cut short, the packages leave the queue from
  the front, in the order they were queued, each completely and exactly once; what is left in
  the queue is what was not sent, and something is left only if a send would have blocked.
\<close>

theorem send_queue_order:
  assumes ev: "evs h ev = Some e" "ev_ptr e = Some s" "sessions h s = Some se" "socks h (se_sock se) = Some sk"
    and "no_short (sk_tx sk)" and "send_event ev h = Inr h'"
  shows "\<exists>sent q sk'. se_queue se = sent @ q \<and> sessions h' = (sessions h)(s \<mapsto> se\<lparr>se_queue := q\<rparr>) \<and>
    socks h' = (socks h)(se_sock se \<mapsto> sk') \<and> sk_out sk' = sk_out sk @ concat (map pkg_bytes sent) \<and>
    (q = [] \<or> length (sk_tx sk') < length (sk_tx sk))"
  using assms(6)
proof (cases rule: send_eventE)
  case (1 e s se sk q sk')
  with ev assms(5) flush_loop_order[OF 1(5)] show ?thesis by auto
qed

text \<open>
  C36: a package sent while others wait overtakes them. If the queue holds packages and the
  socket accepts data again before it was flushed, \<open>send\<close> writes the new package at once and
  leaves the queue alone, so the client receives it before the packages that were sent first.
\<close>

theorem send_overtakes:
  assumes "evs h ev = Some e" "ev_ptr e = Some s" "sessions h s = Some se" "socks h (se_sock se) = Some sk"
    and "sk_tx sk = []" "se_queue se = [p]" "wire p = Inr bs" "wire p' = Inr bs'"
  shows "\<exists>h'. bindF (send s p' h) (send_event ev) = Inr h' \<and>
    (\<exists>sk'. socks h' (se_sock se) = Some sk' \<and> sk_out sk' = sk_out sk @ bs' @ bs)"
  using assms send_ok[OF assms(3,4,5,8)]
  by (simp add: send_event_def event_session_def Socket_Send_all)

theorem send_overtakes_witness:
  "\<exists>h'. bindF (send 0 (mk_pkg 106 4 [Some 1]) (hub_one\<lparr>evs := Map.empty(9 \<mapsto> \<lparr>ev_fd = 5, ev_ptr = Some 0, ev_clbk = ClientSocketClbk\<rparr>),
      sessions := Map.empty(0 \<mapsto> session_one\<lparr>se_queue := [mk_pkg 101 4 [Some 0]]\<rparr>)\<rparr>)) (send_event 9) = Inr h' \<and>
    (\<exists>sk'. socks h' 0 = Some sk' \<and> sk_out sk' = map Some [106, 0, 4, 1, 101, 0, 4, 0])"
proof -
  let ?h = "hub_one\<lparr>evs := Map.empty(9 \<mapsto> \<lparr>ev_fd = 5, ev_ptr = Some 0, ev_clbk = ClientSocketClbk\<rparr>),
      sessions := Map.empty(0 \<mapsto> session_one\<lparr>se_queue := [mk_pkg 101 4 [Some 0]]\<rparr>)\<rparr>"
  have w: "wire (mk_pkg t 4 [Some c]) = Inr (map Some [t, 0, 4, c])" for t c
    using wire_pkg[of 4 "[Some c]" t] be16_numerals(1) by simp
  show ?thesis
    using send_overtakes[OF _ _ _ _ _ _ w w, of ?h 9 "\<lparr>ev_fd = 5, ev_ptr = Some 0, ev_clbk = ClientSocketClbk\<rparr>" 0
        "session_one\<lparr>se_queue := [mk_pkg 101 4 [Some 0]]\<rparr>" sock_one 101 0 106 1] by simp
qed

theorem send_queue_order_witness:
  "\<exists>h' sk'. send_event 9 (hub_one\<lparr>evs := Map.empty(9 \<mapsto> \<lparr>ev_fd = 5, ev_ptr = Some 0, ev_clbk = ClientSocketClbk\<rparr>),
      sessions := Map.empty(0 \<mapsto> session_one\<lparr>se_queue := [mk_pkg 101 4 [Some 0]]\<rparr>)\<rparr>) = Inr h' \<and>
    socks h' 0 = Some sk' \<and> length (sk_out sk') = 4"
proof -
  let ?h = "hub_one\<lparr>evs := Map.empty(9 \<mapsto> \<lparr>ev_fd = 5, ev_ptr = Some 0, ev_clbk = ClientSocketClbk\<rparr>),
      sessions := Map.empty(0 \<mapsto> session_one\<lparr>se_queue := [mk_pkg 101 4 [Some 0]]\<rparr>)\<rparr>"
  have w: "wire (mk_pkg 101 4 [Some 0]) = Inr (map Some [101, 0, 4, 0])"
    using wire_pkg[of 4 "[Some 0]" 101] be16_numerals(1) by simp
  have "\<exists>h'. send_event 9 ?h = Inr h'"
    by (simp add: send_event_def event_session_def Socket_Send_all w)
  then obtain h' where h': "send_event 9 ?h = Inr h'" ..
  from send_queue_order[OF _ _ _ _ _ h', of "\<lparr>ev_fd = 5, ev_ptr = Some 0, ev_clbk = ClientSocketClbk\<rparr>" 0
        "session_one\<lparr>se_queue := [mk_pkg 101 4 [Some 0]]\<rparr>" sock_one] h' show ?thesis
    by (auto simp: no_short_def append_eq_Cons_conv pkg_bytes_def w intro!: exI[of _ h'])
qed

end
