(* ===== verification/Hub_Scenario.thy ===== *)
theory Hub_Scenario
  imports Service_Refinement Command_Framing
begin

text \<open>
  The properties of the reachable states of the whole server, and a run that shows that they speak about real
  states: a client connects over TCP, sends the bytes of a registration, registers its UDP address with the token
  it was sent, and reports a position.
\<close>

section \<open>A run of the server\<close>

definition client_addr :: sockaddr_storage where
  "client_addr = no_addr\<lparr>ss_family := AF_INET\<rparr>"

text \<open>What a client sends to register the nick \<open>A\<close>: type 1, length 4, one letter.\<close>

definition register_A :: "byte list" where "register_A = [1, 0, 4, 65]"

text \<open>The client is connected and has registered; \<open>t\<close> is the token it was sent.\<close>

definition registered :: "i32 \<Rightarrow> hub \<Rightarrow> bool" where
  "registered t h \<longleftrightarrow> users h = Map.empty(next_ref h - 1 \<mapsto> setToken (setSockPtr (newUser 1 [65]) (Some 2)) t) \<and>
     nick_umap h = Map.empty([65] \<mapsto> Some (next_ref h - 1)) \<and> id_umap h = Map.empty(1 \<mapsto> Some (next_ref h - 1)) \<and>
     (\<exists>sk. socks h 2 = Some sk \<and> sk_tx sk = [] \<and> sk_addr sk = Some client_addr) \<and>
     uqueue h = [] \<and> pending_cmd_queue h = [] \<and> udp_out h = []"

lemma reachable_registered: "\<exists>h t. hub_reachable ntop env h \<and> registered t h"
proof -
  obtain h sk where r: "cmd_reachable ntop env h" and
    h: "evs h 4 = Some \<lparr>ev_fd = 5, ev_ptr = Some 3, ev_clbk = ClientSocketClbk\<rparr>"
      "sessions h 3 = Some \<lparr>se_sock = 2, se_buf = CircularBuffer (CMDPKG_MAX * 2), se_user = None, se_queue = []\<rparr>"
      "socks h 2 = Some sk" "sk_tx sk = []" "sk_rx sk = []" "sk_addr sk = Some client_addr"
      "users h = Map.empty" "nick_umap h = Map.empty" "id_umap h = Map.empty" "idgen_current h = 0"
      "length (cmd_buf h) = CMDPKG_MAX" "uqueue h = []" "pending_cmd_queue h = []" "udp_out h = []"
    using reachable_connected[of ntop env] by (auto simp: connected_def client_addr_def)
  let ?se = "\<lparr>se_sock = 2, se_buf = CircularBuffer (CMDPKG_MAX * 2), se_user = None, se_queue = []\<rparr>"
  let ?sk = "sk\<lparr>sk_rx := sk_rx sk @ [RecvData register_A], sk_tx := []\<rparr>"
  let ?h1 = "h\<lparr>socks := (socks h)(2 \<mapsto> ?sk)\<rparr>"
  have r1: "cmd_reachable ntop env ?h1" using reach.step[OF r cmd_step.network[OF h(3)]] .
  let ?sk1 = "?sk\<lparr>sk_rx := []\<rparr>"
  let ?h2 = "?h1\<lparr>socks := (socks ?h1)(2 \<mapsto> ?sk1)\<rparr>"
  have recv: "Socket_Recv ?sk CMDPKG_MAX = (RecvData register_A, ?sk1)"
    using h(5) by (simp add: Socket_Recv_def register_A_def CMDPKG_MAX_def)
  have e: "be16 (of_nat 4) = [0, 4]" by code_simp
  have x: "[] @ register_A = 1 # be16 (of_nat 4) @ [65] @ []" by (simp only: e register_A_def append.simps)
  have rdy: "recv_ready ?h2 3 ?se [] register_A"
    using h(2,11) cb_start_empty[of "CMDPKG_MAX * 2"]
    by (simp add: recv_ready_def register_A_def CMDPKG_MAX_def int_max_def)
  obtain cmd cb where fr: "frame env 3 register_A ?h2 = handle env cmd 3
      (?h2\<lparr>cmd_buf := pk_bytes cmd, sessions := (sessions ?h2)(3 \<mapsto> ?se\<lparr>se_buf := cb\<rparr>)\<rparr>)"
    and cmd: "getType cmd = Inr 1" "getDataStr cmd = Inr [65]"
    using frame_run[OF rdy x, of env] by (auto simp: CMDPKG_MAX_def)
  let ?h3 = "?h2\<lparr>cmd_buf := pk_bytes cmd, sessions := (sessions ?h2)(3 \<mapsto> ?se\<lparr>se_buf := cb\<rparr>)\<rparr>"
  let ?t = "e_rand env (rand_calls ?h3)"
  have a: "nick_umap ?h3 [65] = None" "sessions ?h3 3 = Some (?se\<lparr>se_buf := cb\<rparr>)" "socks ?h3 (se_sock (?se\<lparr>se_buf := cb\<rparr>)) = Some ?sk1"
    "sk_tx ?sk1 = []" "generate (id_umap ?h3) (idgen_current ?h3) = Some (1, 1)"
    using h generate_first by simp_all
  obtain k where k: "frame env 3 register_A ?h2 = Inr k" and
    k': "users k = Map.empty(next_ref h \<mapsto> setToken (setSockPtr (newUser 1 [65]) (Some 2)) ?t)" "next_ref k = next_ref h + 1"
    "nick_umap k = Map.empty([65] \<mapsto> Some (next_ref h))" "id_umap k = Map.empty(1 \<mapsto> Some (next_ref h))"
    "sessions k 3 = Some (?se\<lparr>se_buf := cb, se_user := Some (next_ref h)\<rparr>)"
    "uqueue k = []" "pending_cmd_queue k = []" "udp_out k = []" "evs k = evs h"
    "\<exists>sk. socks k 2 = Some sk \<and> sk_tx sk = [] \<and> sk_rx sk = [] \<and> sk_addr sk = Some client_addr"
    using registerNick_run[OF cmd(2) a, of env] fr cmd(1) h
    by (auto simp: handle_def REGISTER_NICK_def publish_def Let_def SyncHashMap_put_def)
  obtain sk2 where sk2: "socks k 2 = Some sk2" "sk_tx sk2 = []" "sk_rx sk2 = []" "sk_addr sk2 = Some client_addr" using k'(10) by blast
  let ?k = "k\<lparr>socks := (socks k)(2 \<mapsto> sk2)\<rparr>"
  have "incomingData_loop env 4 3 k = Inr ?k"
    using k'(5) sk2 by (subst incomingData_loop.simps) (simp add: Socket_Recv_def)
  then have "incomingData_loop env 4 3 ?h1 = Inr ?k"
    using h(2) recv k by (subst incomingData_loop.simps) (simp add: register_A_def Let_def)
  moreover have "has_flag EPOLLIN EPOLLIN" "\<not> has_flag EPOLLIN EPOLLOUT"
    by (simp_all add: has_flag_def EPOLLIN_def EPOLLOUT_def)
  ultimately have "cmd_clbk ntop env 4 EPOLLIN ?h1 = Inr ?k"
    using h(1,2) by (simp add: cmd_clbk_def clientSocketClbk_def incomingData_def event_session_def)
  then have run: "cmd_clbk ntop env 4 EPOLLIN ?h1 = Inr ?k" .
  have e3: "evs ?h1 4 = Some \<lparr>ev_fd = 5, ev_ptr = Some 3, ev_clbk = ClientSocketClbk\<rparr>" using h(1) by simp
  have "cmd_step ntop env ?h1 ?k" by (rule cmd_step.client[OF e3 _ run]) simp
  then have "cmd_reachable ntop env ?k" using reach.step[OF r1] by blast
  then have "hub_reachable ntop env ?k" by (rule cmd_hub_reachable)
  moreover have "registered ?t ?k" using k'(1-4,6-8) sk2 by (simp add: registered_def)
  ultimately show ?thesis by blast
qed

text \<open>It registers its UDP address and reports a position.\<close>

definition reported :: "i32 \<Rightarrow> hub \<Rightarrow> bool" where
  "reported t h \<longleftrightarrow> service_of h [65] = Some \<lparr>m_id = 1, m_buddies = {}, m_token = t, m_addr = Some client_addr,
     m_pos = Some \<lparr>longitude = 21, latitude = 52, altitude = 0\<rparr>\<rparr> \<and> uqueue h = [1] \<and> udp_out h = []"

lemma reachable_reported: "\<exists>h t. hub_reachable ntop env h \<and> reported t h"
proof -
  obtain h t where r: "hub_reachable ntop env h" and g: "registered t h" using reachable_registered by blast
  let ?r = "next_ref h - 1" and ?u = "setToken (setSockPtr (newUser 1 [65]) (Some 2)) t"
  obtain sk where sk: "socks h 2 = Some sk" "sk_tx sk = []" "sk_addr sk = Some client_addr" using g by (auto simp: registered_def)
  have h: "id_umap h 1 = Some (Some ?r)" "users h ?r = Some ?u" "u_token ?u = Some t" "u_sock ?u = Some 2"
    "uqueue h = []" "pending_cmd_queue h = []" "udp_out h = []" "nick_umap h [65] = Some (Some ?r)"
    using g by (simp_all add: registered_def user_setters newUser_def)
  have len: "length (gps_buf h) = BUF_LEN" by (rule hub_invD(6)[OF hub.reach_inv[OF r]])
  have ip: "ip_equals client_addr client_addr" by (simp add: ip_equals_def)
  obtain h1 where h1: "gps_incomingData (Inr (be32 1 @ be32 t, client_addr)) h = Inr h1"
    "users h1 = (users h)(?r \<mapsto> setAddrUdp ?u client_addr)" "id_umap h1 = id_umap h" "nick_umap h1 = nick_umap h"
    "uqueue h1 = []" "pending_cmd_queue h1 = []" "udp_out h1 = []"
    using initAddrUdp_run[OF h(1-4) sk len h(6), of True t client_addr] ip h(5-7) by simp
  have r1: "hub_reachable ntop env h1" using reach.step[OF r] hub_step.datagram[OF h1(1)] by blast
  have len1: "length (gps_buf h1) = BUF_LEN" by (rule hub_invD(6)[OF hub.reach_inv[OF r1]])
  let ?bs = "be32 1 @ be32 21 @ be32 52 @ []"
  let ?c = "\<lparr>longitude = 21, latitude = 52, altitude = 0\<rparr>" and ?v = "setAddrUdp ?u client_addr"
  have v: "users h1 ?r = Some ?v" "id_umap h1 1 = Some (Some ?r)" "u_addr_udp ?v = Some client_addr" "u_ready ?v = None" "u_empty ?v = Slot1"
    using h1 h by (simp_all add: user_setters newUser_def)
  let ?w = "setEmpty (setReady (setSlot ?v Slot1 ?c) (Some Slot1)) Slot2"
  have eq: "socket_equals client_addr client_addr" by (simp add: socket_equals_def client_addr_def AF_INET_def)
  obtain h2 where h2: "gps_incomingData (Inr (?bs, client_addr)) h1 = Inr h2" "users h2 = (users h1)(?r \<mapsto> ?w)"
    "nick_umap h2 = nick_umap h1" "uqueue h2 = [1]" "udp_out h2 = []"
    using position_run[OF v(2,1,3) len1 h1(6), of ?bs 21 52 None client_addr] eq v(4,5) h1(5,7)
    by (simp add: located_def otherSlot_def Let_def)
  have "hub_reachable ntop env h2" using reach.step[OF r1] hub_step.datagram[OF h2(1)] by blast
  moreover have "reported t h2"
    using h1(4) h2 h(8) by (simp add: reported_def service_of_def member_of_def user_setters newUser_def)
  ultimately show ?thesis by blast
qed

section \<open>The properties\<close>

text \<open>
  C2: every state the whole server can reach, with the command server, the GPS server and the broadcast threads
  taking turns in any order on any input, is well formed: the registry and the sessions are consistent, the
  receive buffer keeps its size, every socket has its peer's address, every user has a token and a socket pointer;
  the UDP flag of a user is set exactly when its address is; a position that is ready for broadcast is in the
  slot that is not being written, belongs to a user with an address, and has its id on the queue, so no
  ready position is ever forgotten.
\<close>

theorem hub_well_formed:
  assumes "hub_reachable ntop env h"
  shows "hub_inv h \<and> reg_inv h \<and> sess_inv h \<and> length (gps_buf h) = BUF_LEN \<and>
    (\<forall>r sk. socks h r = Some sk \<longrightarrow> sk_addr sk \<noteq> None) \<and>
    (\<forall>r u. users h r = Some u \<longrightarrow>
       u_token u \<noteq> None \<and> u_sock u \<noteq> None \<and> (u_udp_ready u \<longleftrightarrow> u_addr_udp u \<noteq> None) \<and>
       u_ready u \<noteq> Some (u_empty u) \<and> (u_ready u \<noteq> None \<longrightarrow> u_udp_ready u \<and> u_id u \<in> set (uqueue h)))"
proof -
  have inv: "hub_inv h" by (rule hub.reach_inv[OF assms])
  have "u_token u \<noteq> None \<and> u_sock u \<noteq> None \<and> (u_udp_ready u \<longleftrightarrow> u_addr_udp u \<noteq> None) \<and>
       u_ready u \<noteq> Some (u_empty u) \<and> (u_ready u \<noteq> None \<longrightarrow> u_udp_ready u \<and> u_id u \<in> set (uqueue h))"
    if "users h r = Some u" for r u
    using hub_invD(8)[OF inv that] unfolding user_ok_def by blast
  moreover have "\<forall>r sk. socks h r = Some sk \<longrightarrow> sk_addr sk \<noteq> None"
    using hub_invD(5)[OF inv] unfolding addressed_def .
  ultimately show ?thesis using inv hub_invD(2,3,6)[OF inv] by blast
qed

theorem hub_well_formed_witness:
  "\<exists>h u. hub_reachable (\<lambda>_. [49]) env0 h \<and> users h \<noteq> Map.empty \<and> uqueue h = [1] \<and> reg_inv h"
proof -
  obtain h t where h: "hub_reachable (\<lambda>_. [49]) env0 h" "reported t h" using reachable_reported by blast
  then have "users h \<noteq> Map.empty" by (auto simp: reported_def service_of_def split: option.splits)
  with h hub_well_formed[OF h(1)] show ?thesis by (auto simp: reported_def)
qed

text \<open>
  C1: the server implements the service. Whatever the network delivers and in whatever order the components run,
  the members, buddies, addresses, waiting positions and sent datagrams have come about from nothing by steps
  of the abstract service, and each step of a component is a sequence of such steps of its own kind: only commands
  change who is online and who is whose buddy; only a datagram with a member's id and token changes that
  member's address, to its sender; only a datagram with a member's id from that address supplies a position, and
  only when none is waiting; only a broadcast round sends datagrams, and it sends the waiting position of one
  member to exactly the buddies that are online and have an address.
\<close>

theorem hub_refines:
  assumes "hub_reachable ntop env h"
  shows "(\<lambda>x y. \<exists>act. svc_step act x y)\<^sup>*\<^sup>* (Map.empty, []) (abs_hub h) \<and>
    (\<forall>act h'. hub_step ntop env act h h' \<longrightarrow> (svc_step act)\<^sup>*\<^sup>* (abs_hub h) (abs_hub h'))"
  using service.reach_inv[OF assms] hub_step_svc by blast

theorem hub_refines_witness:
  "\<exists>h t. hub_reachable (\<lambda>_. [49]) env0 h \<and>
     service_of h [65] = Some \<lparr>m_id = 1, m_buddies = {}, m_token = t, m_addr = Some client_addr,
       m_pos = Some \<lparr>longitude = 21, latitude = 52, altitude = 0\<rparr>\<rparr> \<and>
     (\<lambda>x y. \<exists>act. svc_step act x y)\<^sup>*\<^sup>* (Map.empty, []) (abs_hub h)"
proof -
  obtain h t where h: "hub_reachable (\<lambda>_. [49]) env0 h" "reported t h" using reachable_reported by blast
  with hub_refines[OF h(1)] show ?thesis by (auto simp: reported_def)
qed

text \<open>
  C20: closing a connection is memory safe in every state the whole server can reach: for every client event
  the server still holds, \<open>closeConnection\<close> frees the user, the socket, the session and the
  event, each exactly once, or throws the \<open>EpollException\<close> of \<open>removeEvent\<close>. It never touches an
  object that was deleted before. Afterwards the user is no longer in either map.
\<close>

theorem closeConnection_safe:
  assumes "hub_reachable ntop env h" "evs h e = Some ev" "ev_clbk ev = ClientSocketClbk"
  shows "(\<exists>x. closeConnection e h = Inl (Throw (EpollException x))) \<or>
    (\<exists>h' s se. closeConnection e h = Inr h' \<and> ev_ptr ev = Some s \<and> sessions h s = Some se \<and>
      evs h' = (evs h)(e := None) \<and> sessions h' = (sessions h)(s := None) \<and>
      socks h' = (socks h)(se_sock se := None) \<and>
      (case se_user se of
         None \<Rightarrow> users h' = users h \<and> nick_umap h' = nick_umap h \<and> id_umap h' = id_umap h
       | Some ur \<Rightarrow> \<exists>u. users h ur = Some u \<and> users h' = (users h)(ur := None) \<and>
           nick_umap h' = (nick_umap h)(u_nick u := None) \<and> id_umap h' = (id_umap h)(u_id u := None)))"
  by (rule closeConnection_graph[OF hub_invD(1)[OF hub.reach_inv[OF assms(1)]] assms(2,3)])

theorem closeConnection_safe_witness:
  "\<exists>h. hub_reachable (\<lambda>_. [49]) env0 h \<and> (\<forall>u. closeConnection 4 h \<noteq> Inl (Undefined u))"
proof -
  obtain h where h: "hub_reachable (\<lambda>_. [49]) env0 h"
    "evs h 4 = Some \<lparr>ev_fd = 5, ev_ptr = Some 3, ev_clbk = ClientSocketClbk\<rparr>"
    using reachable_client cmd_hub_reachable by blast
  from closeConnection_safe[OF h] have "\<forall>u. closeConnection 4 h \<noteq> Inl (Undefined u)" by auto
  with h(1) show ?thesis by blast
qed

end
