(* ===== verification/Hub_History.thy ===== *)
theory Hub_History
  imports Hub_Scenario
begin

text \<open>
  Runs of the whole server with their history, and what the datagrams it sends owe to the datagrams it received.
\<close>

text \<open>Runs with the actions that were taken.\<close>

inductive hub_run :: "(sockaddr_storage \<Rightarrow> cstring) \<Rightarrow> env \<Rightarrow> action list \<Rightarrow> hub \<Rightarrow> bool" for ntop env where
  start: "hub_run ntop env [] (hub_listening ep fd)"
| step: "hub_run ntop env acts h \<Longrightarrow> hub_step ntop env act h h' \<Longrightarrow> hub_run ntop env (acts @ [act]) h'"

lemma hub_run_reachable: "hub_run ntop env acts h \<Longrightarrow> hub_reachable ntop env h"
  by (induction rule: hub_run.induct) (auto intro: reach.intros)

lemma reachable_hub_run: "hub_reachable ntop env h \<Longrightarrow> \<exists>acts. hub_run ntop env acts h"
  by (induction rule: reach.induct) (auto intro: hub_run.intros)

definition reported_by :: "action set \<Rightarrow> i32 \<Rightarrow> Coordinates \<Rightarrow> bool" where
  "reported_by acts i c \<longleftrightarrow> (\<exists>bs a. Datagram bs a \<in> acts \<and> decode_coords bs = Some (i, c))"

definition bound_by :: "action set \<Rightarrow> i32 \<Rightarrow> i32 \<Rightarrow> sockaddr_storage \<Rightarrow> bool" where
  "bound_by acts i t a \<longleftrightarrow> (\<exists>bs. Datagram bs a \<in> acts \<and> decode_init bs = Some (i, t))"

definition history_ok :: "action set \<Rightarrow> service \<times> outbox \<Rightarrow> bool" where
  "history_ok acts x \<longleftrightarrow>
     (\<forall>n m. fst x n = Some m \<longrightarrow> (\<forall>c. m_pos m = Some c \<longrightarrow> reported_by acts (m_id m) c) \<and>
        (\<forall>a. m_addr m = Some a \<longrightarrow> bound_by acts (m_id m) (m_token m) a)) \<and>
     (\<forall>(a, y) \<in> set (snd x). (\<exists>i c. reported_by acts i c \<and> y = map Some (coords_bytes i c)) \<and> (\<exists>i t. bound_by acts i t a))"

lemma history_mono: "history_ok acts x \<Longrightarrow> acts \<subseteq> acts' \<Longrightarrow> history_ok acts' x"
  unfolding history_ok_def reported_by_def bound_by_def by fastforce

lemma set_deliveries:
  assumes "(a, y) \<in># deliveries A m c"
  shows "y = map Some (coords_bytes (m_id m) c) \<and> (\<exists>n m'. A n = Some m' \<and> m_addr m' = Some a)"
proof -
  have "(a, y) \<in> (\<lambda>n. (the (Option.bind (A n) m_addr), map Some (coords_bytes (m_id m) c))) `
      set_mset (mset_set {n \<in> m_buddies m. Option.bind (A n) m_addr \<noteq> None})"
    using assms by (simp add: deliveries_def)
  then obtain n where n: "n \<in># mset_set {n \<in> m_buddies m. Option.bind (A n) m_addr \<noteq> None}"
      "(a, y) = (the (Option.bind (A n) m_addr), map Some (coords_bytes (m_id m) c))" by (rule imageE) simp
  have "Option.bind (A n) m_addr \<noteq> None"
    using n(1) by (cases "finite {n \<in> m_buddies m. Option.bind (A n) m_addr \<noteq> None}") simp_all
  with n(2) show ?thesis by (cases "A n") auto
qed

lemma history_svc_step:
  assumes "svc_step act x y" "history_ok acts x" "act \<in> acts"
  shows "history_ok acts y"
  using assms
proof cases
  case (register A n i out t)
  then show ?thesis using assms(2) by (auto simp: history_ok_def new_member_def)
next
  case (befriend A n m out N)
  then show ?thesis using assms(2) by (auto simp: history_ok_def)
next
  case (unfriend A n m out N)
  then show ?thesis using assms(2) by (auto simp: history_ok_def)
next
  case (leave A n m out)
  then show ?thesis using assms(2) by (auto simp: history_ok_def split: if_splits)
next
  case (bind A n m bs a out)
  then have "bound_by acts (m_id m) (m_token m) a" using assms(3) by (auto simp: bound_by_def)
  with bind show ?thesis using assms(2) by (auto simp: history_ok_def)
next
  case (report A n m bs c a0 a out)
  then have "reported_by acts (m_id m) c" using assms(3) by (auto simp: reported_by_def)
  with report show ?thesis using assms(2) by (auto simp: history_ok_def)
next
  case (deliver A n m c ds out)
  have m: "reported_by acts (m_id m) c" using deliver assms(2) by (auto simp: history_ok_def)
  have d: "(\<exists>i c. reported_by acts i c \<and> z = map Some (coords_bytes i c)) \<and> (\<exists>i t. bound_by acts i t b)" if "(b, z) \<in> set ds" for b z
  proof -
    have "(b, z) \<in># deliveries A m c" using that deliver(6) by (metis set_mset_mset)
    then obtain n' m' where z: "z = map Some (coords_bytes (m_id m) c)" "A n' = Some m'" "m_addr m' = Some b"
      using set_deliveries by blast
    then have "bound_by acts (m_id m') (m_token m') b" using assms(2) unfolding history_ok_def deliver(2) fst_conv by blast
    with m z(1) show ?thesis by blast
  qed
  with deliver show ?thesis using assms(2) by (auto simp: history_ok_def)
qed

lemma history_svc_steps: "(svc_step act)\<^sup>*\<^sup>* x y \<Longrightarrow> history_ok acts x \<Longrightarrow> act \<in> acts \<Longrightarrow> history_ok acts y"
  by (induction rule: rtranclp_induct) (auto intro: history_svc_step)

lemma history_run: "hub_run ntop env acts h \<Longrightarrow> history_ok (set acts) (abs_hub h)"
proof (induction rule: hub_run.induct)
  case (start ep fd)
  then show ?case by (simp add: history_ok_def abs_hub_def service_of_def hub_listening_def hub_start_def)
next
  case (step acts h act h')
  have "history_ok (set (acts @ [act])) (abs_hub h)" using step.IH by (rule history_mono) auto
  then show ?case using history_svc_steps[OF hub_step_svc[OF step.hyps(2) hub.reach_inv[OF hub_run_reachable[OF step.hyps(1)]]]] by auto
qed

text \<open>
  C3: nothing the server sends or stores is made up. In every run of the whole server, each datagram that was sent
  went to an address from which a registration datagram had come, and carries a position that some datagram
  reported under the same id; each position that waits was reported with its member's id, and each
  registered address is the sender of a datagram with its member's id and token.
\<close>

theorem nothing_made_up:
  assumes "hub_run ntop env acts h"
  shows "((a, x) \<in> set (udp_out h) \<longrightarrow>
      (\<exists>bs b i c. Datagram bs b \<in> set acts \<and> decode_coords bs = Some (i, c) \<and> x = map Some (coords_bytes i c)) \<and>
      (\<exists>bs i t. Datagram bs a \<in> set acts \<and> decode_init bs = Some (i, t))) \<and>
    (service_of h n = Some m \<longrightarrow>
      (\<forall>c. m_pos m = Some c \<longrightarrow> (\<exists>bs b. Datagram bs b \<in> set acts \<and> decode_coords bs = Some (m_id m, c))) \<and>
      (\<forall>a. m_addr m = Some a \<longrightarrow> (\<exists>bs. Datagram bs a \<in> set acts \<and> decode_init bs = Some (m_id m, m_token m))))"
proof -
  have "history_ok (set acts) (abs_hub h)" by (rule history_run[OF assms])
  then show ?thesis unfolding history_ok_def abs_hub_def reported_by_def bound_by_def by fastforce
qed

theorem nothing_made_up_witness:
  "\<exists>acts h t bs. hub_run (\<lambda>_. [49]) env0 acts h \<and> reported t h \<and>
     Datagram bs client_addr \<in> set acts \<and> decode_init bs = Some (1, t)"
proof -
  obtain h t where h: "hub_reachable (\<lambda>_. [49]) env0 h" "reported t h" using reachable_reported by blast
  obtain acts where r: "hub_run (\<lambda>_. [49]) env0 acts h" using reachable_hub_run[OF h(1)] by blast
  let ?m = "\<lparr>m_id = 1, m_buddies = {}, m_token = t, m_addr = Some client_addr,
     m_pos = Some \<lparr>longitude = 21, latitude = 52, altitude = 0\<rparr>\<rparr>"
  have "service_of h [65] = Some ?m" using h(2) by (simp add: reported_def)
  with nothing_made_up[OF r, of client_addr "[]" "[65]" ?m]
  have "\<exists>bs. Datagram bs client_addr \<in> set acts \<and> decode_init bs = Some (1, t)" by simp
  with h(2) r show ?thesis by blast
qed

end
