(* ===== verification/Hub_Loops.thy ===== *)
theory Hub_Loops
  imports Hub_System
begin

text \<open>
  The loops the threads run (\<open>CommandServer_loop\<close>, \<open>GpsDataServer_run\<close>, \<open>bcast_run\<close>) seen as sequences of the steps of
  the whole server. \<open>waits_served\<close> says, without the loop and its array, what serving the results of a sequence of
  \<open>epoll_wait\<close> calls means; the locale \<open>event_loop\<close> has what \<open>Epoll::loop\<close> asks of its callbacks, and is interpreted
  on the callbacks of both servers.
\<close>

section \<open>What a run of an event loop has served\<close>

text \<open>The bits of \<open>events\<close> that report the end of a connection: error, hang-up, and hang-up of the peer.\<close>

definition hung_up :: "i32 \<Rightarrow> bool" where
  "hung_up fl \<longleftrightarrow> bit fl 3 \<or> bit fl 4 \<or> bit fl 13"

lemma bit_flag: "has_flag fl (2 ^ n) \<longleftrightarrow> bit fl n" if "n < 32"
proof -
  have "and fl (2 ^ n) = (if bit fl n then 2 ^ n else 0)"
    by (rule bit_word_eqI) (auto simp: bit_and_iff bit_exp_iff)
  moreover have "(2 :: i32) ^ n \<noteq> 0" using that by (simp add: word_exp_length_eq_0)
  ultimately show ?thesis by (simp add: has_flag_def)
qed

lemma hung_up_flags: "hung_up fl \<longleftrightarrow> has_flag fl EPOLLERR \<or> has_flag fl EPOLLHUP \<or> has_flag fl EPOLLRDHUP"
  using bit_flag[of 3 fl] bit_flag[of 4 fl] bit_flag[of 13 fl]
  by (simp add: hung_up_def EPOLLERR_def EPOLLHUP_def EPOLLRDHUP_def)

text \<open>
  The events of one \<open>epoll_wait\<close>, served one after the other, each once; and the results of a sequence of
  \<open>epoll_wait\<close> calls: an interrupted call is repeated, a call that times out is \<open>idle\<close>, and one that delivers
  events has stored them (\<open>fill\<close>) before they are served.
\<close>

fun events_served :: "(evref \<Rightarrow> i32 \<Rightarrow> 's \<Rightarrow> 's \<Rightarrow> bool) \<Rightarrow> (evref \<times> i32) list \<Rightarrow> 's \<Rightarrow> 's \<Rightarrow> bool" where
  "events_served served [] s s' \<longleftrightarrow> s' = s"
| "events_served served ((e, fl) # es) s s' \<longleftrightarrow> (\<exists>t. served e fl s t \<and> events_served served es t s')"

fun waits_served :: "('s \<Rightarrow> 's \<Rightarrow> bool) \<Rightarrow> ((evref \<times> i32) list \<Rightarrow> 's \<Rightarrow> 's) \<Rightarrow> (evref \<Rightarrow> i32 \<Rightarrow> 's \<Rightarrow> 's \<Rightarrow> bool) \<Rightarrow>
   wait_res list \<Rightarrow> 's \<Rightarrow> 's \<Rightarrow> bool" where
  "waits_served idle fill served [] s s' \<longleftrightarrow> s' = s"
| "waits_served idle fill served (WaitErr x # ws) s s' \<longleftrightarrow> x = EINTR \<and> waits_served idle fill served ws s s'"
| "waits_served idle fill served (Ready [] # ws) s s' \<longleftrightarrow> (\<exists>t. idle s t \<and> waits_served idle fill served ws t s')"
| "waits_served idle fill served (Ready (x # es) # ws) s s' \<longleftrightarrow>
     (\<exists>t. events_served served (x # es) (fill (x # es) s) t \<and> waits_served idle fill served ws t s')"

lemma events_served_mono:
  assumes "events_served served es s s'" and mono: "\<And>e fl s t. served e fl s t \<Longrightarrow> served' e fl s t"
  shows "events_served served' es s s'"
  using assms(1)
proof (induction es arbitrary: s)
  case (Cons x es)
  obtain e fl where x: "x = (e, fl)" by fastforce
  with Cons.prems obtain t where "served e fl s t" "events_served served es t s'" by auto
  with mono Cons.IH have "served' e fl s t" "events_served served' es t s'" by blast+
  with x show ?case by auto
qed simp

lemma waits_served_mono:
  assumes "waits_served idle fill served ws s s'" and idle: "\<And>s t. idle s t \<Longrightarrow> idle' s t"
    and served: "\<And>e fl s t. served e fl s t \<Longrightarrow> served' e fl s t"
  shows "waits_served idle' fill served' ws s s'"
  using assms(1)
proof (induction ws arbitrary: s)
  case (Cons w ws)
  consider (err) x where "w = WaitErr x" | (none) "w = Ready []" | (some) x es where "w = Ready (x # es)"
    by (metis list.exhaust wait_res.exhaust)
  then show ?case
  proof cases
    case some
    with Cons.prems obtain t where "events_served served (x # es) (fill (x # es) s) t" "waits_served idle fill served ws t s'" by auto
    with events_served_mono[where served' = served', OF _ served] Cons.IH
    have "events_served served' (x # es) (fill (x # es) s) t" "waits_served idle' fill served' ws t s'" by blast+
    with some show ?thesis by auto
  qed (use Cons idle in auto)
qed simp

lemma waits_served_trans:
  assumes "waits_served R fill (\<lambda>_ _. R) ws s s'" and refl: "\<And>s. R s s" and trans: "\<And>s t u. R s t \<Longrightarrow> R t u \<Longrightarrow> R s u"
    and fill: "\<And>es s. R s (fill es s)"
  shows "R s s'"
proof -
  have es: "R s s'" if "events_served (\<lambda>_ _. R) es s s'" for es s s'
    using that
  proof (induction es arbitrary: s)
    case (Cons x es)
    then obtain t where "R s t" "R t s'" by (cases x) auto
    then show ?case by (rule trans)
  qed (simp add: refl)
  show ?thesis using assms(1)
  proof (induction ws arbitrary: s)
    case (Cons w ws)
    consider (err) x where "w = WaitErr x" | (none) "w = Ready []" | (some) x es where "w = Ready (x # es)"
      by (metis list.exhaust wait_res.exhaust)
    then show ?case
    proof cases
      case none
      with Cons obtain t where "R s t" "R t s'" by auto
      then show ?thesis by (rule trans)
    next
      case some
      with Cons.prems obtain t where t: "events_served (\<lambda>_ _. R) (x # es) (fill (x # es) s) t" "waits_served R fill (\<lambda>_ _. R) ws t s'"
        by auto
      have "R s t" using fill es[OF t(1)] by (rule trans)
      then show ?thesis using Cons.IH[OF t(2)] by (rule trans)
    qed (use Cons in auto)
  qed (simp add: refl)
qed

text \<open>
  What a callback may do to the \<open>Epoll\<close> object under the loop: the flag and the stop event stay, and an entry of
  the array that can still be read is the one that was there before.
\<close>

definition ep_kept :: "Epoll \<Rightarrow> Epoll \<Rightarrow> bool" where
  "ep_kept ep ep' \<longleftrightarrow> ep_loop ep' = ep_loop ep \<and> ep_stop_event ep' = ep_stop_event ep \<and>
     (\<forall>i x. i < length (ep_events ep') \<longrightarrow> ep_events ep' ! i = Some x \<longrightarrow>
        i < length (ep_events ep) \<and> ep_events ep ! i = Some x)"

lemma ep_keptD:
  "ep_kept ep ep' \<Longrightarrow> i < length (ep_events ep') \<Longrightarrow> ep_events ep' ! i = Some x \<Longrightarrow>
     i < length (ep_events ep) \<and> ep_events ep ! i = Some x"
  unfolding ep_kept_def by blast

lemma ep_kept_refl [simp]: "ep_kept ep ep"
  by (simp add: ep_kept_def)

lemma ep_kept_trans: "ep_kept a b \<Longrightarrow> ep_kept b c \<Longrightarrow> ep_kept a c"
  by (auto simp: ep_kept_def)

lemma ep_kept_addEvent: "addEvent ep fd e fl = Inr ep' \<Longrightarrow> ep_kept ep ep'"
  by (auto simp: addEvent_def ctl_add_def Let_def ep_kept_def malloc_events_def split: if_splits list.splits)

lemma ep_kept_removeEvent: "removeEvent ep fd = Inr ep' \<Longrightarrow> ep_kept ep ep'"
  by (auto simp: removeEvent_def ctl_del_def Let_def ep_kept_def malloc_events_def split: if_splits list.splits)

lemma addEvent_stop_fd: "addEvent ep fd e fl = Inr ep' \<Longrightarrow> ep_stop_fd ep' = ep_stop_fd ep"
  by (auto simp: addEvent_def ctl_add_def Let_def split: if_splits prod.splits list.splits)

lemma ep_kept_initStopPipe:
  assumes "initStopPipe pipe ep = Inr ep'"
  shows "ep_kept ep ep'" "pipe = Inr (ep_stop_fd ep')"
proof -
  obtain fd where fd: "pipe = Inr fd"
    "addEvent (ep\<lparr>ep_stop_fd := fd, ep_stop_written := False\<rparr>) fd (ep_stop_event ep) (or EPOLLIN EPOLLET) = Inr ep'"
    using assms by (cases pipe) (auto simp: initStopPipe_def)
  from ep_kept_addEvent[OF fd(2)] show "ep_kept ep ep'" by (simp add: ep_kept_def)
  from addEvent_stop_fd[OF fd(2)] fd(1) show "pipe = Inr (ep_stop_fd ep')" by simp
qed

text \<open>
  A client of the loop: its body serves one event, its timeout callback is \<open>idle\<close>, both keep \<open>I\<close> and what the
  loop needs of the array. Then the loop serves exactly the events that \<open>epoll_wait\<close> delivers.
\<close>

locale event_loop =
  fixes epl :: "'s \<Rightarrow> Epoll" and set_epl :: "Epoll \<Rightarrow> 's \<Rightarrow> 's" and tc :: "('s \<Rightarrow> 's res) option"
    and body :: "evref \<Rightarrow> i32 \<Rightarrow> 's \<Rightarrow> 's res" and I :: "'s \<Rightarrow> bool"
    and served :: "evref \<Rightarrow> i32 \<Rightarrow> 's \<Rightarrow> 's \<Rightarrow> bool" and idle :: "'s \<Rightarrow> 's \<Rightarrow> bool"
  assumes get_set: "epl (set_epl ep s) = ep" and set_get: "set_epl (epl s) s = s"
    and fill_I: "I s \<Longrightarrow> I (set_epl (fill_events (epl s) es) s)"
    and body_serves: "I s \<Longrightarrow> body e fl s = Inr t \<Longrightarrow> served e fl s t \<and> ep_kept (epl s) (epl t) \<and> I t"
    and no_timeout: "tc = None \<Longrightarrow> idle s s"
    and timeout: "tc = Some f \<Longrightarrow> I s \<Longrightarrow> f s = Inr t \<Longrightarrow> idle s t \<and> ep_loop (epl t) = ep_loop (epl s) \<and> I t"
begin

abbreviation "fill es s \<equiv> set_epl (fill_events (epl s) es) s"

lemma batch_serves:
  assumes "Epoll_batch epl body i k s = Inr s'" "I s" "k = length es"
    and arr: "\<And>j x. i \<le> j \<Longrightarrow> j < i + k \<Longrightarrow> j < length (ep_events (epl s)) \<Longrightarrow> ep_events (epl s) ! j = Some x \<Longrightarrow> x = es ! (j - i)"
  shows "events_served served es s s' \<and> I s' \<and> ep_loop (epl s') = ep_loop (epl s)"
  using assms
proof (induction k arbitrary: i s es)
  case (Suc k)
  from Suc.prems(1) obtain e fl t where t: "i < length (ep_events (epl s))" "ep_events (epl s) ! i = Some (e, fl)"
    "body e fl s = Inr t" "Epoll_batch epl body (Suc i) k t = Inr s'"
    by (auto simp: fault_simps split: if_splits option.splits)
  from Suc.prems(3) obtain y es' where es: "es = y # es'" "length es' = k" by (cases es) auto
  have y: "y = (e, fl)" using Suc.prems(4)[of i "(e, fl)"] t es by simp
  note b = body_serves[OF Suc.prems(2) t(3)]
  have "x = es' ! (j - Suc i)"
    if j: "Suc i \<le> j" "j < Suc i + k" "j < length (ep_events (epl t))" "ep_events (epl t) ! j = Some x" for j x
  proof -
    have "j < length (ep_events (epl s))" "ep_events (epl s) ! j = Some x" using ep_keptD[OF _ j(3,4)] b by blast+
    with Suc.prems(4)[of j x] j have "x = es ! (j - i)" by simp
    with j(1) es show ?thesis by (simp add: nth_Cons')
  qed
  from Suc.IH[OF t(4) _ es(2)[symmetric] this] b have "events_served served es' t s' \<and> I s' \<and> ep_loop (epl s') = ep_loop (epl t)"
    by blast
  moreover have "ep_loop (epl t) = ep_loop (epl s)" using b by (simp add: ep_kept_def)
  ultimately show ?case using b es y by auto
qed simp

lemma loop_serves:
  assumes "Epoll_loop epl set_epl tc body ws s = Inr s'" "I s"
  shows "if ep_loop (epl s) then waits_served idle fill served ws s s' else s' = s"
  using assms
proof (induction ws arbitrary: s)
  case (Cons w ws)
  show ?case
  proof (cases "ep_loop (epl s)")
    case False
    with Cons.prems show ?thesis by simp
  next
    case True
    with Cons.prems(1) obtain t where t: "Epoll_round epl set_epl tc body w s = Inr t"
      "Epoll_loop epl set_epl tc body ws t = Inr s'" by (auto simp: bindF_Inr_iff)
    have go: "waits_served idle fill served ws t s'" if "I t" "ep_loop (epl t)" using Cons.IH[OF t(2) that(1)] that(2) by simp
    show ?thesis
    proof (cases w)
      case (WaitErr x)
      with t(1) have "x = EINTR" "t = s" by (auto simp: Epoll_round_def split: if_splits)
      with go Cons.prems(2) True WaitErr show ?thesis by simp
    next
      case (Ready es)
      show ?thesis
      proof (cases "es = []")
        case True
        have "idle s t \<and> I t \<and> ep_loop (epl t)"
        proof (cases tc)
          case None
          with t(1) Ready True have "t = s" by (simp add: Epoll_round_def fill_events_def set_get)
          with None no_timeout Cons.prems(2) \<open>ep_loop (epl s)\<close> show ?thesis by simp
        next
          case (Some f)
          with t(1) Ready True timeout[OF Some Cons.prems(2), of t] \<open>ep_loop (epl s)\<close> show ?thesis by (simp add: Epoll_round_def)
        qed
        with go Ready True \<open>ep_loop (epl s)\<close> show ?thesis by auto
      next
        case False
        with t(1) Ready have "Epoll_batch epl body 0 (length es) (fill es s) = Inr t" by (simp add: Epoll_round_def)
        from batch_serves[OF this fill_I[OF Cons.prems(2)] refl]
        have b: "events_served served es (fill es s) t \<and> I t \<and> ep_loop (epl t)"
          using \<open>ep_loop (epl s)\<close> by (auto simp: get_set fill_events_def nth_append)
        from False obtain y es' where "es = y # es'" by (cases es) auto
        with b go Ready \<open>ep_loop (epl s)\<close> show ?thesis by auto
      qed
    qed
  qed
qed simp

end

section \<open>Paths\<close>

text \<open>A path: the actions of a sequence of steps of the whole server.\<close>

inductive hub_path :: "(sockaddr_storage \<Rightarrow> cstring) \<Rightarrow> env \<Rightarrow> action list \<Rightarrow> hub \<Rightarrow> hub \<Rightarrow> bool" for ntop env where
  here: "hub_path ntop env [] h h"
| go: "hub_step ntop env a h k \<Longrightarrow> hub_path ntop env as k h' \<Longrightarrow> hub_path ntop env (a # as) h h'"

inductive_simps hub_path_Nil [simp]: "hub_path ntop env [] h h'"

lemma hub_path_one: "hub_step ntop env a h h' \<Longrightarrow> hub_path ntop env [a] h h'"
  by (rule hub_path.go) (assumption, rule hub_path.here)

lemma hub_path_append: "hub_path ntop env as h k \<Longrightarrow> hub_path ntop env bs k h' \<Longrightarrow> hub_path ntop env (as @ bs) h h'"
  by (induction rule: hub_path.induct) (auto intro: hub_path.intros)

lemma hub_reachable_step: "hub_reachable ntop env h \<Longrightarrow> hub_step ntop env act h h' \<Longrightarrow> hub_reachable ntop env h'"
  by (erule reach.step) blast

lemma hub_path_reachable: "hub_path ntop env as h h' \<Longrightarrow> hub_reachable ntop env h \<Longrightarrow> hub_reachable ntop env h'"
  by (induction rule: hub_path.induct) (auto intro: hub_reachable_step)

section \<open>The command server\<close>

text \<open>
  What the command server does for one event. A connection that has ended is closed; for the stop pipe the object
  gets a new pipe, and the stop event its descriptor; otherwise the event's callback decides.
\<close>

definition cmd_served :: "(sockaddr_storage \<Rightarrow> cstring) \<Rightarrow> env \<Rightarrow> evref \<Rightarrow> i32 \<Rightarrow> hub \<Rightarrow> hub \<Rightarrow> bool" where
  "cmd_served ntop env e fl h h' \<longleftrightarrow> (\<exists>ev. evs h e = Some ev \<and>
     (if hung_up fl then
        if ev_fd ev = ep_stop_fd (cmd_epl h) then
          \<exists>ep. ep_kept (cmd_epl h) ep \<and>
            h' = h\<lparr>cmd_epl := ep, evs := (evs h)(ep_stop_event (cmd_epl h) \<mapsto> stop_event (ep_stop_fd ep))\<rparr>
        else closeConnection e h = Inr h'
      else (case ev_clbk ev of
          IncomingConnectionClbk \<Rightarrow> incomingConnection ntop h = Inr h'
        | ClientSocketClbk \<Rightarrow> clientSocketClbk env e fl h = Inr h'
        | _ \<Rightarrow> h' = h)))"

abbreviation cmd_waits_served :: "(sockaddr_storage \<Rightarrow> cstring) \<Rightarrow> env \<Rightarrow> wait_res list \<Rightarrow> hub \<Rightarrow> hub \<Rightarrow> bool" where
  "cmd_waits_served ntop env \<equiv>
     waits_served (\<lambda>h h'. h' = h) (\<lambda>es h. h\<lparr>cmd_epl := fill_events (cmd_epl h) es\<rparr>) (cmd_served ntop env)"

text \<open>The stop event of the epoll object is an event without a callback.\<close>

definition stop_ok :: "hub \<Rightarrow> bool" where
  "stop_ok h \<longleftrightarrow> (\<exists>ev. evs h (ep_stop_event (cmd_epl h)) = Some ev \<and> ev_clbk ev = NoClbk)"

text \<open>Callbacks keep the epoll object as the loop needs it, and the events without a callback.\<close>

definition cmd_kept :: "hub \<Rightarrow> hub \<Rightarrow> bool" where
  "cmd_kept h h' \<longleftrightarrow> ep_kept (cmd_epl h) (cmd_epl h') \<and>
     (\<forall>e ev. evs h e = Some ev \<longrightarrow> ev_clbk ev = NoClbk \<longrightarrow> evs h' e = Some ev)"

lemma cmd_kept_stop_ok: "cmd_kept h h' \<Longrightarrow> stop_ok h \<Longrightarrow> stop_ok h'"
  unfolding cmd_kept_def stop_ok_def ep_kept_def by metis

lemma closeConnection_epl:
  assumes "closeConnection e h = Inr h'"
  shows "ep_kept (cmd_epl h) (cmd_epl h')" "evs h' = (evs h)(e := None)"
  using assms ep_kept_removeEvent
  by (auto simp: closeConnection_def event_session_def quit_def fault_simps split: option.splits)

lemma cmd_kept_close:
  assumes "sess_inv h" "closeConnection e h = Inr h'"
  shows "cmd_kept h h'"
proof -
  obtain ev s se where ev: "evs h e = Some ev" "ev_ptr ev = Some s"
    using assms(2) by (auto simp: closeConnection_def event_session_def fault_simps)
  then have clbk: "ev_clbk ev \<noteq> NoClbk" using sess_inv_event(3)[OF assms(1) ev(1)] by fastforce
  with ev(1) closeConnection_epl[OF assms(2)] show ?thesis by (auto simp: cmd_kept_def)
qed

lemma cmd_kept_accept:
  assumes "sess_inv h" "incomingConnection ntop h = Inr h'"
  shows "cmd_kept h h'"
proof -
  let ?P = "\<lambda>k. ep_kept (cmd_epl h) (cmd_epl k) \<and> next_ref h \<le> next_ref k \<and> (\<forall>e < next_ref h. evs k e = evs h e)"
  have step: "?P k'" if P: "?P k" and run: "acceptOne ntop c (k\<lparr>backlog := tl (backlog k)\<rparr>) = Inr k'" for c k k'
  proof -
    obtain fd fl where "addEvent (cmd_epl k) fd (next_ref k + 2) fl = Inr (cmd_epl k')" and k': "next_ref k' = next_ref k + 3"
      "\<forall>e < next_ref k. evs k' e = evs k e"
      using run by (auto simp: acceptOne_def Let_def fault_simps)
    from ep_kept_trans[OF conjunct1[OF P] ep_kept_addEvent[OF this(1)]] k' P show ?thesis by auto
  qed
  have "?P h'"
    by (rule foldF_invariant[OF assms(2)[unfolded incomingConnection_def], where P = ?P]) (simp, rule step)
  with sess_inv_event(1)[OF assms(1)] show ?thesis unfolding cmd_kept_def by fastforce
qed

lemma cmd_epl_frame: "frame env s bs h = Inr h' \<Longrightarrow> cmd_epl h' = cmd_epl h"
  by (erule frameE) (simp_all add: io_view_eqD(5)[OF io_view_handle])

lemma cmd_kept_client:
  assumes inv: "srv_inv h" and ev: "evs h e = Some ev" "ev_clbk ev = ClientSocketClbk"
    and run: "clientSocketClbk env e fl h = Inr h'"
  shows "cmd_kept h h'"
proof -
  obtain h1 where h1: "(if has_flag fl EPOLLOUT then send_event e h else Inr h) = Inr h1"
    "(if has_flag fl EPOLLIN then incomingData env e h1 else Inr h1) = Inr h'"
    using run by (auto simp: clientSocketClbk_def fault_simps)
  have same: "cmd_epl h1 = cmd_epl h \<and> evs h1 = evs h"
    using h1(1) by (auto simp: send_event_def event_session_def fault_simps split: if_splits)
  show ?thesis
  proof (cases "has_flag fl EPOLLIN")
    case True
    then obtain s where run1: "incomingData_loop env e s h1 = Inr h'"
      using h1(2) by (auto simp: incomingData_def fault_simps)
    let ?P = "\<lambda>k. cmd_epl k = cmd_epl h \<and> evs k = evs h"
    show ?thesis
    proof (rule incomingData_loop_keeps[OF run1, where P = ?P])
      show "?P k'" if "?P k" "frame env s bs k = Inr k'" for k bs k'
        using that(1) evs_frame[OF that(2)] cmd_epl_frame[OF that(2)] by simp
      show "cmd_kept h k'" if "?P k" "closeConnection e k = Inr k'" for k k'
        using closeConnection_epl[OF that(2)] that(1) ev by (auto simp: cmd_kept_def)
    qed (use same in \<open>simp_all add: cmd_kept_def\<close>)
  next
    case False
    with h1(2) same show ?thesis by (simp add: cmd_kept_def)
  qed
qed


text \<open>The body of the loop serves an event, and what it does is a step of the command server.\<close>

lemma cmd_body_served:
  assumes inv: "srv_inv h" and ok: "stop_ok h" and run: "cmd_body ntop env pipe e fl h = Inr h'"
  shows "cmd_served ntop env e fl h h' \<and> ep_kept (cmd_epl h) (cmd_epl h') \<and> stop_ok h'"
proof -
  have s: "sess_inv h" using inv by (simp add: srv_inv_def)
  obtain ev where ev: "evs h e = Some ev"
    using run by (auto simp: cmd_body_def Epoll_body_def cmd_clbk_def fault_simps split: if_splits)
  consider (ends) "hung_up fl" "ev_fd ev \<noteq> ep_stop_fd (cmd_epl h)" "closeConnection e h = Inr h'"
    | (restart) ep1 ep where "hung_up fl" "ev_fd ev = ep_stop_fd (cmd_epl h)" "removeEvent (cmd_epl h) (ep_stop_fd (cmd_epl h)) = Inr ep1"
      "initStopPipe pipe ep1 = Inr ep" "h' = h\<lparr>cmd_epl := ep, evs := (evs h)(ep_stop_event ep \<mapsto> stop_event (ep_stop_fd ep))\<rparr>"
    | (clbk) "\<not> hung_up fl" "cmd_clbk ntop env e fl h = Inr h'"
    using run ev by (auto simp: cmd_body_def Epoll_body_def hung_up_flags fault_simps split: if_splits)
  then show ?thesis
  proof cases
    case ends
    then show ?thesis using ev cmd_kept_close[OF s ends(3)] cmd_kept_stop_ok[OF _ ok]
      by (auto simp: cmd_served_def cmd_kept_def)
  next
    case (restart ep1 ep)
    have k: "ep_kept (cmd_epl h) ep" using ep_kept_trans[OF ep_kept_removeEvent[OF restart(3)] ep_kept_initStopPipe(1)[OF restart(4)]] .
    then have "ep_stop_event ep = ep_stop_event (cmd_epl h)" by (simp add: ep_kept_def)
    with k restart(1,2,5) ev show ?thesis by (auto simp: cmd_served_def stop_ok_def)
  next
    case clbk
    show ?thesis
    proof (cases "ev_clbk ev")
      case IncomingConnectionClbk
      then have "incomingConnection ntop h = Inr h'" using clbk(2) ev by (simp add: cmd_clbk_def)
      then show ?thesis using IncomingConnectionClbk clbk(1) ev cmd_kept_accept[OF s] cmd_kept_stop_ok[OF _ ok]
        by (auto simp: cmd_served_def cmd_kept_def)
    next
      case ClientSocketClbk
      then have "clientSocketClbk env e fl h = Inr h'" using clbk(2) ev by (simp add: cmd_clbk_def)
      then show ?thesis using ClientSocketClbk clbk(1) ev cmd_kept_client[OF inv ev ClientSocketClbk] cmd_kept_stop_ok[OF _ ok]
        by (auto simp: cmd_served_def cmd_kept_def)
    qed (use clbk ev ok in \<open>auto simp: cmd_served_def cmd_clbk_def\<close>)
  qed
qed

definition cmd_moves :: "(sockaddr_storage \<Rightarrow> cstring) \<Rightarrow> env \<Rightarrow> hub \<Rightarrow> hub \<Rightarrow> bool" where
  "cmd_moves ntop env h h' \<longleftrightarrow> (\<exists>n. hub_path ntop env (replicate n Command) h h')"

lemma cmd_moves_refl: "cmd_moves ntop env h h"
  unfolding cmd_moves_def by (rule exI[of _ 0]) simp

lemma cmd_moves_step: "cmd_step ntop env h h' \<Longrightarrow> cmd_moves ntop env h h'"
  unfolding cmd_moves_def by (rule exI[of _ 1]) (simp add: hub_path_one hub_step.command)

lemma cmd_moves_trans: "cmd_moves ntop env h k \<Longrightarrow> cmd_moves ntop env k h' \<Longrightarrow> cmd_moves ntop env h h'"
  unfolding cmd_moves_def by (metis hub_path_append replicate_add)

lemma cmd_moves_reachable: "cmd_moves ntop env h h' \<Longrightarrow> hub_reachable ntop env h \<Longrightarrow> hub_reachable ntop env h'"
  unfolding cmd_moves_def using hub_path_reachable by blast

lemma cmd_served_moves:
  assumes inv: "sess_inv h" and ok: "stop_ok h" and sv: "cmd_served ntop env e fl h h'"
  shows "cmd_moves ntop env h h'"
proof -
  obtain ev where ev: "evs h e = Some ev" using sv by (auto simp: cmd_served_def)
  consider (ends) "closeConnection e h = Inr h'"
    | (restart) ep where "h' = h\<lparr>cmd_epl := ep, evs := (evs h)(ep_stop_event (cmd_epl h) \<mapsto> stop_event (ep_stop_fd ep))\<rparr>"
    | (accept) "ev_clbk ev = IncomingConnectionClbk" "incomingConnection ntop h = Inr h'"
    | (client) "ev_clbk ev = ClientSocketClbk" "clientSocketClbk env e fl h = Inr h'"
    | (skip) "h' = h"
    using sv ev by (auto simp: cmd_served_def split: if_splits clbk.splits)
  then show ?thesis
  proof cases
    case ends
    then obtain ev s where ev: "evs h e = Some ev" "ev_ptr ev = Some s"
      by (auto simp: closeConnection_def event_session_def fault_simps)
    then have "ev_clbk ev = ClientSocketClbk" using sess_inv_event(3)[OF inv ev(1)] by fastforce
    from cmd_moves_step[OF cmd_step.close[OF ev(1) this ends]] show ?thesis .
  next
    case restart
    obtain ev0 where "evs h (ep_stop_event (cmd_epl h)) = Some ev0" "ev_clbk ev0 = NoClbk" using ok by (auto simp: stop_ok_def)
    from cmd_moves_step[OF cmd_step.restart[OF this]] show ?thesis using restart by simp
  next
    case accept
    have "cmd_clbk ntop env e fl h = Inr h'" using accept ev by (simp add: cmd_clbk_def)
    from cmd_moves_step[OF cmd_step.accept[OF ev accept(1) this]] show ?thesis .
  next
    case client
    have "cmd_clbk ntop env e fl h = Inr h'" using client ev by (simp add: cmd_clbk_def)
    from cmd_moves_step[OF cmd_step.client[OF ev client(1) this]] show ?thesis .
  qed (simp add: cmd_moves_refl)
qed

interpretation cmd_loop: event_loop cmd_epl "\<lambda>ep h. h\<lparr>cmd_epl := ep\<rparr>" None "cmd_body ntop env pipe"
    "\<lambda>h. hub_reachable ntop env h \<and> stop_ok h" "\<lambda>e fl h h'. cmd_served ntop env e fl h h' \<and> cmd_moves ntop env h h'" "\<lambda>h h'. h' = h"
    for ntop env pipe
proof unfold_locales
  fix h es assume "hub_reachable ntop env h \<and> stop_ok h"
  then show "hub_reachable ntop env (h\<lparr>cmd_epl := fill_events (cmd_epl h) es\<rparr>) \<and> stop_ok (h\<lparr>cmd_epl := fill_events (cmd_epl h) es\<rparr>)"
    using cmd_moves_reachable[OF cmd_moves_step[OF cmd_step.wait]] by (simp add: stop_ok_def fill_events_def)
next
  fix h e fl h' assume I: "hub_reachable ntop env h \<and> stop_ok h" and run: "cmd_body ntop env pipe e fl h = Inr h'"
  note inv = hub_invD(1,3)[OF hub.reach_inv[OF conjunct1[OF I]]]
  note b = cmd_body_served[OF inv(1) conjunct2[OF I] run]
  have "cmd_moves ntop env h h'"
    using cmd_served_moves[OF inv(2) conjunct2[OF I]] b by blast
  with I b cmd_moves_reachable show "(cmd_served ntop env e fl h h' \<and> cmd_moves ntop env h h') \<and> ep_kept (cmd_epl h) (cmd_epl h') \<and>
      hub_reachable ntop env h' \<and> stop_ok h'" by blast
qed simp_all

lemma CommandServer_run_served:
  assumes "hub_reachable ntop env h" "stop_ok h" "CommandServer_run ntop env pipe ws h = Inr h'"
  shows "if ep_loop (cmd_epl h) then cmd_waits_served ntop env ws h h' else h' = h"
    and "cmd_moves ntop env h h'"
proof -
  note l = cmd_loop.loop_serves[OF assms(3)[unfolded CommandServer_run_def] conjI[OF assms(1,2)]]
  then show "if ep_loop (cmd_epl h) then cmd_waits_served ntop env ws h h' else h' = h"
    using waits_served_mono[where served' = "cmd_served ntop env"] by (fastforce split: if_splits)
  show "cmd_moves ntop env h h'"
  proof (cases "ep_loop (cmd_epl h)")
    case True
    with l have "waits_served (cmd_moves ntop env) (\<lambda>es h. h\<lparr>cmd_epl := fill_events (cmd_epl h) es\<rparr>) (\<lambda>_ _. cmd_moves ntop env) ws h h'"
      by (auto intro: waits_served_mono cmd_moves_refl)
    then show ?thesis by (rule waits_served_trans) (auto intro: cmd_moves_refl cmd_moves_trans cmd_moves_step cmd_step.wait)
  qed (use l cmd_moves_refl in simp)
qed

lemma reachable_CommandServer_run:
  assumes "hub_reachable ntop env h" "stop_ok h" "CommandServer_run ntop env pipe ws h = Inr h'"
  shows "hub_reachable ntop env h'"
  using cmd_moves_reachable[OF CommandServer_run_served(2)[OF assms] assms(1)] .

text \<open>Start-up included.\<close>

lemma caught:
  "(case r of Inl (Undefined u) \<Rightarrow> Inl (Undefined u) | Inl (Throw (SocketException x)) \<Rightarrow> Inl (Throw (SocketException x))
     | Inl (Throw (EpollException x)) \<Rightarrow> Inr None | Inl Diverge \<Rightarrow> Inl Diverge | Inr h \<Rightarrow> Inr (Some h)) = Inr (Some h) \<Longrightarrow> r = Inr h"
  by (auto split: sum.splits fault.splits exn.splits)

lemma Epoll_new_start:
  assumes "Epoll_new edelta ce pipe ev = Inr ep"
  shows "ep_loop ep" "ep_stop_event ep = ev" "pipe = Inr (ep_stop_fd ep)"
  using assms ep_kept_initStopPipe by (auto simp: Epoll_new_def ep_kept_def split: option.splits)

lemma CommandServer_loop_run:
  assumes "CommandServer_loop ntop env pipe ws gai getfl setfl listen_err create_err sk (hub_start ep0) = Inr (Some h)"
  obtains ep sk' b where "Socket_Bind gai sk = (None, sk', b)" "ep_loop ep" "stop_ok (hub_listening ep (sockfd sk'))"
    "pipe = Inr (ep_stop_fd ep)" "registered ep (sockfd sk')"
    "CommandServer_run ntop env pipe ws (hub_listening ep (sockfd sk')) = Inr h"
proof -
  obtain sk' b where b: "Socket_Bind gai sk = (None, sk', b)"
    using assms by (auto simp: CommandServer_loop_def split: prod.splits option.splits)
  let ?h = "hub_start ep0"
  let ?s = "\<lambda>ep. ?h\<lparr>evs := (evs ?h)(next_ref ?h \<mapsto> stop_event (ep_stop_fd ep),
      next_ref ?h + 1 \<mapsto> \<lparr>ev_fd = sockfd sk', ev_ptr = None, ev_clbk = IncomingConnectionClbk\<rparr>), next_ref := next_ref ?h + 2\<rparr>"
  obtain ep ep' where new: "Epoll_new DEFAULT_EDELTA create_err pipe (next_ref ?h) = Inr ep"
    and ep: "addEvent ep (sockfd sk') (next_ref ?h + 1) (EPOLLIN OR EPOLLET) = Inr ep'"
    and run: "CommandServer_run ntop env pipe ws ((?s ep)\<lparr>cmd_epl := ep'\<rparr>) = Inr h"
    using assms unfolding CommandServer_loop_def b Let_def prod.case option.case
    by (elim bindF_InrE) (rule that, assumption, assumption, erule caught)
  have eq: "(?s ep)\<lparr>cmd_epl := ep'\<rparr> = hub_listening ep' (sockfd sk')"
    using addEvent_stop_fd[OF ep] by (simp add: hub_listening_def hub_start_def)
  have k: "ep_loop ep'" "ep_stop_event ep' = 0"
    using ep_kept_addEvent[OF ep] Epoll_new_start[OF new] by (simp_all add: ep_kept_def hub_start_def)
  have st: "stop_ok (hub_listening ep' (sockfd sk'))" using k(2) by (simp add: stop_ok_def hub_listening_def hub_start_def)
  have "ep_inv ep" using Epoll_new_inv[OF _ new] by (simp add: DEFAULT_EDELTA_def)
  from addEvent_inv[OF this ep] have reg: "registered ep' (sockfd sk')" by simp
  have "pipe = Inr (ep_stop_fd ep')" using Epoll_new_start(3)[OF new] addEvent_stop_fd[OF ep] by simp
  from that[OF b k(1) st this reg] run eq show thesis by simp
qed

lemma reachable_listening: "hub_reachable ntop env (hub_listening ep fd)"
  by (rule reach.start) blast

lemma reachable_CommandServer_loop:
  assumes "CommandServer_loop ntop env pipe ws gai getfl setfl listen_err create_err sk (hub_start ep0) = Inr (Some h)"
  shows "hub_reachable ntop env h"
  using assms by (rule CommandServer_loop_run) (rule reachable_CommandServer_run[OF reachable_listening])

section \<open>The GPS server\<close>

text \<open>
  What the GPS server does for one event: an event of its socket takes the datagram that arrived, and must not
  report a hang-up, for which it has no callback; the stop event changes nothing but the epoll object.
\<close>

definition gps_served :: "(sockaddr_storage \<Rightarrow> cstring) \<Rightarrow> env \<Rightarrow> evref \<Rightarrow> evref \<Rightarrow> i32 \<Rightarrow> gps_loop_state \<Rightarrow> gps_loop_state \<Rightarrow> bool" where
  "gps_served ntop env se e fl g g' \<longleftrightarrow>
     (if e = se then \<not> hung_up fl \<and> (\<exists>bs a. gl_inbox g = Inr (bs, a) # gl_inbox g' \<and>
          hub_step ntop env (Datagram bs a) (gl_hub g) (gl_hub g'))
      else gl_hub g' = gl_hub g \<and> gl_inbox g' = gl_inbox g)"

definition gps_idle :: "(sockaddr_storage \<Rightarrow> cstring) \<Rightarrow> env \<Rightarrow> gps_loop_state \<Rightarrow> gps_loop_state \<Rightarrow> bool" where
  "gps_idle ntop env g g' \<longleftrightarrow> gl_inbox g' = gl_inbox g \<and> hub_step ntop env Timeout (gl_hub g) (gl_hub g')"

lemma gps_body_served:
  assumes fd: "fd \<noteq> ep_stop_fd (gl_epl g)" "pipe \<noteq> Inr fd" and run: "gps_body se fd pipe e fl g = Inr g'"
  shows "gps_served ntop env se e fl g g' \<and> ep_kept (gl_epl g) (gl_epl g') \<and> fd \<noteq> ep_stop_fd (gl_epl g')"
proof (cases "e = se")
  case True
  with run fd(1) obtain d where d: "\<not> hung_up fl" "gl_inbox g = d # gl_inbox g'" "gl_epl g' = gl_epl g"
    "gps_incomingData d (gl_hub g) = Inr (gl_hub g')"
    by (auto simp: gps_body_def Epoll_body_def gps_clbk_def hung_up_flags fault_simps split: if_splits list.splits)
  obtain bs a where bs: "d = Inr (bs, a)"
    using d(4) by (cases d) (auto simp: gps_incomingData_def Socket_Recvfrom_def)
  from hub_step.datagram[OF d(4)[unfolded bs]] have "gps_served ntop env se e fl g g'"
    using d(1,2) bs True by (auto simp: gps_served_def)
  with d(3) fd(1) show ?thesis by simp
next
  case False
  have body: "gps_body se fd pipe e fl g = (if hung_up fl then bindF (removeEvent (gl_epl g) (ep_stop_fd (gl_epl g))) (\<lambda>ep.
      bindF (initStopPipe pipe ep) (\<lambda>ep. Inr (g\<lparr>gl_epl := ep\<rparr>))) else Inr g)"
    using False by (simp add: gps_body_def Epoll_body_def gps_clbk_def hung_up_flags)
  show ?thesis
  proof (cases "hung_up fl")
    case True
    with run body have "bindF (removeEvent (gl_epl g) (ep_stop_fd (gl_epl g))) (\<lambda>ep.
      bindF (initStopPipe pipe ep) (\<lambda>ep. Inr (g\<lparr>gl_epl := ep\<rparr>))) = Inr g'" by simp
    then obtain ep1 ep where 2: "removeEvent (gl_epl g) (ep_stop_fd (gl_epl g)) = Inr ep1"
      "initStopPipe pipe ep1 = Inr ep" "Inr (g\<lparr>gl_epl := ep\<rparr>) = (Inr g' :: gps_loop_state res)" by (elim bindF_InrE)
    with ep_kept_trans[OF ep_kept_removeEvent[OF 2(1)] ep_kept_initStopPipe(1)[OF 2(2)]] ep_kept_initStopPipe(2)[OF 2(2)] fd(2) False
    show ?thesis by (auto simp: gps_served_def)
  next
    case no: False
    with run body False fd(1) show ?thesis by (simp add: gps_served_def)
  qed
qed

interpretation gps_loop: event_loop gl_epl "\<lambda>ep g. g\<lparr>gl_epl := ep\<rparr>"
    "Some (\<lambda>g. bindF (sendPendingCmd (gl_hub g)) (\<lambda>h. Inr (g\<lparr>gl_hub := h\<rparr>)))" "gps_body se fd pipe"
    "\<lambda>g. fd \<noteq> ep_stop_fd (gl_epl g) \<and> pipe \<noteq> Inr fd" "gps_served ntop env se" "gps_idle ntop env" for ntop env se fd pipe
proof unfold_locales
  fix g e fl g' assume "fd \<noteq> ep_stop_fd (gl_epl g) \<and> pipe \<noteq> Inr fd" and "gps_body se fd pipe e fl g = Inr g'"
  then show "gps_served ntop env se e fl g g' \<and> ep_kept (gl_epl g) (gl_epl g') \<and> fd \<noteq> ep_stop_fd (gl_epl g') \<and> pipe \<noteq> Inr fd"
    using gps_body_served by blast
next
  fix f and g g' :: gps_loop_state assume "Some (\<lambda>g. bindF (sendPendingCmd (gl_hub g)) (\<lambda>h. Inr (g\<lparr>gl_hub := h\<rparr>))) = Some f"
    "fd \<noteq> ep_stop_fd (gl_epl g) \<and> pipe \<noteq> Inr fd" "f g = Inr g'"
  then obtain h where "sendPendingCmd (gl_hub g) = Inr h" "g' = g\<lparr>gl_hub := h\<rparr>"
    "fd \<noteq> ep_stop_fd (gl_epl g) \<and> pipe \<noteq> Inr fd" by (auto simp: fault_simps)
  with hub_step.timeout[OF this(1)] show "gps_idle ntop env g g' \<and> ep_loop (gl_epl g') = ep_loop (gl_epl g) \<and>
      fd \<noteq> ep_stop_fd (gl_epl g') \<and> pipe \<noteq> Inr fd" by (simp add: gps_idle_def)
qed (simp_all add: fill_events_def)

text \<open>
  The actions of the GPS server for a sequence of \<open>epoll_wait\<close> results, when the datagrams that arrive are \<open>ds\<close>:
  one datagram for every event of its socket, in the order of arrival, and a timeout for every call that delivers nothing.
\<close>

fun ready_events :: "wait_res \<Rightarrow> (evref \<times> i32) list" where
  "ready_events (WaitErr x) = []"
| "ready_events (Ready es) = es"

definition deliveries :: "evref \<Rightarrow> (evref \<times> i32) list \<Rightarrow> nat" where
  "deliveries se es = length (filter (\<lambda>x. fst x = se) es)"

fun gps_acts :: "evref \<Rightarrow> wait_res list \<Rightarrow> (byte list \<times> sockaddr_storage) list \<Rightarrow> action list" where
  "gps_acts se [] ds = []"
| "gps_acts se (WaitErr x # ws) ds = gps_acts se ws ds"
| "gps_acts se (Ready es # ws) ds =
     (if es = [] then Timeout # gps_acts se ws ds
      else map (case_prod Datagram) (take (deliveries se es) ds) @ gps_acts se ws (drop (deliveries se es) ds))"

lemma gps_events_path:
  assumes "events_served (gps_served ntop env se) es g g'"
  shows "(\<forall>fl. (se, fl) \<in> set es \<longrightarrow> \<not> hung_up fl) \<and>
    (\<exists>ds. gl_inbox g = map Inr ds @ gl_inbox g' \<and> length ds = deliveries se es \<and>
      hub_path ntop env (map (case_prod Datagram) ds) (gl_hub g) (gl_hub g'))"
  using assms
proof (induction es arbitrary: g)
  case (Cons x es)
  obtain e fl where x: "x = (e, fl)" by fastforce
  with Cons.prems obtain k where k: "gps_served ntop env se e fl g k" "events_served (gps_served ntop env se) es k g'" by auto
  from Cons.IH[OF k(2)] obtain ds where ds: "\<forall>fl. (se, fl) \<in> set es \<longrightarrow> \<not> hung_up fl" "gl_inbox k = map Inr ds @ gl_inbox g'"
    "length ds = deliveries se es" "hub_path ntop env (map (case_prod Datagram) ds) (gl_hub k) (gl_hub g')" by blast
  show ?case
  proof (cases "e = se")
    case True
    with k(1) obtain bs a where "\<not> hung_up fl" "gl_inbox g = Inr (bs, a) # gl_inbox k"
      "hub_step ntop env (Datagram bs a) (gl_hub g) (gl_hub k)" by (auto simp: gps_served_def)
    with ds x True show ?thesis
      by (auto simp: deliveries_def intro!: exI[of _ "(bs, a) # ds"] intro: hub_path.go)
  next
    case False
    with k(1) have "gl_hub k = gl_hub g" "gl_inbox k = gl_inbox g" by (simp_all add: gps_served_def)
    with ds x False show ?thesis by (intro conjI exI[of _ ds]) (auto simp: deliveries_def)
  qed
qed (simp add: deliveries_def)

lemma gps_waits_path:
  assumes "waits_served (gps_idle ntop env) fill (gps_served ntop env se) ws g g'"
    and fill: "\<And>es g. gl_hub (fill es g) = gl_hub g" "\<And>es g. gl_inbox (fill es g) = gl_inbox g"
  shows "(\<forall>x. WaitErr x \<in> set ws \<longrightarrow> x = EINTR) \<and> (\<forall>fl. (se, fl) \<in> set (concat (map ready_events ws)) \<longrightarrow> \<not> hung_up fl) \<and>
    (\<exists>ds. gl_inbox g = map Inr ds @ gl_inbox g' \<and> length ds = deliveries se (concat (map ready_events ws)) \<and>
      hub_path ntop env (gps_acts se ws ds) (gl_hub g) (gl_hub g'))"
  using assms(1)
proof (induction ws arbitrary: g)
  case (Cons w ws)
  consider (err) x where "w = WaitErr x" | (none) "w = Ready []" | (some) x es where "w = Ready (x # es)"
    by (metis list.exhaust wait_res.exhaust)
  then show ?case
  proof cases
    case none
    with Cons.prems obtain k where k: "gps_idle ntop env g k" "waits_served (gps_idle ntop env) fill (gps_served ntop env se) ws k g'"
      by auto
    from Cons.IH[OF k(2)] k(1) none show ?thesis by (auto simp: gps_idle_def intro: hub_path.go)
  next
    case some
    let ?es = "x # es"
    from some Cons.prems obtain k where k: "events_served (gps_served ntop env se) ?es (fill ?es g) k"
      "waits_served (gps_idle ntop env) fill (gps_served ntop env se) ws k g'" by auto
    from gps_events_path[OF k(1)] fill obtain ds where ds: "\<forall>fl. (se, fl) \<in> set ?es \<longrightarrow> \<not> hung_up fl"
      "gl_inbox g = map Inr ds @ gl_inbox k" "length ds = deliveries se ?es"
      "hub_path ntop env (map (case_prod Datagram) ds) (gl_hub g) (gl_hub k)" by auto
    from Cons.IH[OF k(2)] obtain ds' where ds': "\<forall>x. WaitErr x \<in> set ws \<longrightarrow> x = EINTR"
      "\<forall>fl. (se, fl) \<in> set (concat (map ready_events ws)) \<longrightarrow> \<not> hung_up fl"
      "gl_inbox k = map Inr ds' @ gl_inbox g'" "length ds' = deliveries se (concat (map ready_events ws))"
      "hub_path ntop env (gps_acts se ws ds') (gl_hub k) (gl_hub g')" by blast
    have "hub_path ntop env (gps_acts se (w # ws) (ds @ ds')) (gl_hub g) (gl_hub g')"
      using hub_path_append[OF ds(4) ds'(5)] ds(3) some by simp
    moreover have "length (ds @ ds') = deliveries se (concat (map ready_events (w # ws)))"
      using ds(3) ds'(4) some by (simp add: deliveries_def)
    ultimately show ?thesis using ds(1,2) ds'(1-3) some by (intro conjI exI[of _ "ds @ ds'"]) auto
  qed (use Cons in auto)
qed (simp add: deliveries_def)

lemma GpsDataServer_run_served:
  assumes "fd \<noteq> ep_stop_fd (gl_epl g)" "pipe \<noteq> Inr fd" "GpsDataServer_run se fd pipe ws g = Inr g'" "ep_loop (gl_epl g)"
  shows "(\<forall>x. WaitErr x \<in> set ws \<longrightarrow> x = EINTR) \<and> (\<forall>fl. (se, fl) \<in> set (concat (map ready_events ws)) \<longrightarrow> \<not> hung_up fl) \<and>
    (\<exists>ds. gl_inbox g = map Inr ds @ gl_inbox g' \<and> length ds = deliveries se (concat (map ready_events ws)) \<and>
      hub_path ntop env (gps_acts se ws ds) (gl_hub g) (gl_hub g'))"
  using gps_loop.loop_serves[OF assms(3)[unfolded GpsDataServer_run_def], of ntop env] assms(1,2,4)
  by (intro gps_waits_path[where fill = "\<lambda>es g. g\<lparr>gl_epl := fill_events (gl_epl g) es\<rparr>"]) simp_all

section \<open>The broadcast threads\<close>

lemma length_bcast_round:
  assumes "hub_inv h" "uqueue h = i # q" "length buf = BCAST_BUF_LEN" "bcast_round err i buf (h\<lparr>uqueue := q\<rparr>) = Inr (buf', h')"
  shows "length buf' = BCAST_BUF_LEN" "uqueue h' = q"
proof -
  obtain b where b: "bcast_round (\<lambda>_. None) i buf (h\<lparr>uqueue := q\<rparr>) = Inr (b, after_round i (h\<lparr>uqueue := q\<rparr>))" "length b = BCAST_BUF_LEN"
    using bcast_round_total[OF hub_inv_round(2,3)[OF assms(1,2)] _ assms(3), of "\<lambda>_. None" i] by auto
  with bcast_round_mono[OF assms(4)] show "length buf' = BCAST_BUF_LEN" "uqueue h' = q"
    by (auto simp: after_round_def split: option.splits)
qed

lemma bcast_run_rounds:
  assumes "hub_reachable ntop env h" "length buf = BCAST_BUF_LEN" "bcast_run err fs buf h = Inr (buf', h')"
    and "k = min (length (takeWhile (\<lambda>f. f) fs)) (length (uqueue h))"
  shows "hub_path ntop env (replicate k Round) h h' \<and> uqueue h' = drop k (uqueue h)"
  using assms
proof (induction err fs buf h arbitrary: k rule: bcast_run.induct)
  case (3 err fs buf h)
  show ?case
  proof (cases "uqueue h")
    case Nil
    with 3 show ?thesis by simp
  next
    case (Cons i q)
    with 3(4) obtain buf1 h1 where b: "bcast_round err i buf (h\<lparr>uqueue := q\<rparr>) = Inr (buf1, h1)" "bcast_run err fs buf1 h1 = Inr (buf', h')"
      by (auto simp: fault_simps)
    note r = length_bcast_round[OF hub.reach_inv[OF 3(2)] Cons 3(3) b(1)]
    note st = hub_step.round[OF Cons 3(3) b(1), of ntop env]
    let ?k = "min (length (takeWhile (\<lambda>f. f) fs)) (length (uqueue h1))"
    have "hub_path ntop env (replicate ?k Round) h1 h' \<and> uqueue h' = drop ?k (uqueue h1)"
      by (rule 3(1)[OF Cons b(1)[symmetric, THEN sym] refl hub_reachable_step[OF 3(2) st] r(1) b(2) refl])
    moreover have "k = Suc ?k" using 3(5) Cons r(2) by simp
    ultimately show ?thesis using hub_path.go[OF st] Cons r(2) by simp
  qed
qed simp_all

lemma reachable_bcast_run:
  assumes "hub_reachable ntop env h" "length buf = BCAST_BUF_LEN" "bcast_run err fs buf h = Inr (buf', h')"
  shows "hub_reachable ntop env h'"
  using hub_path_reachable[OF conjunct1[OF bcast_run_rounds[OF assms refl]] assms(1)] .

text \<open>
  C4: the loops of the components are sequences of the steps, and serve what \<open>epoll_wait\<close> delivers.
  A run of the command server's epoll loop that returns has served, from the state before to the state after, every
  delivered event exactly once and in order: an event with the error, hang-up or peer-hang-up bit closes the
  connection (for the stop pipe: opens a new one), any other event runs its callback; a run of a loop that was told
  to stop changes nothing. What it did is a path of command steps. The same holds from start-up on.
  A run of the GPS server's loop is the path that takes one datagram, in the order of arrival, for every event of its
  socket and has a timeout for every \<open>epoll_wait\<close> without events, and its socket never reported a hang-up. A run of a
  broadcast thread's loop is one round for every id it took from the queue, as long as its flag is set and the queue is not empty.
  So every loop leads from reachable states to reachable states.
\<close>

theorem loops_are_steps:
  assumes "hub_reachable ntop env h"
  shows "(stop_ok h \<longrightarrow> CommandServer_run ntop env pipe ws h = Inr h1 \<longrightarrow>
      (if ep_loop (cmd_epl h) then cmd_waits_served ntop env ws h h1 else h1 = h) \<and>
      (\<exists>n. hub_path ntop env (replicate n Command) h h1)) \<and>
    (CommandServer_loop ntop env pipe ws gai getfl setfl listen_err create_err sk (hub_start ep0) = Inr (Some h1) \<longrightarrow>
      (\<exists>ep sk' b. Socket_Bind gai sk = (None, sk', b) \<and> pipe = Inr (ep_stop_fd ep) \<and> registered ep (sockfd sk') \<and>
        cmd_waits_served ntop env ws (hub_listening ep (sockfd sk')) h1 \<and>
        (\<exists>n. hub_path ntop env (replicate n Command) (hub_listening ep (sockfd sk')) h1))) \<and>
    (fd \<noteq> ep_stop_fd ep \<longrightarrow> pipe \<noteq> Inr fd \<longrightarrow> ep_loop ep \<longrightarrow>
      GpsDataServer_run se fd pipe ws \<lparr>gl_hub = h, gl_epl = ep, gl_inbox = inbox\<rparr> = Inr g \<longrightarrow>
      (\<forall>x. WaitErr x \<in> set ws \<longrightarrow> x = EINTR) \<and> (\<forall>fl. (se, fl) \<in> set (concat (map ready_events ws)) \<longrightarrow> \<not> hung_up fl) \<and>
      (\<exists>ds. inbox = map Inr ds @ gl_inbox g \<and> length ds = deliveries se (concat (map ready_events ws)) \<and>
        hub_path ntop env (gps_acts se ws ds) h (gl_hub g))) \<and>
    (length buf = BCAST_BUF_LEN \<longrightarrow> bcast_run err fs buf h = Inr (buf1, h1) \<longrightarrow>
      (let k = min (length (takeWhile (\<lambda>f. f) fs)) (length (uqueue h)) in
        hub_path ntop env (replicate k Round) h h1 \<and> uqueue h1 = drop k (uqueue h)))"
proof (intro conjI impI)
  assume "stop_ok h" "CommandServer_run ntop env pipe ws h = Inr h1"
  from CommandServer_run_served[OF assms this]
  show "if ep_loop (cmd_epl h) then cmd_waits_served ntop env ws h h1 else h1 = h"
    "\<exists>n. hub_path ntop env (replicate n Command) h h1" unfolding cmd_moves_def .
next
  assume "CommandServer_loop ntop env pipe ws gai getfl setfl listen_err create_err sk (hub_start ep0) = Inr (Some h1)"
  then obtain ep sk' b where b: "Socket_Bind gai sk = (None, sk', b)" "ep_loop ep" "stop_ok (hub_listening ep (sockfd sk'))"
    "pipe = Inr (ep_stop_fd ep)" "registered ep (sockfd sk')"
    "CommandServer_run ntop env pipe ws (hub_listening ep (sockfd sk')) = Inr h1" by (rule CommandServer_loop_run)
  have "cmd_epl (hub_listening ep (sockfd sk')) = ep" by (simp add: hub_listening_def hub_start_def)
  with CommandServer_run_served[OF reachable_listening b(3,6)] b
  show "\<exists>ep sk' b. Socket_Bind gai sk = (None, sk', b) \<and> pipe = Inr (ep_stop_fd ep) \<and> registered ep (sockfd sk') \<and>
      cmd_waits_served ntop env ws (hub_listening ep (sockfd sk')) h1 \<and>
      (\<exists>n. hub_path ntop env (replicate n Command) (hub_listening ep (sockfd sk')) h1)" unfolding cmd_moves_def by auto
qed (use GpsDataServer_run_served[of fd "\<lparr>gl_hub = h, gl_epl = ep, gl_inbox = inbox\<rparr>" pipe se ws g ntop env]
      bcast_run_rounds[OF assms, of buf err fs buf1 h1] in \<open>simp_all add: Let_def\<close>)

theorem loops_are_steps_witness:
  "\<exists>g. GpsDataServer_run 1 5 (Inr 3) [WaitErr EINTR, Ready [(1, EPOLLIN)], Ready []]
      \<lparr>gl_hub = hub_listening epoll_start 4, gl_epl = epoll_start, gl_inbox = [Inr (be32 9 @ be32 0, no_addr)]\<rparr> = Inr g \<and>
    gl_inbox g = [] \<and> id_umap (gl_hub g) 9 = Some None \<and>
    hub_path (\<lambda>_. [49]) env0 [Datagram (be32 9 @ be32 0) no_addr, Timeout] (hub_listening epoll_start 4) (gl_hub g)"
proof -
  let ?h = "hub_listening epoll_start 4" and ?d = "(be32 9 @ be32 0, no_addr)"
  let ?g = "\<lparr>gl_hub = ?h, gl_epl = epoll_start, gl_inbox = [Inr ?d]\<rparr>"
  let ?ws = "[WaitErr EINTR, Ready [(1, EPOLLIN)], Ready []]"
  have len: "length (gps_buf ?h) = BUF_LEN" and idm: "id_umap ?h = Map.empty" and pend: "pending_cmd_queue ?h = []"
    by (simp_all add: hub_listening_def hub_start_def)
  let ?k = "(received (be32 9 @ be32 0) no_addr ?h)\<lparr>id_umap := Map.empty(9 \<mapsto> None)\<rparr>"
  have b: "gps_buf (received (be32 9 @ be32 0) no_addr ?h) = map Some (be32 9 @ be32 0) @ drop 8 (gps_buf ?h)"
    using received_buf(2)[OF len, of "be32 9 @ be32 0" no_addr] by simp
  have ld: "toint host_order (gps_buf (received (be32 9 @ be32 0) no_addr ?h)) 0 = Inr 9"
    "toint host_order (gps_buf (received (be32 9 @ be32 0) no_addr ?h)) 4 = Inr 0"
    unfolding b using toint_datagram[of "[]" 0 host_order 9 "be32 0" "drop 8 (gps_buf ?h)"]
      toint_datagram[of "be32 9" 4 host_order 0 "[]" "drop 8 (gps_buf ?h)"] by simp_all
  have "initAddrUdp (received (be32 9 @ be32 0) no_addr ?h) = Inr ?k"
    using ld idm get_unknown[of "id_umap ?h" 9] by (simp add: initAddrUdp_def)
  then have run: "gps_incomingData (Inr ?d) ?h = Inr ?k"
    unfolding gps_incomingData_eq[OF len] using pend by (simp add: dispatch_def sendPendingCmd_empty)
  have ep: "ep_loop epoll_start" "ep_stop_fd epoll_start = 3" "ep_loop (fill_events epoll_start evs)"
    "ep_events (fill_events epoll_start evs) = map Some evs @ drop (length evs) (ep_events epoll_start)" for evs
    by (simp_all add: fill_events_def) (simp_all add: epoll_start_def Epoll_new_def initStopPipe_def addEvent_def ctl_add_def registered_def DEFAULT_EDELTA_def Let_def)
  have fl: "\<not> has_flag EPOLLIN EPOLLERR" "\<not> has_flag EPOLLIN EPOLLHUP" "\<not> has_flag EPOLLIN EPOLLRDHUP"
    by (simp_all add: has_flag_def EPOLLIN_def EPOLLERR_def EPOLLHUP_def EPOLLRDHUP_def)
  let ?G = "\<lparr>gl_hub = ?k, gl_epl = fill_events epoll_start [(1, EPOLLIN)], gl_inbox = []\<rparr>"
  have g: "GpsDataServer_run 1 5 (Inr 3) ?ws ?g = Inr ?G"
    using run pend ep fl
    by (simp add: GpsDataServer_run_def Epoll_round_def gps_body_def Epoll_body_def gps_clbk_def sendPendingCmd_empty)
  note steps = loops_are_steps[OF reachable_listening, where ntop = "\<lambda>_. [49]" and env = env0 and se = 1 and fd = 5 and pipe = "Inr 3"
      and ws = ?ws and ep = epoll_start and inbox = "[Inr ?d]" and g = ?G]
  have "5 \<noteq> ep_stop_fd epoll_start" "Inr 3 \<noteq> (Inr 5 :: int + int)" using ep(2) by simp_all
  with conjunct1[OF conjunct2[OF conjunct2[OF steps]], rule_format, OF _ _ ep(1) g]
  have "\<exists>ds. [Inr ?d] = map Inr ds @ gl_inbox ?G \<and> hub_path (\<lambda>_. [49]) env0 (gps_acts 1 ?ws ds) ?h (gl_hub ?G)" by blast
  then have "hub_path (\<lambda>_. [49]) env0 [Datagram (be32 9 @ be32 0) no_addr, Timeout] ?h (gl_hub ?G)"
    by (auto simp: deliveries_def)
  with g show ?thesis by (intro exI[of _ ?G]) simp
qed

end
