(* ===== verification/Logging.thy ===== *)
theory Logging
  imports Hub_Prelude
begin

text \<open>
  \<open>src/include/log/log.h\<close> and \<open>macros.h\<close>: the levels, their names, the text of an entry and when it is
  written. The level that is reported and the output stream are the two static variables of the
  code; a file is what was written to it. The time of day (\<open>strftime\<close> with \<open>%X\<close> and
  \<open>gettimeofday\<close>) is an argument.
\<close>

section \<open>Levels\<close>

datatype TLogLevel = logERROR | logWARNING | logINFO | logDEBUG | logDEBUG1 | logDEBUG2 | logDEBUG3 | logDEBUG4

fun level_num :: "TLogLevel \<Rightarrow> nat" where
  "level_num logERROR = 0"
| "level_num logWARNING = 1"
| "level_num logINFO = 2"
| "level_num logDEBUG = 3"
| "level_num logDEBUG1 = 4"
| "level_num logDEBUG2 = 5"
| "level_num logDEBUG3 = 6"
| "level_num logDEBUG4 = 7"

lemma level_num_inj: "level_num k = level_num l \<Longrightarrow> k = l"
  by (cases k; cases l; simp)

instantiation TLogLevel :: linorder
begin

definition less_eq_TLogLevel :: "TLogLevel \<Rightarrow> TLogLevel \<Rightarrow> bool" where
  "less_eq_TLogLevel k l \<longleftrightarrow> level_num k \<le> level_num l"

definition less_TLogLevel :: "TLogLevel \<Rightarrow> TLogLevel \<Rightarrow> bool" where
  "less_TLogLevel k l \<longleftrightarrow> level_num k < level_num l"

instance
  by standard (auto simp: less_eq_TLogLevel_def less_TLogLevel_def intro: level_num_inj)

end

definition level_names :: "string list" where
  "level_names = [''ERROR'', ''WARNING'', ''INFO'', ''DEBUG'', ''DEBUG1'', ''DEBUG2'', ''DEBUG3'', ''DEBUG4'']"

definition ToString :: "TLogLevel \<Rightarrow> string" where
  "ToString level = level_names ! level_num level"

section \<open>Output\<close>

record logger =
  lg_level :: TLogLevel
  lg_stream :: "nat option"
  lg_files :: "nat \<Rightarrow> string"

definition STDOUT :: nat where "STDOUT = 1"
definition STDERR :: nat where "STDERR = 2"

definition logger_start :: logger where
  "logger_start = \<lparr>lg_level = logDEBUG4, lg_stream = Some STDERR, lg_files = (\<lambda>_. [])\<rparr>"

text \<open>\<open>fprintf\<close> with \<open>%s\<close> and \<open>c_str()\<close> stops at the first NUL of the text.\<close>

definition Output :: "string \<Rightarrow> logger \<Rightarrow> logger" where
  "Output msg lg =
     (case lg_stream lg of
        None \<Rightarrow> lg
      | Some f \<Rightarrow> lg\<lparr>lg_files := (lg_files lg)(f := lg_files lg f @ takeWhile (\<lambda>c. c \<noteq> CHR 0x00) msg)\<rparr>)"

definition digit :: "nat \<Rightarrow> char" where
  "digit n = char_of (48 + n)"

text \<open>\<open>NowTime\<close>: the text of \<open>strftime\<close>, a point and three digits of milliseconds.\<close>

definition NowTime :: "string \<times> nat \<Rightarrow> string" where
  "NowTime now =
     (let (hms, usec) = now; ms = usec div 1000 in
      hms @ ''.'' @ [digit (ms div 100 mod 10), digit (ms div 10 mod 10), digit (ms mod 10)])"

text \<open>\<open>Get\<close>: what an entry starts with.\<close>

definition Get :: "string \<times> nat \<Rightarrow> TLogLevel \<Rightarrow> string" where
  "Get now level =
     ''- '' @ NowTime now @ '' '' @ ToString level @ '': '' @
     replicate (if level > logDEBUG then level_num level - level_num logDEBUG else 0) (CHR '' '')"

text \<open>An entry: created, filled by \<open>Get\<close> and the text, written by the destructor.\<close>

definition log_entry :: "string \<times> nat \<Rightarrow> TLogLevel \<Rightarrow> string \<Rightarrow> logger \<Rightarrow> logger" where
  "log_entry now level msg lg = Output (Get now level @ msg @ [CHR 0x0A]) lg"

text \<open>\<open>FromString\<close>: the level, and the state after the warning about an unknown name.\<close>

definition FromString :: "string \<times> nat \<Rightarrow> string \<Rightarrow> logger \<Rightarrow> TLogLevel \<times> logger" where
  "FromString now level lg =
     (if level = ''DEBUG4'' then (logDEBUG4, lg)
      else if level = ''DEBUG3'' then (logDEBUG3, lg)
      else if level = ''DEBUG2'' then (logDEBUG2, lg)
      else if level = ''DEBUG1'' then (logDEBUG1, lg)
      else if level = ''DEBUG'' then (logDEBUG, lg)
      else if level = ''INFO'' then (logINFO, lg)
      else if level = ''WARNING'' then (logWARNING, lg)
      else if level = ''ERROR'' then (logERROR, lg)
      else (logINFO, log_entry now logWARNING
        (''Unknown logging level '' @ [CHR 0x27] @ level @ [CHR 0x27] @ ''. Using INFO level as default.'') lg))"

section \<open>The macros\<close>

definition FILELOG_MAX_LEVEL :: TLogLevel where "FILELOG_MAX_LEVEL = logDEBUG4"

definition FILE_LOG :: "string \<times> nat \<Rightarrow> TLogLevel \<Rightarrow> string \<Rightarrow> logger \<Rightarrow> logger" where
  "FILE_LOG now level msg lg =
     (if level > FILELOG_MAX_LEVEL then lg
      else if level > lg_level lg \<or> lg_stream lg = None then lg
      else log_entry now level msg lg)"

text \<open>
  The debug macros, with the place in the source they are used at (file, line, function). They are
  empty in a release build.
\<close>

definition LOG_DEBUG_AT :: "bool \<Rightarrow> string \<times> nat \<Rightarrow> TLogLevel \<Rightarrow> string \<times> string \<times> string \<Rightarrow> string \<Rightarrow> logger \<Rightarrow> logger" where
  "LOG_DEBUG_AT debug now level place msg lg =
     (let (file, line, function) = place in
      if debug then FILE_LOG now level (file @ '':'' @ line @ '' '' @ function @ ''() : '' @ msg) lg else lg)"

definition LOG_DEBUG :: "bool \<Rightarrow> string \<times> nat \<Rightarrow> string \<times> string \<times> string \<Rightarrow> string \<Rightarrow> logger \<Rightarrow> logger" where
  "LOG_DEBUG debug now = LOG_DEBUG_AT debug now logDEBUG"

definition LOG_DEBUG1 :: "bool \<Rightarrow> string \<times> nat \<Rightarrow> string \<times> string \<times> string \<Rightarrow> string \<Rightarrow> logger \<Rightarrow> logger" where
  "LOG_DEBUG1 debug now = LOG_DEBUG_AT debug now logDEBUG1"

definition LOG_DEBUG2 :: "bool \<Rightarrow> string \<times> nat \<Rightarrow> string \<times> string \<times> string \<Rightarrow> string \<Rightarrow> logger \<Rightarrow> logger" where
  "LOG_DEBUG2 debug now = LOG_DEBUG_AT debug now logDEBUG2"

definition LOG_INFO :: "string \<times> nat \<Rightarrow> string \<Rightarrow> logger \<Rightarrow> logger" where
  "LOG_INFO now msg lg = FILE_LOG now logINFO msg lg"

definition LOG_WARN :: "string \<times> nat \<Rightarrow> string \<Rightarrow> logger \<Rightarrow> logger" where
  "LOG_WARN now msg lg = FILE_LOG now logWARNING msg lg"

definition LOG_ERROR :: "string \<times> nat \<Rightarrow> string \<Rightarrow> logger \<Rightarrow> logger" where
  "LOG_ERROR now msg lg = FILE_LOG now logERROR msg lg"

section \<open>Properties\<close>

lemma FromString_ToString: "FromString now (ToString l) lg = (l, lg)"
  by (cases l) (simp_all add: FromString_def ToString_def level_names_def)

lemma FromString_unknown:
  assumes "name \<notin> set level_names"
  shows "FromString now name lg = (logINFO, log_entry now logWARNING
    (''Unknown logging level '' @ [CHR 0x27] @ name @ [CHR 0x27] @ ''. Using INFO level as default.'') lg)"
proof -
  have n: "name \<noteq> ''DEBUG4''" "name \<noteq> ''DEBUG3''" "name \<noteq> ''DEBUG2''" "name \<noteq> ''DEBUG1''" "name \<noteq> ''DEBUG''"
    "name \<noteq> ''INFO''" "name \<noteq> ''WARNING''" "name \<noteq> ''ERROR''"
    using assms unfolding level_names_def by auto
  show ?thesis unfolding FromString_def by (simp only: n if_False)
qed

lemma level_names_range: "set level_names = range ToString"
proof -
  have "(UNIV :: TLogLevel set) = {logERROR, logWARNING, logINFO, logDEBUG, logDEBUG1, logDEBUG2, logDEBUG3, logDEBUG4}"
    using TLogLevel.exhaust by auto
  then have "range ToString = ToString ` {logERROR, logWARNING, logINFO, logDEBUG, logDEBUG1, logDEBUG2, logDEBUG3, logDEBUG4}"
    by (simp only:)
  then show ?thesis by (simp add: level_names_def ToString_def)
qed

text \<open>
  Level names. Printing a level and reading the name back gives the level and writes nothing;
  every name that is not that of a level is read as INFO, and a warning that quotes it is written
  to whatever stream is set at that moment, whatever level is reported.
\<close>

theorem log_level_roundtrip:
  "FromString now (ToString l) lg = (l, lg) \<and>
   (name \<in> range ToString \<or> FromString now name lg = (logINFO, log_entry now logWARNING
      (''Unknown logging level '' @ [CHR 0x27] @ name @ [CHR 0x27] @ ''. Using INFO level as default.'') lg))"
  using FromString_ToString FromString_unknown[of name now lg] by (auto simp: level_names_range)

text \<open>
  Which entries are written. A message appends to the file of the stream exactly one entry (its
  time, level, indentation, text and a newline, up to the first NUL) if its level is at most the
  reported one; otherwise, or without a stream, nothing is written. No other file and no setting
  changes.
\<close>

theorem log_filter:
  "lg_files (FILE_LOG now level msg lg) f = lg_files lg f @
     (if lg_stream lg = Some f \<and> level \<le> lg_level lg
      then takeWhile (\<lambda>c. c \<noteq> CHR 0x00) (''- '' @ NowTime now @ '' '' @ ToString level @ '': '' @
        replicate (level_num level - 3) (CHR '' '') @ msg @ [CHR 0x0A])
      else []) \<and>
   lg_level (FILE_LOG now level msg lg) = lg_level lg \<and> lg_stream (FILE_LOG now level msg lg) = lg_stream lg"
proof -
  have m: "\<not> level > FILELOG_MAX_LEVEL"
    by (cases level) (simp_all add: FILELOG_MAX_LEVEL_def less_TLogLevel_def)
  have i: "(if level > logDEBUG then level_num level - level_num logDEBUG else 0) = level_num level - 3"
    by (simp add: less_TLogLevel_def)
  show ?thesis
    using m by (auto simp: FILE_LOG_def log_entry_def Output_def Get_def i not_less not_le split: option.splits)
qed

end
