(* ===== verification/Thread_Wrappers.thy ===== *)
theory Thread_Wrappers
  imports Hub_Prelude
begin

text \<open>
  \<open>src/src/thread\<close>: the classes around the POSIX threads functions. Each method calls one function
  and turns a return value other than 0 into an exception; the return value \<open>i\<close> of that function is
  the argument of the model.

  In the text of most exceptions the code writes a string literal \<open>+ i\<close>. In C++ that does not
  append the number: it advances the pointer to the literal by \<open>i\<close> characters
  (\<open>literal_plus\<close>). Beyond the terminating NUL the result may not be read. A destructor of C++11
  must not throw; an exception that leaves one ends the program (\<open>TTerminate\<close>).
\<close>

section \<open>Exceptions\<close>

datatype texn = ThreadException string | ThreadSyncException string

datatype tfault = TUndefined ub | TThrow texn | TTerminate texn

type_synonym 'a tres = "tfault + 'a"

definition literal_plus :: "string \<Rightarrow> int \<Rightarrow> string tres" where
  "literal_plus s i = (if 0 \<le> i \<and> i \<le> int (length s) then Inr (drop (nat i) s) else Inl (TUndefined OutOfBounds))"

definition throwSync :: "string tres \<Rightarrow> 'a tres" where
  "throwSync m = bindF m (\<lambda>m. Inl (TThrow (ThreadSyncException m)))"

definition throwThread :: "string tres \<Rightarrow> 'a tres" where
  "throwThread m = bindF m (\<lambda>m. Inl (TThrow (ThreadException m)))"

definition in_destructor :: "'a tres \<Rightarrow> 'a tres" where
  "in_destructor r = (case r of Inl (TThrow e) \<Rightarrow> Inl (TTerminate e) | _ \<Rightarrow> r)"

definition EPERM :: int where "EPERM = 1"
definition EAGAIN :: int where "EAGAIN = 11"
definition ENOMEM :: int where "ENOMEM = 12"
definition EBUSY :: int where "EBUSY = 16"
definition EINVAL :: int where "EINVAL = 22"
definition EDEADLK :: int where "EDEADLK = 35"

lemmas errno_defs = EPERM_def EAGAIN_def ENOMEM_def EBUSY_def EINVAL_def EDEADLK_def

section \<open>Mutex\<close>

definition Mutex_new :: "int \<Rightarrow> unit tres" where
  "Mutex_new i =
     (if i \<noteq> 0 then
        if ENOMEM = i then throwSync (Inr ''Failed initializing mutex, ENOMEM: system cannot allocate resources'')
        else if EINVAL = i then throwSync (Inr ''Failed initializing mutex, EINVAL: argument is not correct'')
        else throwSync (literal_plus ''Failed initializing mutex, return value: '' i)
      else Inr ())"

definition Mutex_delete :: "int \<Rightarrow> unit tres" where
  "Mutex_delete i = in_destructor
     (if i \<noteq> 0 then
        if EBUSY = i then throwSync (Inr ''Failed destroying mutex, EBUSY: mutex is currently owned by another thread'')
        else if EINVAL = i then throwSync (Inr ''Failed destroying mutex, EINVAL: argument is not correct'')
        else throwSync (literal_plus ''Failed destroying mutex, return value: '' i)
      else Inr ())"

definition Mutex_lock :: "int \<Rightarrow> unit tres" where
  "Mutex_lock i =
     (if i \<noteq> 0 then
        if EINVAL = i then throwSync (Inr ''Failed locking mutex, EINVAL: argument is not correct'')
        else if EDEADLK = i then throwSync (Inr (''Failed locking mutex, EDEADLK: a thread attempted to relock '' @
          ''an already held mutex, and the mutex is an errorcheck mutex type''))
        else throwSync (literal_plus ''Failed locking mutex, return value: '' i)
      else Inr ())"

definition Mutex_unlock :: "int \<Rightarrow> unit tres" where
  "Mutex_unlock i =
     (if i \<noteq> 0 then
        if EINVAL = i then throwSync (Inr ''Failed unlocking mutex, EINVAL: argument is not correct'')
        else if EPERM = i then throwSync (Inr ''Failed unlocking mutex, EPERM: mutex is not currently held by the caller'')
        else throwSync (literal_plus ''Failed unlocking mutex, return value: '' i)
      else Inr ())"

section \<open>RwLock\<close>

definition RwLock_new :: "int \<Rightarrow> unit tres" where
  "RwLock_new i =
     (if i \<noteq> 0 then throwSync (literal_plus ''Failed initializing rwlock, return value: '' i) else Inr ())"

definition RwLock_delete :: "int \<Rightarrow> unit tres" where
  "RwLock_delete i = in_destructor
     (if i \<noteq> 0 then throwSync (literal_plus ''Failed destroying rwlock, return value: '' i) else Inr ())"

definition RwLock_wrlock :: "int \<Rightarrow> unit tres" where
  "RwLock_wrlock i =
     (if i \<noteq> 0 then throwSync (literal_plus ''Failed write locking rwlock, return value: '' i) else Inr ())"

definition RwLock_rdlock :: "int \<Rightarrow> unit tres" where
  "RwLock_rdlock i =
     (if i \<noteq> 0 then throwSync (literal_plus ''Failed read locking rwlock, return value: '' i) else Inr ())"

definition RwLock_unlock :: "int \<Rightarrow> unit tres" where
  "RwLock_unlock i =
     (if i \<noteq> 0 then throwSync (literal_plus ''Failed unlocking rwlock, return value: '' i) else Inr ())"

section \<open>ConditionVariable\<close>

definition Cond_new :: "int \<Rightarrow> unit tres" where
  "Cond_new i =
     (if i \<noteq> 0 then throwSync (literal_plus ''Failed initializing condition variable, return value: '' i)
      else Inr ())"

definition Cond_delete :: "int \<Rightarrow> unit tres" where
  "Cond_delete i = in_destructor
     (if i \<noteq> 0 then throwSync (literal_plus ''Failed destroying condition variable, return value: '' i)
      else Inr ())"

definition Cond_signal :: "int \<Rightarrow> unit tres" where
  "Cond_signal i =
     (if i \<noteq> 0 then throwSync (literal_plus ''Failed signalling condition variable, return value: '' i)
      else Inr ())"

text \<open>Both overloads of \<open>wait\<close>: they differ only in where the mutex comes from.\<close>

definition Cond_wait :: "int \<Rightarrow> unit tres" where
  "Cond_wait i =
     (if i \<noteq> 0 then throwSync (literal_plus ''Failed waiting on condition variable, return value: '' i)
      else Inr ())"

section \<open>Thread\<close>

definition Thread_start :: "int \<Rightarrow> unit tres" where
  "Thread_start i =
     (if i \<noteq> 0 then
        if EAGAIN = i then throwThread (Inr ''Failed creating thread, EAGAIN: Insufficient resources to create another thread'')
        else if EPERM = i then throwThread (Inr ''Failed creating thread, EPERM: No permission to set the scheduling policy'')
        else if EINVAL = i then throwThread (Inr ''Failed creating thread, EINVAL: Invalid settings in attr'')
        else throwThread (literal_plus ''Failed creating thread, return value: '' i)
      else Inr ())"

definition Thread_join :: "int \<Rightarrow> unit tres" where
  "Thread_join i =
     (if i \<noteq> 0 then throwThread (literal_plus ''Failed joining thread, error: '' i) else Inr ())"

text \<open>
  \<open>Thread::entryPoint\<close>, with what \<open>run\<close> does: the thread function returns NULL; an exception
  that leaves it ends the program.
\<close>

definition Thread_entryPoint :: "unit tres \<Rightarrow> unit tres" where
  "Thread_entryPoint run = (case run of Inl (TThrow e) \<Rightarrow> Inl (TTerminate e) | r \<Rightarrow> r)"

section \<open>Scope locks\<close>

text \<open>
  A block that begins with a scope lock, with the results of locking and unlocking and of the rest
  of the block: the constructor locks; the destructor unlocks, whether the block returns or
  throws. The second component says whether the lock is held afterwards. A block that is undefined
  or has ended the program does not reach the destructor.
\<close>

definition scoped :: "unit tres \<Rightarrow> unit tres \<Rightarrow> 'a tres \<Rightarrow> 'a tres \<times> bool" where
  "scoped acquire release block =
     (case acquire of
        Inl f \<Rightarrow> (Inl f, False)
      | Inr _ \<Rightarrow>
          (case block of
             Inl (TUndefined x) \<Rightarrow> (block, True)
           | Inl (TTerminate e) \<Rightarrow> (block, True)
           | _ \<Rightarrow> (case in_destructor release of Inl f \<Rightarrow> (Inl f, True) | Inr _ \<Rightarrow> (block, False))))"

definition ScopeLock :: "int \<Rightarrow> int \<Rightarrow> 'a tres \<Rightarrow> 'a tres \<times> bool" where
  "ScopeLock i j block = scoped (Mutex_lock i) (Mutex_unlock j) block"

definition ScopeLockRd :: "int \<Rightarrow> int \<Rightarrow> 'a tres \<Rightarrow> 'a tres \<times> bool" where
  "ScopeLockRd i j block = scoped (RwLock_rdlock i) (RwLock_unlock j) block"

definition ScopeLockWr :: "int \<Rightarrow> int \<Rightarrow> 'a tres \<Rightarrow> 'a tres \<times> bool" where
  "ScopeLockWr i j block = scoped (RwLock_wrlock i) (RwLock_unlock j) block"

section \<open>What the wrappers do\<close>

text \<open>
  The wrappers with the text the code means to extend by the return value and the return values
  that have a text of their own.
\<close>

definition sync_calls :: "((int \<Rightarrow> unit tres) \<times> string \<times> int list) list" where
  "sync_calls =
     [(Mutex_new, ''Failed initializing mutex, return value: '', [ENOMEM, EINVAL]),
      (Mutex_lock, ''Failed locking mutex, return value: '', [EINVAL, EDEADLK]),
      (Mutex_unlock, ''Failed unlocking mutex, return value: '', [EINVAL, EPERM]),
      (RwLock_new, ''Failed initializing rwlock, return value: '', []),
      (RwLock_wrlock, ''Failed write locking rwlock, return value: '', []),
      (RwLock_rdlock, ''Failed read locking rwlock, return value: '', []),
      (RwLock_unlock, ''Failed unlocking rwlock, return value: '', []),
      (Cond_new, ''Failed initializing condition variable, return value: '', []),
      (Cond_signal, ''Failed signalling condition variable, return value: '', []),
      (Cond_wait, ''Failed waiting on condition variable, return value: '', [])]"

definition thread_calls :: "((int \<Rightarrow> unit tres) \<times> string \<times> int list) list" where
  "thread_calls =
     [(Thread_start, ''Failed creating thread, return value: '', [EAGAIN, EPERM, EINVAL]),
      (Thread_join, ''Failed joining thread, error: '', [])]"

definition delete_calls :: "((int \<Rightarrow> unit tres) \<times> string \<times> int list) list" where
  "delete_calls =
     [(Mutex_delete, ''Failed destroying mutex, return value: '', [EBUSY, EINVAL]),
      (RwLock_delete, ''Failed destroying rwlock, return value: '', []),
      (Cond_delete, ''Failed destroying condition variable, return value: '', [])]"

lemmas wrapper_defs = Mutex_new_def Mutex_delete_def Mutex_lock_def Mutex_unlock_def RwLock_new_def RwLock_delete_def
  RwLock_wrlock_def RwLock_rdlock_def RwLock_unlock_def Cond_new_def Cond_delete_def Cond_signal_def Cond_wait_def
  Thread_start_def Thread_join_def

text \<open>The behaviour they share: \<open>raised\<close> is what becomes of an exception with a given text.\<close>

definition reports :: "(string \<Rightarrow> tfault) \<Rightarrow> (int \<Rightarrow> unit tres) \<Rightarrow> string \<Rightarrow> int list \<Rightarrow> int \<Rightarrow> bool" where
  "reports raised w text named i \<longleftrightarrow>
     (w i = Inr () \<longleftrightarrow> i = 0) \<and>
     (i \<in> set named \<longrightarrow> (\<exists>m. w i = Inl (raised m))) \<and>
     (i \<noteq> 0 \<and> i \<notin> set named \<longrightarrow>
        w i = Inl (if 0 \<le> i \<and> i \<le> int (length text) then raised (drop (nat i) text) else TUndefined OutOfBounds))"

lemma throwSync_simps [simp]:
  "throwSync (Inr m) = Inl (TThrow (ThreadSyncException m))"
  "throwSync (literal_plus s i) =
     Inl (if 0 \<le> i \<and> i \<le> int (length s) then TThrow (ThreadSyncException (drop (nat i) s)) else TUndefined OutOfBounds)"
  by (simp_all add: throwSync_def literal_plus_def)

lemma throwThread_simps [simp]:
  "throwThread (Inr m) = Inl (TThrow (ThreadException m))"
  "throwThread (literal_plus s i) =
     Inl (if 0 \<le> i \<and> i \<le> int (length s) then TThrow (ThreadException (drop (nat i) s)) else TUndefined OutOfBounds)"
  by (simp_all add: throwThread_def literal_plus_def)

lemma in_destructor_simps [simp]:
  "in_destructor (Inr x) = Inr x" "in_destructor (Inl (TThrow e)) = Inl (TTerminate e)"
  "in_destructor (Inl (TUndefined u)) = Inl (TUndefined u)"
  by (simp_all add: in_destructor_def)

text \<open>
  Error reporting of the thread classes. Every wrapper returns normally exactly if the
  function it calls returned 0. A return value with a text of its own gives an exception with that
  class; in a destructor it ends the program. For every other return value \<open>i\<close> the text does not
  name \<open>i\<close>: it is the intended text without its first \<open>i\<close> characters, and if \<open>i\<close> is greater than
  the length of the text (or negative) the text is read outside the literal.
\<close>

theorem wrapper_errors:
  "list_all (\<lambda>(w, text, named). reports (\<lambda>m. TThrow (ThreadSyncException m)) w text named i) sync_calls \<and>
   list_all (\<lambda>(w, text, named). reports (\<lambda>m. TThrow (ThreadException m)) w text named i) thread_calls \<and>
   list_all (\<lambda>(w, text, named). reports (\<lambda>m. TTerminate (ThreadSyncException m)) w text named i) delete_calls"
  unfolding sync_calls_def thread_calls_def delete_calls_def list.pred_inject split_conv
  by (intro conjI TrueI; simp add: reports_def wrapper_defs errno_defs)

text \<open>A scope lock never keeps the lock when unlocking works, however the block ends.\<close>

lemma scoped_release:
  assumes "acquire = Inr ()" "release = Inr ()" "\<And>x. block \<noteq> Inl (TUndefined x)" "\<And>e. block \<noteq> Inl (TTerminate e)"
  shows "scoped acquire release block = (block, False)"
  using assms by (auto simp: scoped_def split: sum.splits tfault.splits)

lemma scope_locks_release:
  assumes "\<And>x. block \<noteq> Inl (TUndefined x)" "\<And>e. block \<noteq> Inl (TTerminate e)"
  shows "ScopeLock 0 0 block = (block, False)" "ScopeLockRd 0 0 block = (block, False)" "ScopeLockWr 0 0 block = (block, False)"
  unfolding ScopeLock_def ScopeLockRd_def ScopeLockWr_def
  by (rule scoped_release; use assms in \<open>simp add: wrapper_defs\<close>)+

end
