(* ===== verification/Shutdown.thy ===== *)
theory Shutdown
  imports Broadcast
begin

text \<open>
  Stopping the broadcast threads: \<open>handle_stop\<close> of \<open>src/src/main.cpp\<close> calls \<open>stop\<close> of every thread
  in turn (\<open>CoordsBroadcastThread.cpp\<close>), each of which clears the thread's flag and then puts the
  id 0 on the queue to wake it.

  The queue is the abstract one of the theory on the blocking queue: a \<open>pull\<close> takes the front
  element when there is one and waits otherwise. What a thread does with an id that it pulled
  is its round (\<open>Working\<close>), which may return or, for the id of a user, never return (\<open>Blocked\<close>: it waits for a
  copied lock, or for the socket; the id 0 is nobody's, \<open>bcast_round_zero\<close>, so its round returns). \<open>sd_next\<close> is the
  program counter of \<open>handle_stop\<close>: the index of the thread it is at, and whether it has already
  cleared that thread's flag. The GPS server, which was told to end before, adds ids at any moment up to that point.
\<close>

section \<open>The model\<close>

datatype tstate = Testing | Pulling | Working i32 | Exited | Blocked

record shutdown =
  sd_queue :: "i32 list"
  sd_loop :: "bool list"
  sd_thr :: "tstate list"
  sd_next :: "nat \<times> bool"

definition sd_start :: "nat \<Rightarrow> i32 list \<Rightarrow> shutdown" where
  "sd_start n q = \<lparr>sd_queue = q, sd_loop = replicate n True, sd_thr = replicate n Testing, sd_next = (0, False)\<rparr>"

inductive sd_step :: "shutdown \<Rightarrow> shutdown \<Rightarrow> bool" where
  test: "t < length (sd_thr s) \<Longrightarrow> sd_thr s ! t = Testing \<Longrightarrow>
     sd_step s (s\<lparr>sd_thr := (sd_thr s)[t := if sd_loop s ! t then Pulling else Exited]\<rparr>)"
| pull: "t < length (sd_thr s) \<Longrightarrow> sd_thr s ! t = Pulling \<Longrightarrow> sd_queue s = x # q \<Longrightarrow>
     sd_step s (s\<lparr>sd_queue := q, sd_thr := (sd_thr s)[t := Working x]\<rparr>)"
| returned: "t < length (sd_thr s) \<Longrightarrow> sd_thr s ! t = Working x \<Longrightarrow> sd_step s (s\<lparr>sd_thr := (sd_thr s)[t := Testing]\<rparr>)"
| block: "t < length (sd_thr s) \<Longrightarrow> sd_thr s ! t = Working x \<Longrightarrow> x \<noteq> 0 \<Longrightarrow>
     sd_step s (s\<lparr>sd_thr := (sd_thr s)[t := Blocked]\<rparr>)"
| put: "fst (sd_next s) < length (sd_thr s) \<Longrightarrow> sd_step s (s\<lparr>sd_queue := sd_queue s @ [x]\<rparr>)"
| clear: "sd_next s = (i, False) \<Longrightarrow> i < length (sd_thr s) \<Longrightarrow>
     sd_step s (s\<lparr>sd_loop := (sd_loop s)[i := False], sd_next := (i, True)\<rparr>)"
| wake: "sd_next s = (i, True) \<Longrightarrow> i < length (sd_thr s) \<Longrightarrow>
     sd_step s (s\<lparr>sd_queue := sd_queue s @ [0], sd_next := (Suc i, False)\<rparr>)"

abbreviation sd_reachable :: "nat \<Rightarrow> i32 list \<Rightarrow> shutdown \<Rightarrow> bool" where
  "sd_reachable n q \<equiv> reach (\<lambda>s. s = sd_start n q) sd_step"

text \<open>\<open>handle_stop\<close> has returned.\<close>

definition stopped :: "shutdown \<Rightarrow> bool" where
  "stopped s \<longleftrightarrow> fst (sd_next s) = length (sd_thr s)"

text \<open>A thread that waits in \<open>pull\<close> while nobody will put anything any more.\<close>

definition stuck :: "shutdown \<Rightarrow> nat \<Rightarrow> bool" where
  "stuck s t \<longleftrightarrow> stopped s \<and> t < length (sd_thr s) \<and> sd_thr s ! t = Pulling \<and> sd_queue s = []"

section \<open>One thread\<close>

definition sd_inv1 :: "shutdown \<Rightarrow> bool" where
  "sd_inv1 s \<longleftrightarrow> length (sd_thr s) = 1 \<and> length (sd_loop s) = 1 \<and>
     sd_next s \<in> {(0, False), (0, True), (1, False)} \<and>
     (sd_loop s ! 0 \<longleftrightarrow> sd_next s = (0, False)) \<and>
     (sd_next s = (1, False) \<and> sd_thr s ! 0 = Pulling \<longrightarrow> sd_queue s \<noteq> [])"

lemma sd_inv1_step: "sd_step s s' \<Longrightarrow> sd_inv1 s \<Longrightarrow> sd_inv1 s'"
  by (induction rule: sd_step.induct) (auto simp: sd_inv1_def)

interpretation sd1: inductive_invariant "\<lambda>s. s = sd_start 1 q" sd_step sd_inv1 for q
  by unfold_locales (simp add: sd_inv1_def sd_start_def, rule sd_inv1_step)

text \<open>How many steps a thread whose flag is cleared still takes at most.\<close>

fun sd_rank :: "tstate \<Rightarrow> nat" where
  "sd_rank Pulling = 3"
| "sd_rank (Working _) = 2"
| "sd_rank Testing = 1"
| "sd_rank _ = 0"

lemma sd_stopped_step:
  assumes "sd_inv1 s" "stopped s" "sd_step s s'"
  shows "stopped s' \<and> sd_rank (sd_thr s' ! 0) < sd_rank (sd_thr s ! 0)"
  using assms(3,1,2) by cases (auto simp: sd_inv1_def stopped_def)

lemma sd_stopped_progress:
  assumes "sd_inv1 s" "stopped s" "sd_thr s ! 0 \<notin> {Exited, Blocked}"
  shows "\<exists>s'. sd_step s s'"
proof -
  have len: "0 < length (sd_thr s)" using assms(1) by (simp add: sd_inv1_def)
  show ?thesis
  proof (cases "sd_thr s ! 0")
    case Pulling
    with assms obtain x q where "sd_queue s = x # q" by (cases "sd_queue s") (auto simp: sd_inv1_def stopped_def)
    from sd_step.pull[OF len Pulling this] show ?thesis ..
  next
    case (Working x)
    from sd_step.returned[OF len this] show ?thesis ..
  next
    case Testing
    from sd_step.test[OF len this] show ?thesis ..
  qed (use assms(3) in simp_all)
qed

lemma sd_stopped_run:
  assumes "sd_inv1 s" "stopped s" "(sd_step ^^ n) s s'"
  shows "sd_inv1 s' \<and> stopped s' \<and> n + sd_rank (sd_thr s' ! 0) \<le> sd_rank (sd_thr s ! 0)"
  using assms(3)
proof (induction n arbitrary: s')
  case (Suc n)
  then obtain k where k: "(sd_step ^^ n) s k" "sd_step k s'" by auto
  note IH = Suc.IH[OF k(1)]
  with sd_inv1_step[OF k(2)] sd_stopped_step[OF _ _ k(2)] show ?case by auto
qed (use assms in simp)

text \<open>
  C25: with one broadcast thread the wake-up is not lost. Once \<open>handle_stop\<close> has returned, the thread is not waiting on
  an empty queue, and whatever it is doing and whatever the queue holds, every continuation is over after at most three
  steps (take an id, finish its round, test the flag), is never waiting on an empty queue in between, and ends only
  with the thread out of its loop, so that it can be joined, or inside a round of a user's id that does not return.
\<close>

theorem shutdown_one_thread:
  assumes "sd_reachable 1 q s" "stopped s"
  shows "\<not> stuck s 0 \<and> (\<forall>n s'. (sd_step ^^ n) s s' \<longrightarrow>
    n \<le> 3 \<and> \<not> stuck s' 0 \<and> ((\<exists>s''. sd_step s' s'') \<or> sd_thr s' ! 0 \<in> {Exited, Blocked}))"
proof -
  have inv: "sd_inv1 s" using sd1.reach_inv[OF assms(1)] .
  have free: "\<not> stuck r 0" if "sd_inv1 r" for r
    using that by (auto simp: sd_inv1_def stuck_def stopped_def)
  have "n \<le> 3 \<and> \<not> stuck s' 0 \<and> ((\<exists>s''. sd_step s' s'') \<or> sd_thr s' ! 0 \<in> {Exited, Blocked})" if "(sd_step ^^ n) s s'" for n s'
  proof -
    note run = sd_stopped_run[OF inv assms(2) that]
    have "sd_rank (sd_thr s ! 0) \<le> 3" by (cases "sd_thr s ! 0") simp_all
    with run free[of s'] sd_stopped_progress[of s'] show ?thesis by auto
  qed
  with free[OF inv] show ?thesis by blast
qed

section \<open>Two threads\<close>

text \<open>
  A state in which a thread waits with an empty queue after the stop stays so: no step of any
  thread wakes it.
\<close>

interpretation stuck_forever: inductive_invariant "\<lambda>s. stuck s t" sd_step "\<lambda>s. stuck s t" for t
  by unfold_locales (auto elim!: sd_step.cases simp: stuck_def stopped_def nth_list_update)

text \<open>
  C26: with two broadcast threads the shutdown can hang. A thread whose flag is not cleared yet
  may take the 0 that was meant to wake the other one and go back to waiting; the second 0
  wakes it again, it leaves, and the first thread waits for ever: there is a reachable state
  after \<open>handle_stop\<close> has returned in which a thread is stuck, and it stays stuck in every state
  that can follow, so the \<open>join\<close> of \<open>main\<close> never returns.
\<close>

theorem shutdown_two_threads_hang:
  "\<exists>s. sd_reachable 2 [] s \<and> stuck s 0 \<and> (\<forall>s'. sd_step\<^sup>*\<^sup>* s s' \<longrightarrow> stuck s' 0)"
proof -
  let ?S = "\<lambda>q l thr nx. \<lparr>sd_queue = q, sd_loop = l, sd_thr = thr, sd_next = nx\<rparr>"
  note st = reach.step[where step = sd_step]
  have 0: "sd_reachable 2 [] (?S [] [True, True] [Testing, Testing] (0, False))"
    using reach_init[of "sd_start 2 []" sd_step] by (simp add: sd_start_def numeral_2_eq_2)
  have 1: "sd_reachable 2 [] (?S [] [True, True] [Pulling, Testing] (0, False))"
    using st[OF 0 sd_step.test[of 0]] by simp
  have 2: "sd_reachable 2 [] (?S [] [True, True] [Pulling, Pulling] (0, False))"
    using st[OF 1 sd_step.test[of 1]] by simp
  have 3: "sd_reachable 2 [] (?S [] [False, True] [Pulling, Pulling] (0, True))"
    using st[OF 2 sd_step.clear[of _ 0]] by simp
  have 4: "sd_reachable 2 [] (?S [0] [False, True] [Pulling, Pulling] (1, False))"
    using st[OF 3 sd_step.wake[of _ 0]] by simp
  have "sd_reachable 2 [] (?S [] [False, True] [Pulling, Working 0] (1, False))"
    using st[OF 4 sd_step.pull[of 1 _ 0 "[]"]] by simp
  from st[OF this sd_step.returned[of 1 _ 0]]
  have 5: "sd_reachable 2 [] (?S [] [False, True] [Pulling, Testing] (1, False))" by simp
  have 6: "sd_reachable 2 [] (?S [] [False, True] [Pulling, Pulling] (1, False))"
    using st[OF 5 sd_step.test[of 1]] by simp
  have 7: "sd_reachable 2 [] (?S [] [False, False] [Pulling, Pulling] (1, True))"
    using st[OF 6 sd_step.clear[of _ 1]] by simp
  have 8: "sd_reachable 2 [] (?S [0] [False, False] [Pulling, Pulling] (2, False))"
    using st[OF 7 sd_step.wake[of _ 1]] by (simp add: numeral_2_eq_2)
  have "sd_reachable 2 [] (?S [] [False, False] [Pulling, Working 0] (2, False))"
    using st[OF 8 sd_step.pull[of 1 _ 0 "[]"]] by simp
  from st[OF this sd_step.returned[of 1 _ 0]]
  have 9: "sd_reachable 2 [] (?S [] [False, False] [Pulling, Testing] (2, False))" by simp
  have stuck: "stuck (?S [] [False, False] [Pulling, Testing] (2, False)) 0"
    by (simp add: stuck_def stopped_def)
  have "stuck s' 0" if "sd_step\<^sup>*\<^sup>* (?S [] [False, False] [Pulling, Testing] (2, False)) s'" for s'
    using that stuck by (rule stuck_forever.steps_inv)
  with 9 stuck show ?thesis by blast
qed

text \<open>The id 0 does nothing but wake a thread: nobody has it.\<close>

lemma bcast_round_zero:
  assumes "reg_inv h"
  shows "\<exists>m. bcast_round err 0 buf h = Inr (buf, h\<lparr>id_umap := m\<rparr>)"
proof -
  have "id_umap h 0 \<noteq> Some (Some r)" for r
    using reg_inv_id[OF assms, of 0 r] reg_inv_user(2)[OF assms] by (metis)
  then have "fst (SyncHashMap_get (id_umap h) 0) = None"
    by (cases "id_umap h 0") (auto simp: SyncHashMap_get_def option.case_eq_if)
  then show ?thesis by (auto simp: bcast_round_def Let_def split: prod.splits)
qed

theorem shutdown_one_thread_witness:
  "\<exists>s'. (sd_step ^^ 3) \<lparr>sd_queue = [7, 0], sd_loop = [False], sd_thr = [Pulling], sd_next = (1, False)\<rparr> s' \<and>
     sd_thr s' ! 0 \<in> {Exited, Blocked}"
proof -
  let ?S = "\<lambda>q l thr nx. \<lparr>sd_queue = q, sd_loop = l, sd_thr = thr, sd_next = nx\<rparr>"
  note st = reach.step[where step = sd_step]
  have 0: "sd_reachable 1 [] (?S [] [True] [Testing] (0, False))"
    using reach_init[of "sd_start 1 []" sd_step] by (simp add: sd_start_def)
  have 1: "sd_reachable 1 [] (?S [] [True] [Pulling] (0, False))"
    using st[OF 0 sd_step.test[of 0]] by simp
  have "sd_reachable 1 [] (?S [7] [True] [Pulling] (0, False))"
    using st[OF 1 sd_step.put[of _ 7]] by simp
  then have 2: "sd_reachable 1 [] (?S [7] [False] [Pulling] (0, True))"
    using st[OF _ sd_step.clear[of _ 0]] by fastforce
  have 3: "sd_reachable 1 [] (?S [7, 0] [False] [Pulling] (1, False))"
    using st[OF 2 sd_step.wake[of _ 0]] by simp
  have "sd_step (?S [7, 0] [False] [Pulling] (1, False)) (?S [0] [False] [Working 7] (1, False))"
    using sd_step.pull[of 0 "?S [7, 0] [False] [Pulling] (1, False)" 7 "[0]"] by simp
  moreover have "sd_step (?S [0] [False] [Working 7] (1, False)) (?S [0] [False] [Testing] (1, False))"
    using sd_step.returned[of 0 "?S [0] [False] [Working 7] (1, False)" 7] by simp
  moreover have "sd_step (?S [0] [False] [Testing] (1, False)) (?S [0] [False] [Exited] (1, False))"
    using sd_step.test[of 0 "?S [0] [False] [Testing] (1, False)"] by simp
  ultimately have run: "(sd_step ^^ 3) (?S [7, 0] [False] [Pulling] (1, False)) (?S [0] [False] [Exited] (1, False))"
    by (auto simp: numeral_3_eq_3 relcompp_apply)
  have "\<not> (\<exists>r. sd_step (?S [0] [False] [Exited] (1, False)) r)"
  proof
    assume "\<exists>r. sd_step (?S [0] [False] [Exited] (1, False)) r"
    then obtain r where "sd_step (?S [0] [False] [Exited] (1, False)) r" ..
    from relpowp_Suc_I[OF run this] shutdown_one_thread[OF 3] show False by (fastforce simp: stopped_def)
  qed
  with run shutdown_one_thread[OF 3] show ?thesis by (fastforce simp: stopped_def)
qed

theorem shutdown_two_threads_hang_witness:
  "\<exists>s. sd_reachable 2 [] s \<and> stuck s 0"
proof -
  obtain s where "sd_reachable 2 [] s" "stuck s 0" "\<forall>s'. sd_step\<^sup>*\<^sup>* s s' \<longrightarrow> stuck s' 0"
    using shutdown_two_threads_hang by blast
  moreover from this(3) have "stuck s 0" by blast
  ultimately show ?thesis by blast
qed

end
