(* ===== verification/Startup.thy ===== *)
theory Startup
  imports Logging Thread_Wrappers Shutdown
begin

text \<open>
  \<open>src/src/main.cpp\<close>, \<open>ComponentRegistry.cpp\<close> and \<open>ServerThread.cpp\<close>: the options, the order in which
  the components are put together, started and joined, and what the signal handler does.

  The results of \<open>getopt_long\<close> are a list of option characters with their arguments, in the order it
  delivers them; whether arguments are left over, what \<open>fopen\<close> returns, the return values of the
  thread functions and how the command server's loop ends are arguments of the model. A run is described by the
  state it leaves (\<open>process\<close>) and how it ended.
\<close>

section \<open>Options\<close>

datatype ending = ExitCode int | Terminated texn | UndefinedBehaviour ub

record options =
  port_cmd :: string
  port_gps :: string
  log_level :: string
  log_file :: string
  thread_num :: int

definition DEFAULT_THREAD_NUM :: nat where "DEFAULT_THREAD_NUM = 1"

definition default_options :: options where
  "default_options = \<lparr>port_cmd = ''9990'', port_gps = ''9991'', log_level = ''DEBUG2'', log_file = ''stdout'',
     thread_num = int DEFAULT_THREAD_NUM\<rparr>"

definition is_space :: "char \<Rightarrow> bool" where
  "is_space c \<longleftrightarrow> c \<in> {CHR '' '', CHR 0x09, CHR 0x0A, CHR 0x0B, CHR 0x0C, CHR 0x0D}"

definition is_digit :: "char \<Rightarrow> bool" where
  "is_digit c \<longleftrightarrow> 48 \<le> (of_char c :: nat) \<and> (of_char c :: nat) \<le> 57"

definition digits_value :: "string \<Rightarrow> int" where
  "digits_value ds = foldl (\<lambda>v c. v * 10 + (of_char c - 48)) 0 ds"

text \<open>\<open>atoi\<close>: white space, a sign, digits; a value that is no \<open>int\<close> is undefined.\<close>

definition atoi :: "string \<Rightarrow> ending + int" where
  "atoi s =
     (let s = dropWhile is_space s;
          (neg, s) = (case s of [] \<Rightarrow> (False, []) | c # cs \<Rightarrow>
             if c = CHR ''-'' then (True, cs) else if c = CHR ''+'' then (False, cs) else (False, c # cs));
          v = digits_value (takeWhile is_digit s);
          r = (if neg then - v else v) in
      if - (2 ^ 31) \<le> r \<and> r < 2 ^ 31 then Inr r else Inl (UndefinedBehaviour SignedOverflow))"

text \<open>The texts \<open>print_help\<close> and \<open>print_version\<close> write to \<open>stdout\<close>; \<open>prog\<close> is \<open>argv[0]\<close>.\<close>

definition VERSION :: string where "VERSION = ''0.7.1_beta''"

abbreviation nl :: string where "nl \<equiv> [CHR 0x0A]"

definition print_d :: "nat \<Rightarrow> string" where
  "print_d n = map (\<lambda>b. char_of (unat b)) (dec n)"

definition help_text :: "string \<Rightarrow> string" where
  "help_text prog =
     ''Usage:'' @ nl @
     prog @ '' [-t TCP_PORT] [-u UDP_PORT] [-l LOG_LEVEL] [-f LOG_FILE] '' @ ''[-n THREAD_NUMBER] [-v] [-h]'' @ nl @ nl @
     ''  -t, --tcp'' @ nl @ ''      set tcp port, default: '' @ port_cmd default_options @ nl @
     ''  -u, --udp'' @ nl @ ''      set udp port, default: '' @ port_gps default_options @ nl @ nl @
     ''  -l, --log-level'' @ nl @ ''      set log level, default: '' @ log_level default_options @ nl @
     ''      available levels: '' @ ''ERROR, WARNING, INFO, DEBUG, DEBUG1, DEBUG2'' @ nl @
     ''  -f, --log-file'' @ nl @ ''      set log output file, default: '' @ log_file default_options @ nl @
     ''      accepted values: stdout, stderr, filename'' @ nl @ nl @
     ''  -n, --thread-number'' @ nl @ ''      set number of consumer threads, default: '' @ print_d DEFAULT_THREAD_NUM @ nl @
     ''      accepted values grather than 0'' @ nl @ nl @
     ''  -v, --version'' @ nl @ ''      print version'' @ nl @ nl @
     ''  -h, --help'' @ nl @ ''      print this help'' @ nl @ nl"

definition version_text :: "bool \<Rightarrow> string" where
  "version_text debug = VERSION @ (if debug then '' DEBUG'' else []) @ nl"

text \<open>Both end the program, with 1 and with 0.\<close>

definition print_help :: "ending + 'a" where "print_help = Inl (ExitCode 1)"
definition print_version :: "ending + 'a" where "print_version = Inl (ExitCode 0)"

definition option_step :: "char \<times> string \<Rightarrow> options \<Rightarrow> ending + options" where
  "option_step opt_arg s =
     (let (opt, optarg) = opt_arg in
      if opt = CHR ''t'' then Inr (s\<lparr>port_cmd := optarg\<rparr>)
      else if opt = CHR ''u'' then Inr (s\<lparr>port_gps := optarg\<rparr>)
      else if opt = CHR ''l'' then Inr (s\<lparr>log_level := optarg\<rparr>)
      else if opt = CHR ''f'' then Inr (s\<lparr>log_file := optarg\<rparr>)
      else if opt = CHR ''n'' then
        bindF (atoi optarg) (\<lambda>n. let s = s\<lparr>thread_num := n\<rparr> in if n < 1 then print_help else Inr s)
      else if opt = CHR ''v'' then print_version
      else if opt = CHR ''h'' then print_help
      else if opt = CHR '':'' \<or> opt = CHR ''?'' then print_help
      else Inr s)"

definition parse_options :: "(char \<times> string) list \<Rightarrow> bool \<Rightarrow> ending + options" where
  "parse_options opts left_over =
     bindF (foldF option_step opts default_options) (\<lambda>s. if left_over then print_help else Inr s)"

text \<open>The part of \<open>main\<close> that sets the logger up.\<close>

definition open_log :: "string \<times> nat \<Rightarrow> (string \<Rightarrow> nat option) \<Rightarrow> options \<Rightarrow> logger \<Rightarrow> ending + logger" where
  "open_log now fopen s lg =
     (let (level, lg) = FromString now (log_level s) lg;
          lg = lg\<lparr>lg_level := level\<rparr> in
      if log_file s = ''stdout'' then Inr (lg\<lparr>lg_stream := Some STDOUT\<rparr>)
      else if log_file s = ''stderr'' then Inr (lg\<lparr>lg_stream := Some STDERR\<rparr>)
      else (case fopen (log_file s) of
              None \<Rightarrow> Inl (ExitCode 1)
            | Some fd \<Rightarrow> Inr (lg\<lparr>lg_stream := Some fd\<rparr>)))"

section \<open>Signals\<close>

text \<open>
  \<open>struct sigaction\<close>, of which the code sets only the handler: \<open>sa_flags\<close> stays indeterminate (\<open>None\<close>) in a
  local variable. The numbers of the signals are those of Linux.
\<close>

record sigaction =
  sa_handle_stop :: bool
  sa_flags :: "int option"

definition sigaction_local :: sigaction where
  "sigaction_local = \<lparr>sa_handle_stop = False, sa_flags = None\<rparr>"

definition SIGINT :: int where "SIGINT = 2"
definition SIGUSR1 :: int where "SIGUSR1 = 10"
definition SIGTERM :: int where "SIGTERM = 15"

section \<open>Constructors\<close>

definition SOCK_STREAM :: int where "SOCK_STREAM = 1"
definition SOCK_DGRAM :: int where "SOCK_DGRAM = 2"

definition c_str :: "string \<Rightarrow> cstring" where
  "c_str s = map of_char s"

text \<open>
  The constructors of the two servers make the sockets they listen at; the other members are pointers to
  what is shared, which is the record \<open>hub\<close>.
\<close>

definition CommandServer_new :: "string \<Rightarrow> Socket" where
  "CommandServer_new port = Socket_new None (Some (c_str port)) SOCK_STREAM"

definition GpsDataServer_new :: "string \<Rightarrow> Socket" where
  "GpsDataServer_new port = Socket_new None (Some (c_str port)) SOCK_DGRAM"

definition UserIdGenerator_new :: "hub \<Rightarrow> hub" where
  "UserIdGenerator_new h = h\<lparr>idgen_current := 0\<rparr>"

text \<open>
  \<open>CommandHandler\<close> seeds \<open>rand\<close> with the time in seconds; \<open>rand_from seed k\<close> is the \<open>k\<close>-th value \<open>rand\<close> returns
  after that.
\<close>

definition CommandHandler_new :: "(32 word \<Rightarrow> nat \<Rightarrow> i32) \<Rightarrow> int \<Rightarrow> nat \<Rightarrow> env" where
  "CommandHandler_new rand_from now char_block = \<lparr>e_rand = rand_from (of_int now), e_char_block = char_block\<rparr>"

text \<open>What belongs to one broadcast thread: its flag and its buffer, which is not initialised.\<close>

record CoordsBroadcastThread =
  bt_loop :: bool
  bt_buf :: mem

definition CoordsBroadcastThread_new :: CoordsBroadcastThread where
  "CoordsBroadcastThread_new = \<lparr>bt_loop = True, bt_buf = replicate BCAST_BUF_LEN None\<rparr>"

text \<open>
  What \<open>start_gpshub\<close> constructs before it starts a thread. The pointer \<open>epl\<close> of the command server is not
  initialised: \<open>wild\<close> is whatever epoll object it might point to. The vector holds copies of one thread object.
\<close>

record hub_parts =
  hp_hub :: hub
  hp_env :: env
  hp_cmd_socket :: Socket
  hp_gps_socket :: Socket
  hp_bthreads :: "CoordsBroadcastThread list"

definition construct_hub :: "(32 word \<Rightarrow> nat \<Rightarrow> i32) \<Rightarrow> int \<Rightarrow> nat \<Rightarrow> Epoll \<Rightarrow> options \<Rightarrow> hub_parts" where
  "construct_hub rand_from now char_block wild s =
     (let h = UserIdGenerator_new (hub_start wild);
          cmdHandler = CommandHandler_new rand_from now char_block;
          cmdsrv = CommandServer_new (port_cmd s);
          gpssrv = GpsDataServer_new (port_gps s) in
      \<lparr>hp_hub = h, hp_env = cmdHandler, hp_cmd_socket = cmdsrv, hp_gps_socket = gpssrv,
       hp_bthreads = replicate (nat (thread_num s)) CoordsBroadcastThread_new\<rparr>)"

section \<open>The registry\<close>

text \<open>
  The static pointers of \<open>ComponentRegistry\<close>. They are null before they are set; the objects live as
  long as \<open>start_gpshub\<close> runs.
\<close>

record ComponentRegistry =
  cr_cmd_server :: bool
  cr_gps_server :: bool
  cr_bthreads :: bool

definition registry_start :: ComponentRegistry where
  "registry_start = \<lparr>cr_cmd_server = False, cr_gps_server = False, cr_bthreads = False\<rparr>"

definition setCommandServer :: "ComponentRegistry \<Rightarrow> ComponentRegistry" where
  "setCommandServer r = r\<lparr>cr_cmd_server := True\<rparr>"

definition setGpsDataServer :: "ComponentRegistry \<Rightarrow> ComponentRegistry" where
  "setGpsDataServer r = r\<lparr>cr_gps_server := True\<rparr>"

definition setBroadcastThreads :: "ComponentRegistry \<Rightarrow> ComponentRegistry" where
  "setBroadcastThreads r = r\<lparr>cr_bthreads := True\<rparr>"

section \<open>Starting, serving and joining\<close>

text \<open>
  The state of the process as \<open>main\<close> changes it: what was constructed, the registry, the signal handlers, what became of
  the thread objects, whether the command server's loop was called, the logger, and the stream that was closed.
\<close>

datatype pthread = NotStarted | Running | Joined

record process =
  pr_parts :: "hub_parts option"
  pr_registry :: ComponentRegistry
  pr_handlers :: "int \<rightharpoonup> sigaction"
  pr_bthreads :: "pthread list"
  pr_sthread :: pthread
  pr_loop_called :: bool
  pr_log :: logger
  pr_closed :: "nat option"

definition process_start :: "logger \<Rightarrow> process" where
  "process_start lg = \<lparr>pr_parts = None, pr_registry = registry_start, pr_handlers = Map.empty, pr_bthreads = [],
     pr_sthread = NotStarted, pr_loop_called = False, pr_log = lg, pr_closed = None\<rparr>"

type_synonym run = "(process \<times> ending) + process"

text \<open>
  What the process gets from outside: the values \<open>pthread_create\<close> and \<open>pthread_join\<close> return for broadcast thread \<open>i\<close>,
  and for the thread of the GPS server with \<open>i\<close> the number of broadcast threads; how \<open>CommandServer::loop\<close> ends (the text of the
  exception that leaves it, if one does); the two times at which it logs; and what the constructors need.
\<close>

record world =
  w_create :: "nat \<Rightarrow> int"
  w_join :: "nat \<Rightarrow> int"
  w_loop :: "string + unit"
  w_now :: "string \<times> nat"
  w_later :: "string \<times> nat"
  w_rand :: "32 word \<Rightarrow> nat \<Rightarrow> i32"
  w_time :: int
  w_char_block :: nat
  w_wild :: Epoll

text \<open>
  An exception of a thread function leaves \<open>main\<close> and ends the program. Joining a thread that was not started uses its
  uninitialised \<open>threadId\<close>; joining one twice is undefined as well. \<open>bthreads[i]\<close> is not checked.
\<close>

definition thread_ending :: "tfault \<Rightarrow> ending" where
  "thread_ending x = (case x of TThrow e \<Rightarrow> Terminated e | TTerminate e \<Rightarrow> Terminated e | TUndefined u \<Rightarrow> UndefinedBehaviour u)"

definition start_thread :: "int \<Rightarrow> pthread \<Rightarrow> ending + pthread" where
  "start_thread r t = (case Thread_start r of Inr _ \<Rightarrow> Inr Running | Inl x \<Rightarrow> Inl (thread_ending x))"

definition join_thread :: "int \<Rightarrow> pthread \<Rightarrow> ending + pthread" where
  "join_thread r t =
     (case t of
        NotStarted \<Rightarrow> Inl (UndefinedBehaviour UninitRead)
      | Running \<Rightarrow> (case Thread_join r of Inr _ \<Rightarrow> Inr Joined | Inl x \<Rightarrow> Inl (thread_ending x))
      | Joined \<Rightarrow> Inl (UndefinedBehaviour UseAfterFree))"

definition on_bthread :: "(nat \<Rightarrow> pthread \<Rightarrow> ending + pthread) \<Rightarrow> nat \<Rightarrow> process \<Rightarrow> run" where
  "on_bthread f i p =
     (if i < length (pr_bthreads p) then
        (case f i (pr_bthreads p ! i) of
           Inl e \<Rightarrow> Inl (p, e)
         | Inr t \<Rightarrow> Inr (p\<lparr>pr_bthreads := (pr_bthreads p)[i := t]\<rparr>))
      else Inl (p, UndefinedBehaviour OutOfBounds))"

definition on_sthread :: "(pthread \<Rightarrow> ending + pthread) \<Rightarrow> process \<Rightarrow> run" where
  "on_sthread f p = (case f (pr_sthread p) of Inl e \<Rightarrow> Inl (p, e) | Inr t \<Rightarrow> Inr (p\<lparr>pr_sthread := t\<rparr>))"

definition register_signal_handlers :: "sigaction \<Rightarrow> sigaction \<Rightarrow> sigaction \<Rightarrow> process \<Rightarrow> process" where
  "register_signal_handlers sigint_handler sigusr1_handler sigterm_handler p =
     p\<lparr>pr_handlers := (pr_handlers p)(SIGINT \<mapsto> sigint_handler\<lparr>sa_handle_stop := True\<rparr>,
        SIGUSR1 \<mapsto> sigusr1_handler\<lparr>sa_handle_stop := True\<rparr>, SIGTERM \<mapsto> sigterm_handler\<lparr>sa_handle_stop := True\<rparr>)\<rparr>"

text \<open>The first half of \<open>start_gpshub\<close>, up to the handlers, and the whole of it.\<close>

definition set_up :: "world \<Rightarrow> options \<Rightarrow> process \<Rightarrow> process" where
  "set_up w s p =
     (let p = p\<lparr>pr_log := LOG_INFO (w_now w) ''Starting gpshub...'' (pr_log p)\<rparr>;
          parts = construct_hub (w_rand w) (w_time w) (w_char_block w) (w_wild w) s;
          p = p\<lparr>pr_parts := Some parts, pr_registry := setGpsDataServer (setCommandServer (pr_registry p)),
                pr_sthread := NotStarted, pr_bthreads := map (\<lambda>_. NotStarted) (hp_bthreads parts)\<rparr>;
          p = p\<lparr>pr_registry := setBroadcastThreads (pr_registry p)\<rparr> in
      register_signal_handlers sigaction_local sigaction_local sigaction_local p)"

definition start_gpshub :: "world \<Rightarrow> options \<Rightarrow> process \<Rightarrow> run" where
  "start_gpshub w s p =
     (let n = nat (thread_num s) in
      bindF (foldF (on_bthread (\<lambda>i. start_thread (w_create w i))) [0..<n] (set_up w s p)) (\<lambda>p.
      bindF (on_sthread (start_thread (w_create w n)) p) (\<lambda>p.
      let p = p\<lparr>pr_loop_called := True\<rparr> in
      (case w_loop w of
         Inl what \<Rightarrow> Inl (p\<lparr>pr_log := LOG_ERROR (w_later w) (''Server loop error: '' @ what) (pr_log p)\<rparr>, ExitCode 1)
       | Inr _ \<Rightarrow>
           bindF (on_sthread (join_thread (w_join w n)) p) (\<lambda>p.
           foldF (on_bthread (\<lambda>i. join_thread (w_join w i))) [0..<n] p)))))"

definition main :: "(char \<times> string) list \<Rightarrow> bool \<Rightarrow> (string \<Rightarrow> nat option) \<Rightarrow> world \<Rightarrow> logger \<Rightarrow> process \<times> ending" where
  "main opts left_over fopen w lg =
     (case parse_options opts left_over of
        Inl e \<Rightarrow> (process_start lg, e)
      | Inr s \<Rightarrow>
          (case open_log (w_now w) fopen s lg of
             Inl e \<Rightarrow> (process_start lg, e)
           | Inr lg \<Rightarrow>
               (case start_gpshub w s (process_start lg) of
                  Inl (p, e) \<Rightarrow> (p, e)
                | Inr p \<Rightarrow> (p\<lparr>pr_closed := lg_stream lg\<rparr>, ExitCode 0))))"

text \<open>\<open>ServerThread::run\<close>: an exception of the server's loop is logged and the thread ends.\<close>

definition ServerThread_run :: "string \<times> nat \<Rightarrow> string + unit \<Rightarrow> logger \<Rightarrow> logger" where
  "ServerThread_run now loop_result lg =
     (case loop_result of Inl what \<Rightarrow> LOG_ERROR now (''Server error: '' @ what) lg | Inr _ \<Rightarrow> lg)"

section \<open>The signal handler\<close>

text \<open>
  The member \<open>epl\<close> of a server: the constructor leaves it indeterminate, \<open>loop\<close> sets it and deletes
  the object before it returns.
\<close>

datatype epl_ptr = Wild | Live | Freed

record running =
  rn_registry :: ComponentRegistry
  rn_cmd :: epl_ptr
  rn_gps :: epl_ptr
  rn_gps_epl :: Epoll
  rn_hub :: hub
  rn_loop :: "bool list"

definition get_component :: "bool \<Rightarrow> unit res" where
  "get_component present = (if present then Inr () else Inl (Undefined NullDeref))"

definition get_epl :: "epl_ptr \<Rightarrow> unit res" where
  "get_epl p = (case p of Wild \<Rightarrow> Inl (Undefined UninitRead) | Freed \<Rightarrow> Inl (Undefined UseAfterFree) | Live \<Rightarrow> Inr ())"

definition stop_thread :: "nat \<Rightarrow> running \<Rightarrow> running res" where
  "stop_thread i s =
     bindF (get_component (cr_bthreads (rn_registry s))) (\<lambda>_.
     let (flag, h) = bcast_stop (rn_hub s) in
     Inr (s\<lparr>rn_loop := (rn_loop s)[i := flag], rn_hub := h\<rparr>))"

text \<open>\<open>handle_stop\<close>, with what closing the two server sockets returns.\<close>

definition handle_stop :: "int option \<Rightarrow> int option \<Rightarrow> running \<Rightarrow> running res" where
  "handle_stop close_cmd close_gps s =
     bindF (get_component (cr_cmd_server (rn_registry s))) (\<lambda>_.
     bindF (get_epl (rn_cmd s)) (\<lambda>_.
     let (h, closed) = CommandServer_stop close_cmd (rn_hub s); s = s\<lparr>rn_hub := h\<rparr> in
     bindF closed (\<lambda>_.
     bindF (get_component (cr_gps_server (rn_registry s))) (\<lambda>_.
     bindF (get_epl (rn_gps s)) (\<lambda>_.
     let (ep, closed) = GpsDataServer_stop close_gps (rn_gps_epl s); s = s\<lparr>rn_gps_epl := ep\<rparr> in
     bindF closed (\<lambda>_.
     bindF (get_component (cr_bthreads (rn_registry s))) (\<lambda>_.
     foldF stop_thread [0..<length (rn_loop s)] s)))))))"

text \<open>The state when the handler is installed: the registry is complete, no server loop has begun.\<close>

definition running_start :: "Epoll \<Rightarrow> hub \<Rightarrow> nat \<Rightarrow> running" where
  "running_start ep h n =
     \<lparr>rn_registry = setBroadcastThreads (setGpsDataServer (setCommandServer registry_start)),
      rn_cmd = Wild, rn_gps = Wild, rn_gps_epl = ep, rn_hub = h, rn_loop = replicate n True\<rparr>"

lemmas registry_defs = setBroadcastThreads_def setGpsDataServer_def setCommandServer_def registry_start_def

section \<open>Options\<close>

text \<open>The argument of the last occurrence of an option.\<close>

fun last_arg :: "char \<Rightarrow> string \<Rightarrow> (char \<times> string) list \<Rightarrow> string" where
  "last_arg c d [] = d"
| "last_arg c d ((o', a) # opts) = last_arg c (if o' = c then a else d) opts"

lemma atoi_range: "atoi a = Inr n \<Longrightarrow> n < 2 ^ 31"
  by (auto simp: atoi_def Let_def split: if_splits prod.splits)

lemma option_step_result:
  assumes "option_step (c, a) s = Inr s'"
  shows "port_cmd s' = (if c = CHR ''t'' then a else port_cmd s)" "port_gps s' = (if c = CHR ''u'' then a else port_gps s)"
    "log_level s' = (if c = CHR ''l'' then a else log_level s)" "log_file s' = (if c = CHR ''f'' then a else log_file s)"
    "1 \<le> thread_num s \<and> thread_num s < 2 ^ 31 \<Longrightarrow> 1 \<le> thread_num s' \<and> thread_num s' < 2 ^ 31"
    "c \<notin> {CHR ''v'', CHR ''h'', CHR '':'', CHR ''?''}"
  using assms by (auto simp: option_step_def print_help_def print_version_def Let_def bindF_Inr_iff dest: atoi_range split: if_splits)

lemma options_loop:
  assumes "foldF option_step opts s = Inr s'" "1 \<le> thread_num s \<and> thread_num s < 2 ^ 31"
  shows "1 \<le> thread_num s' \<and> thread_num s' < 2 ^ 31 \<and>
    port_cmd s' = last_arg (CHR ''t'') (port_cmd s) opts \<and> port_gps s' = last_arg (CHR ''u'') (port_gps s) opts \<and>
    log_level s' = last_arg (CHR ''l'') (log_level s) opts \<and> log_file s' = last_arg (CHR ''f'') (log_file s) opts \<and>
    fst ` set opts \<inter> {CHR ''v'', CHR ''h'', CHR '':'', CHR ''?''} = {}"
  using assms
proof (induction opts arbitrary: s)
  case (Cons x opts)
  obtain c a where x: "x = (c, a)" by (cases x)
  from Cons.prems(1) obtain s1 where 1: "option_step (c, a) s = Inr s1" and 2: "foldF option_step opts s1 = Inr s'"
    by (auto simp: x bindF_Inr_iff)
  note r = option_step_result[OF 1]
  from Cons.IH[OF 2 r(5)[OF Cons.prems(2)]] show ?case using r(1-4,6) by (auto simp: x)
qed simp

lemma options_threads:
  assumes "foldF option_step opts s = Inr s'" "atoi d = Inr (thread_num s)"
  shows "atoi (last_arg (CHR ''n'') d opts) = Inr (thread_num s')"
  using assms
proof (induction opts arbitrary: s d)
  case (Cons x opts)
  obtain c a where x: "x = (c, a)" by (cases x)
  from Cons.prems(1) obtain s1 where 1: "option_step (c, a) s = Inr s1" "foldF option_step opts s1 = Inr s'"
    by (auto simp: x bindF_Inr_iff)
  have "atoi (if c = CHR ''n'' then a else d) = Inr (thread_num s1)"
    using 1(1) Cons.prems(2)
    by (auto simp: option_step_def print_help_def print_version_def Let_def bindF_Inr_iff split: if_splits)
  from Cons.IH[OF 1(2) this] show ?case by (simp add: x)
qed simp

lemma atoi_one: "atoi ''1'' = Inr (thread_num default_options)"
  by (simp add: atoi_def is_space_def is_digit_def digits_value_def default_options_def DEFAULT_THREAD_NUM_def)

text \<open>
  The options. When \<open>main\<close> accepts its command line, no argument was left over and neither help
  nor version was asked for, each setting is the argument of the last occurrence of its option or its
  default, and the number of broadcast threads is at least 1 and an \<open>int\<close>.
\<close>

theorem options_accepted:
  assumes "parse_options opts left_over = Inr s"
  shows "\<not> left_over \<and> 1 \<le> thread_num s \<and> thread_num s < 2 ^ 31 \<and>
    port_cmd s = last_arg (CHR ''t'') ''9990'' opts \<and> port_gps s = last_arg (CHR ''u'') ''9991'' opts \<and>
    log_level s = last_arg (CHR ''l'') ''DEBUG2'' opts \<and> log_file s = last_arg (CHR ''f'') ''stdout'' opts \<and>
    fst ` set opts \<inter> {CHR ''v'', CHR ''h'', CHR '':'', CHR ''?''} = {}"
proof -
  from assms have "foldF option_step opts default_options = Inr s" and l: "\<not> left_over"
    by (auto simp: parse_options_def bindF_Inr_iff print_help_def split: if_splits)
  from options_loop[OF this(1)] l show ?thesis by (simp add: default_options_def DEFAULT_THREAD_NUM_def)
qed

theorem options_accepted_witness:
  "\<exists>s. parse_options [(CHR ''t'', ''80''), (CHR ''n'', ''4''), (CHR ''t'', ''81'')] False = Inr s \<and>
     port_cmd s = ''81'' \<and> port_gps s = ''9991'' \<and> thread_num s \<ge> 1"
proof -
  let ?o = "[(CHR ''t'', ''80''), (CHR ''n'', ''4''), (CHR ''t'', ''81'')]"
  have "atoi ''4'' = Inr 4" by (simp add: atoi_def is_space_def is_digit_def digits_value_def)
  then obtain s where s: "parse_options ?o False = Inr s"
    by (simp add: parse_options_def option_step_def default_options_def)
  from options_accepted[OF s] show ?thesis using s by simp
qed

section \<open>Starting and joining\<close>

text \<open>The loops over the broadcast threads: as far as the calls succeed, and at the first that does not.\<close>

lemma bthread_loop:
  assumes "pr_bthreads p = replicate n t" "k \<le> n" "\<And>i. i < k \<Longrightarrow> f i t = Inr t'"
  shows "foldF (on_bthread f) [0..<k] p = Inr (p\<lparr>pr_bthreads := replicate k t' @ replicate (n - k) t\<rparr>)"
  using assms(2,3)
proof (induction k)
  case 0
  with assms(1) show ?case by simp
next
  case (Suc k)
  let ?b = "replicate k t' @ replicate (n - k) t"
  have b: "?b = replicate k t' @ t # replicate (n - Suc k) t" using Suc.prems(1) by (simp add: Suc_diff_Suc[symmetric])
  then have "?b ! k = t" "?b[k := t'] = replicate (Suc k) t' @ replicate (n - Suc k) t"
    unfolding b by (simp_all add: nth_append list_update_append replicate_app_Cons_same)
  with Suc show ?case by (simp add: foldF_append on_bthread_def)
qed

lemma bthread_loop_fails:
  assumes "pr_bthreads p = replicate n t" "k < n" "\<And>i. i < k \<Longrightarrow> f i t = Inr t'" "f k t = Inl e"
  shows "foldF (on_bthread f) [0..<n] p = Inl (p\<lparr>pr_bthreads := replicate k t' @ replicate (n - k) t\<rparr>, e)"
proof -
  have "[0..<n] = [0..<k] @ k # [Suc k..<n]"
    using assms(2) by (metis less_or_eq_imp_le upt_add_eq_append upt_conv_Cons le_add_diff_inverse zero_le)
  moreover have "foldF (on_bthread f) [0..<k] p = Inr (p\<lparr>pr_bthreads := replicate k t' @ replicate (n - k) t\<rparr>)"
    using assms by (intro bthread_loop) simp_all
  ultimately show ?thesis using assms(2,4) by (simp add: foldF_append on_bthread_def nth_append)
qed

lemma start_thread_iff:
  "start_thread 0 t = Inr Running" "r \<noteq> 0 \<Longrightarrow> \<exists>e. start_thread r t = Inl e \<and> (\<forall>c. e \<noteq> ExitCode c)"
  by (auto simp: start_thread_def Thread_start_def throwThread_def thread_ending_def literal_plus_def split: sum.splits tfault.splits)

lemma join_thread_iff:
  "join_thread 0 Running = Inr Joined" "r \<noteq> 0 \<Longrightarrow> \<exists>e. join_thread r Running = Inl e \<and> (\<forall>c. e \<noteq> ExitCode c)"
  by (auto simp: join_thread_def Thread_join_def throwThread_def thread_ending_def literal_plus_def split: sum.splits tfault.splits)

text \<open>
  The process once everything is constructed, all three pointers of the registry are set and the handler of all three signals is
  \<open>handle_stop\<close>, with the broadcast threads \<open>bs\<close> and the GPS server's thread \<open>st\<close>.
\<close>

definition hub_process :: "world \<Rightarrow> options \<Rightarrow> logger \<Rightarrow> pthread list \<Rightarrow> pthread \<Rightarrow> bool \<Rightarrow> process" where
  "hub_process w s lg bs st called =
     (let stop = \<lparr>sa_handle_stop = True, sa_flags = None\<rparr> in
      \<lparr>pr_parts = Some (construct_hub (w_rand w) (w_time w) (w_char_block w) (w_wild w) s),
       pr_registry = \<lparr>cr_cmd_server = True, cr_gps_server = True, cr_bthreads = True\<rparr>,
       pr_handlers = Map.empty(SIGINT \<mapsto> stop, SIGUSR1 \<mapsto> stop, SIGTERM \<mapsto> stop),
       pr_bthreads = bs, pr_sthread = st, pr_loop_called = called,
       pr_log = LOG_INFO (w_now w) ''Starting gpshub...'' lg, pr_closed = None\<rparr>)"

lemma hub_process_simps [simp]:
  "pr_bthreads (hub_process w s lg bs st c) = bs" "pr_sthread (hub_process w s lg bs st c) = st"
  "pr_log (hub_process w s lg bs st c) = LOG_INFO (w_now w) ''Starting gpshub...'' lg"
  "(hub_process w s lg bs st c)\<lparr>pr_bthreads := bs'\<rparr> = hub_process w s lg bs' st c"
  "(hub_process w s lg bs st c)\<lparr>pr_sthread := st'\<rparr> = hub_process w s lg bs st' c"
  "(hub_process w s lg bs st c)\<lparr>pr_loop_called := c'\<rparr> = hub_process w s lg bs st c'"
  by (simp_all add: hub_process_def Let_def)

lemma set_up_process:
  "set_up w s (process_start lg) = hub_process w s lg (replicate (nat (thread_num s)) NotStarted) NotStarted False"
  by (simp add: set_up_def process_start_def hub_process_def Let_def register_signal_handlers_def sigaction_local_def
      registry_defs construct_hub_def map_replicate_const)

lemma on_sthread_start: "on_sthread (start_thread 0) p = Inr (p\<lparr>pr_sthread := Running\<rparr>)"
  by (simp add: on_sthread_def start_thread_iff)

text \<open>Everything up to the call of the loop when all threads can be made.\<close>

lemma start_gpshub_serves:
  assumes n: "n = nat (thread_num s)" and "\<forall>i \<le> n. w_create w i = 0"
  shows "start_gpshub w s (process_start lg) =
    (let p = hub_process w s lg (replicate n Running) Running True in
     case w_loop w of
       Inl what \<Rightarrow> Inl (p\<lparr>pr_log := LOG_ERROR (w_later w) (''Server loop error: '' @ what) (pr_log p)\<rparr>, ExitCode 1)
     | Inr _ \<Rightarrow> bindF (on_sthread (join_thread (w_join w n)) p) (\<lambda>p. foldF (on_bthread (\<lambda>i. join_thread (w_join w i))) [0..<n] p))"
proof -
  have "foldF (on_bthread (\<lambda>i. start_thread (w_create w i))) [0..<n] (set_up w s (process_start lg)) =
      Inr (hub_process w s lg (replicate n Running) NotStarted False)"
    using bthread_loop[of "set_up w s (process_start lg)" n NotStarted n "\<lambda>i. start_thread (w_create w i)" Running] assms(2)
    by (simp add: set_up_process n[symmetric] start_thread_iff)
  then show ?thesis using assms(2)
    by (cases "w_loop w") (simp_all add: start_gpshub_def n[symmetric] Let_def on_sthread_start)
qed

text \<open>
  A thread that cannot be made. If making the threads works for the first \<open>k\<close> and fails for the next,
  the exception is caught nowhere: the program ends abnormally with \<open>k\<close> broadcast threads running, none
  of them joined, and the command server never runs.
\<close>

theorem start_failure:
  assumes n: "n = nat (thread_num s)" and "k \<le> n" "\<forall>i < k. w_create w i = 0" "w_create w k \<noteq> 0"
  shows "\<exists>e. start_gpshub w s (process_start lg) =
      Inl (hub_process w s lg (replicate k Running @ replicate (n - k) NotStarted) NotStarted False, e) \<and> (\<forall>c. e \<noteq> ExitCode c)"
proof -
  obtain e where e: "start_thread (w_create w k) NotStarted = Inl e" "\<forall>c. e \<noteq> ExitCode c"
    using start_thread_iff(2)[OF assms(4)] by blast
  let ?f = "\<lambda>i. start_thread (w_create w i)" and ?p = "hub_process w s lg (replicate n NotStarted) NotStarted False"
  show ?thesis
  proof (cases "k < n")
    case True
    have "foldF (on_bthread ?f) [0..<n] ?p = Inl (hub_process w s lg (replicate k Running @ replicate (n - k) NotStarted) NotStarted False, e)"
      using bthread_loop_fails[of ?p n NotStarted k ?f Running e] True assms(3) e(1) by (simp add: start_thread_iff)
    with e(2) show ?thesis by (simp add: start_gpshub_def n[symmetric] Let_def set_up_process)
  next
    case False
    with assms(2) have k: "k = n" by simp
    then have "foldF (on_bthread ?f) [0..<n] ?p = Inr (hub_process w s lg (replicate n Running) NotStarted False)"
      using bthread_loop[of ?p n NotStarted n ?f Running] assms(3) by (simp add: start_thread_iff)
    with e k show ?thesis by (simp add: start_gpshub_def n[symmetric] Let_def set_up_process on_sthread_def)
  qed
qed

text \<open>A world in which only the second thread cannot be made.\<close>

definition world_one :: world where
  "world_one = \<lparr>w_create = (\<lambda>i. if i = 1 then EAGAIN else 0), w_join = (\<lambda>_. 0), w_loop = Inr (), w_now = (''12:00:00'', 0),
     w_later = (''12:00:00'', 0), w_rand = (\<lambda>_ _. 0), w_time = 0, w_char_block = 1, w_wild = epoll_start\<rparr>"

theorem start_failure_witness:
  "\<exists>e. start_gpshub world_one (default_options\<lparr>thread_num := 3\<rparr>) (process_start logger_start) =
     Inl (hub_process world_one (default_options\<lparr>thread_num := 3\<rparr>) logger_start [Running, NotStarted, NotStarted] NotStarted False, e)"
  using start_failure[of 3 "default_options\<lparr>thread_num := 3\<rparr>" 1 world_one logger_start]
  by (auto simp: world_one_def EAGAIN_def numeral_eq_Suc)

text \<open>Joining fails.\<close>

lemma join_failure:
  assumes n: "n = nat (thread_num s)" and "\<forall>i \<le> n. w_create w i = 0" "w_loop w = Inr ()"
  shows "w_join w n \<noteq> 0 \<Longrightarrow> \<exists>e. start_gpshub w s (process_start lg) = Inl (hub_process w s lg (replicate n Running) Running True, e) \<and>
      (\<forall>c. e \<noteq> ExitCode c)"
    and "w_join w n = 0 \<Longrightarrow> k < n \<Longrightarrow> \<forall>i < k. w_join w i = 0 \<Longrightarrow> w_join w k \<noteq> 0 \<Longrightarrow>
      \<exists>e. start_gpshub w s (process_start lg) = Inl (hub_process w s lg (replicate k Joined @ replicate (n - k) Running) Joined True, e) \<and>
      (\<forall>c. e \<noteq> ExitCode c)"
proof -
  note g = start_gpshub_serves[OF assms(1,2), of lg, unfolded assms(3) Let_def sum.case]
  show "\<exists>e. start_gpshub w s (process_start lg) = Inl (hub_process w s lg (replicate n Running) Running True, e) \<and>
      (\<forall>c. e \<noteq> ExitCode c)" if "w_join w n \<noteq> 0"
    using join_thread_iff(2)[OF that] by (auto simp: g on_sthread_def)
  show "\<exists>e. start_gpshub w s (process_start lg) = Inl (hub_process w s lg (replicate k Joined @ replicate (n - k) Running) Joined True, e) \<and>
      (\<forall>c. e \<noteq> ExitCode c)" if k: "w_join w n = 0" "k < n" "\<forall>i < k. w_join w i = 0" "w_join w k \<noteq> 0"
  proof -
    obtain e where e: "join_thread (w_join w k) Running = Inl e" "\<forall>c. e \<noteq> ExitCode c" using join_thread_iff(2)[OF k(4)] by blast
    show ?thesis
      using bthread_loop_fails[of "hub_process w s lg (replicate n Running) Joined True" n Running k "\<lambda>i. join_thread (w_join w i)" Joined e]
        e k by (simp add: g on_sthread_def join_thread_iff)
  qed
qed

lemma join_success:
  assumes n: "n = nat (thread_num s)" and "\<forall>i \<le> n. w_create w i = 0" "w_loop w = Inr ()" "\<forall>i \<le> n. w_join w i = 0"
  shows "start_gpshub w s (process_start lg) = Inr (hub_process w s lg (replicate n Joined) Joined True)"
  using bthread_loop[of "hub_process w s lg (replicate n Running) Joined True" n Running n "\<lambda>i. join_thread (w_join w i)" Joined]
    assms(4) by (simp add: start_gpshub_serves[OF assms(1,2), of lg, unfolded assms(3) Let_def sum.case] on_sthread_def join_thread_iff)

text \<open>
  C24: the life of the hub, for every outcome of the calls that make and join threads and of the command server's loop. When
  \<open>main\<close> accepts its command line, the number \<open>n\<close> of broadcast threads is what \<open>-n\<close> asked for last, and 1 without it, and that
  many are constructed. If the thread with index \<open>k\<close> is the first that cannot be made (the broadcast threads come
  first, then the thread of the GPS server), exactly the broadcast threads before it are running, nothing is joined,
  the command server's loop is not called, and the program ends abnormally. If all are made and the loop throws, the error is logged
  and the exit code is 1, with all threads running. If joining fails, the program ends abnormally with the
  threads before that one joined. Only if nothing fails is every thread started and joined exactly once, the log closed
  and the exit code 0; in all other cases the log stays open.
\<close>

theorem main_run:
  assumes "parse_options opts left_over = Inr s" "open_log (w_now w) fopen s lg = Inr lg'" and n: "n = nat (thread_num s)"
  shows "atoi (last_arg (CHR ''n'') ''1'' opts) = Inr (int n) \<and> 1 \<le> n \<and>
    length (hp_bthreads (construct_hub (w_rand w) (w_time w) (w_char_block w) (w_wild w) s)) = n \<and>
    (\<forall>k \<le> n. (\<forall>i < k. w_create w i = 0) \<longrightarrow> w_create w k \<noteq> 0 \<longrightarrow> (\<exists>e. (\<forall>c. e \<noteq> ExitCode c) \<and>
      main opts left_over fopen w lg = (hub_process w s lg' (replicate k Running @ replicate (n - k) NotStarted) NotStarted False, e))) \<and>
    ((\<forall>i \<le> n. w_create w i = 0) \<longrightarrow>
      (\<forall>what. w_loop w = Inl what \<longrightarrow> (\<exists>p. p = hub_process w s lg' (replicate n Running) Running True \<and>
        main opts left_over fopen w lg = (p\<lparr>pr_log := LOG_ERROR (w_later w) (''Server loop error: '' @ what) (pr_log p)\<rparr>, ExitCode 1))) \<and>
      (w_loop w = Inr () \<longrightarrow>
        (w_join w n \<noteq> 0 \<longrightarrow> (\<exists>e. (\<forall>c. e \<noteq> ExitCode c) \<and>
          main opts left_over fopen w lg = (hub_process w s lg' (replicate n Running) Running True, e))) \<and>
        (\<forall>k < n. w_join w n = 0 \<longrightarrow> (\<forall>i < k. w_join w i = 0) \<longrightarrow> w_join w k \<noteq> 0 \<longrightarrow> (\<exists>e. (\<forall>c. e \<noteq> ExitCode c) \<and>
          main opts left_over fopen w lg = (hub_process w s lg' (replicate k Joined @ replicate (n - k) Running) Joined True, e))) \<and>
        ((\<forall>i \<le> n. w_join w i = 0) \<longrightarrow>
          main opts left_over fopen w lg = ((hub_process w s lg' (replicate n Joined) Joined True)\<lparr>pr_closed := lg_stream lg'\<rparr>, ExitCode 0))))"
proof -
  have o: "foldF option_step opts default_options = Inr s"
    using assms(1) by (auto simp: parse_options_def bindF_Inr_iff print_help_def split: if_splits)
  have t: "1 \<le> thread_num s" using options_loop[OF o] by (simp add: default_options_def DEFAULT_THREAD_NUM_def)
  have a: "atoi (last_arg (CHR ''n'') ''1'' opts) = Inr (int n)" using options_threads[OF o atoi_one] t n by simp
  have m: "main opts left_over fopen w lg = (case start_gpshub w s (process_start lg') of
      Inl (p, e) \<Rightarrow> (p, e) | Inr p \<Rightarrow> (p\<lparr>pr_closed := lg_stream lg'\<rparr>, ExitCode 0))"
    by (simp add: main_def assms(1,2))
  have len: "length (hp_bthreads (construct_hub (w_rand w) (w_time w) (w_char_block w) (w_wild w) s)) = n"
    by (simp add: construct_hub_def n)
  have 1: "\<exists>e. (\<forall>c. e \<noteq> ExitCode c) \<and>
      main opts left_over fopen w lg = (hub_process w s lg' (replicate k Running @ replicate (n - k) NotStarted) NotStarted False, e)"
    if "k \<le> n" "\<forall>i < k. w_create w i = 0" "w_create w k \<noteq> 0" for k
    using start_failure[OF n that, of lg'] m by auto
  have 2: "main opts left_over fopen w lg = ((hub_process w s lg' (replicate n Running) Running True)\<lparr>pr_log :=
      LOG_ERROR (w_later w) (''Server loop error: '' @ what) (pr_log (hub_process w s lg' (replicate n Running) Running True))\<rparr>, ExitCode 1)"
    if "\<forall>i \<le> n. w_create w i = 0" "w_loop w = Inl what" for what
    using start_gpshub_serves[OF n that(1), of lg'] that(2) m by (simp add: Let_def)
  have 3: "\<exists>e. (\<forall>c. e \<noteq> ExitCode c) \<and> main opts left_over fopen w lg = (hub_process w s lg' (replicate n Running) Running True, e)"
    if "\<forall>i \<le> n. w_create w i = 0" "w_loop w = Inr ()" "w_join w n \<noteq> 0"
    using join_failure(1)[OF n that, of lg'] m by auto
  have 4: "\<exists>e. (\<forall>c. e \<noteq> ExitCode c) \<and>
      main opts left_over fopen w lg = (hub_process w s lg' (replicate k Joined @ replicate (n - k) Running) Joined True, e)"
    if "\<forall>i \<le> n. w_create w i = 0" "w_loop w = Inr ()" "w_join w n = 0" "k < n" "\<forall>i < k. w_join w i = 0" "w_join w k \<noteq> 0" for k
    using join_failure(2)[OF n that, of lg'] m by auto
  have 5: "main opts left_over fopen w lg = ((hub_process w s lg' (replicate n Joined) Joined True)\<lparr>pr_closed := lg_stream lg'\<rparr>, ExitCode 0)"
    if "\<forall>i \<le> n. w_create w i = 0" "w_loop w = Inr ()" "\<forall>i \<le> n. w_join w i = 0"
    using join_success[OF n that, of lg'] m by simp
  from a t n len 1 2 3 4 5 show ?thesis by (intro conjI allI impI) (auto simp del: One_nat_def)
qed

theorem main_run_witness:
  "\<exists>p. main [(CHR ''n'', ''4''), (CHR ''n'', ''2'')] False (\<lambda>_. None) (world_one\<lparr>w_create := \<lambda>_. 0\<rparr>) logger_start = (p, ExitCode 0) \<and>
     pr_bthreads p = [Joined, Joined] \<and> pr_sthread p = Joined \<and> pr_closed p = Some STDOUT"
proof -
  let ?s = "default_options\<lparr>thread_num := 2\<rparr>" and ?w = "world_one\<lparr>w_create := \<lambda>_. 0\<rparr>"
  have "atoi ''4'' = Inr 4" "atoi ''2'' = Inr 2" by (simp_all add: atoi_def is_space_def is_digit_def digits_value_def)
  then have 1: "parse_options [(CHR ''n'', ''4''), (CHR ''n'', ''2'')] False = Inr ?s"
    by (simp add: parse_options_def option_step_def default_options_def)
  obtain lg where 2: "open_log (w_now ?w) (\<lambda>_. None) ?s logger_start = Inr lg" "lg_stream lg = Some STDOUT"
    by (cases "FromString (w_now ?w) (log_level ?s) logger_start") (auto simp: open_log_def default_options_def)
  have "nat (thread_num ?s) = 2" "w_loop ?w = Inr ()" "\<forall>i. w_create ?w i = 0" "\<forall>i. w_join ?w i = 0"
    by (simp_all add: world_one_def)
  with main_run[OF 1 2(1) refl]
  have "main [(CHR ''n'', ''4''), (CHR ''n'', ''2'')] False (\<lambda>_. None) ?w logger_start =
      ((hub_process ?w ?s lg (replicate 2 Joined) Joined True)\<lparr>pr_closed := lg_stream lg\<rparr>, ExitCode 0)" by metis
  with 2(2) show ?thesis by (simp add: hub_process_def Let_def numeral_2_eq_2)
qed

section \<open>Stopping\<close>

lemma stop_threads:
  assumes "cr_bthreads (rn_registry s)" "m \<le> length (rn_loop s)"
  shows "foldF stop_thread [0..<m] s =
    Inr (s\<lparr>rn_loop := replicate m False @ drop m (rn_loop s), rn_hub := (rn_hub s)\<lparr>uqueue := uqueue (rn_hub s) @ replicate m 0\<rparr>\<rparr>)"
  using assms(2)
proof (induction m)
  case (Suc m)
  have "(replicate m False @ drop m (rn_loop s))[m := False] = replicate (Suc m) False @ drop (Suc m) (rn_loop s)"
    using Suc.prems by (simp add: list_update_append Cons_nth_drop_Suc[symmetric] replicate_append_same[symmetric])
  moreover have "replicate m (0 :: i32) @ [0] = replicate (Suc m) 0"
    by (simp add: replicate_append_same)
  ultimately show ?case using Suc assms(1)
    by (simp add: foldF_append stop_thread_def get_component_def bcast_stop_def Let_def)
qed simp

text \<open>
  C33: the signal handler. Once both servers are inside their loops and if both sockets can be closed,
  it asks both loops to end and wakes them, clears the flag of every broadcast thread and puts one 0 per
  thread on the queue, behind what is on it. But it is installed before either server has made its
  epoll object: a signal that arrives before the command server's, or before the GPS server's, has been
  made makes the handler use an indeterminate pointer, and one after a server has ended uses a deleted object.
\<close>

theorem handle_stop_spec:
  "(let s = running_start ep h n in
    handle_stop None None s = Inl (Undefined UninitRead) \<and>
    handle_stop None None (s\<lparr>rn_cmd := Live\<rparr>) = Inl (Undefined UninitRead) \<and>
    handle_stop None None (s\<lparr>rn_cmd := Freed\<rparr>) = Inl (Undefined UseAfterFree) \<and>
    handle_stop None None (s\<lparr>rn_cmd := Live, rn_gps := Freed\<rparr>) = Inl (Undefined UseAfterFree) \<and>
    handle_stop None None (s\<lparr>rn_cmd := Live, rn_gps := Live\<rparr>) =
      Inr (s\<lparr>rn_cmd := Live, rn_gps := Live, rn_gps_epl := Epoll_stop ep, rn_loop := replicate n False,
             rn_hub := h\<lparr>cmd_epl := Epoll_stop (cmd_epl h), uqueue := uqueue h @ replicate n 0\<rparr>\<rparr>))"
  using stop_threads[of "(running_start ep h n)\<lparr>rn_cmd := Live, rn_gps := Live, rn_gps_epl := Epoll_stop ep,
      rn_hub := h\<lparr>cmd_epl := Epoll_stop (cmd_epl h)\<rparr>\<rparr>" n]
  by (simp add: Let_def handle_stop_def running_start_def registry_defs get_component_def get_epl_def
      CommandServer_stop_def GpsDataServer_stop_def Socket_Close_def)

end
