(* ===== verification/Hub_Construction.thy ===== *)
theory Hub_Construction
  imports Hub_Loops Startup
begin

text \<open>
  What the constructors that \<open>start_gpshub\<close> of \<open>src/src/main.cpp\<close> calls leave for the loops; and the stream operator
  for users of \<open>src/include/user/User.h\<close>.
\<close>

section \<open>What is constructed\<close>

lemma construct_hub_start: "hp_hub (construct_hub rand_from now cb wild s) = hub_start wild"
  by (simp add: construct_hub_def UserIdGenerator_new_def hub_start_def)

text \<open>So the loops that the constructed components run move between the reachable states of the whole server.\<close>

lemma constructed_loop_reachable:
  assumes "p = construct_hub rand_from now cb wild s"
    and "CommandServer_loop ntop (hp_env p) pipe ws gai getfl setfl listen_err create_err (hp_cmd_socket p) (hp_hub p) = Inr (Some h)"
  shows "hub_reachable ntop (hp_env p) h"
  by (rule reachable_CommandServer_loop[OF assms(2)[unfolded assms(1) construct_hub_start, folded assms(1)]])

lemma constructed_thread_reachable:
  assumes "p = construct_hub rand_from now cb wild s" "bt \<in> set (hp_bthreads p)"
    and "hub_reachable ntop (hp_env p) h" "bcast_run err fs (bt_buf bt) h = Inr (buf', h')"
  shows "bt_loop bt \<and> hub_reachable ntop (hp_env p) h'"
proof -
  have "bt = CoordsBroadcastThread_new" using assms(1,2) by (simp add: construct_hub_def Let_def split: if_splits)
  then have "bt_loop bt" "length (bt_buf bt) = BCAST_BUF_LEN" by (simp_all add: CoordsBroadcastThread_new_def)
  then show ?thesis using reachable_bcast_run[OF assms(3) _ assms(4)] by simp
qed

text \<open>The command line decides the ports, and at least one thread is constructed.\<close>

lemma constructed_ports:
  assumes "parse_options opts left_over = Inr s" "p = construct_hub rand_from now cb wild s"
  shows "show_socket (hp_cmd_socket p) = Inr (c_str (''localhost:'' @ last_arg (CHR ''t'') ''9990'' opts))"
    "show_socket (hp_gps_socket p) = Inr (c_str (''localhost:'' @ last_arg (CHR ''u'') ''9991'' opts))"
    "socktype (hp_cmd_socket p) = SOCK_STREAM" "socktype (hp_gps_socket p) = SOCK_DGRAM" "hp_bthreads p \<noteq> []"
proof -
  have "foldF option_step opts default_options = Inr s"
    using assms(1) by (auto simp: parse_options_def bindF_Inr_iff print_help_def split: if_splits)
  from options_loop[OF this] have "port_cmd s = last_arg (CHR ''t'') ''9990'' opts"
    "port_gps s = last_arg (CHR ''u'') ''9991'' opts" "1 \<le> thread_num s"
    by (simp_all add: default_options_def DEFAULT_THREAD_NUM_def)
  then show "show_socket (hp_cmd_socket p) = Inr (c_str (''localhost:'' @ last_arg (CHR ''t'') ''9990'' opts))"
    "show_socket (hp_gps_socket p) = Inr (c_str (''localhost:'' @ last_arg (CHR ''u'') ''9991'' opts))"
    "socktype (hp_cmd_socket p) = SOCK_STREAM" "socktype (hp_gps_socket p) = SOCK_DGRAM" "hp_bthreads p \<noteq> []"
    unfolding assms(2) by (simp_all add: construct_hub_def CommandServer_new_def GpsDataServer_new_def Socket_new_def
        show_socket_def show_cptr_def c_str_def Let_def)
qed

section \<open>The text of a user\<close>

text \<open>The log names a user by nick and id; \<open>operator<<\<close> prints the id with its sign.\<close>

definition dec_int :: "int \<Rightarrow> cstring" where
  "dec_int i = (if i < 0 then [45] else []) @ dec (nat \<bar>i\<bar>)"

definition show_user :: "User \<Rightarrow> cstring" where
  "show_user u = u_nick u @ [40] @ dec_int (sint (u_id u)) @ [41]"

lemma set_dec: "set (dec n) \<subseteq> of_nat ` {48..57}"
proof (induction n rule: dec.induct)
  case (1 n)
  have "of_nat (48 + n mod 10) \<in> (of_nat :: nat \<Rightarrow> byte) ` {48..57}"
    by (intro imageI) simp
  with 1 show ?case by (auto simp: dec.simps[of n])
qed

lemma dec_chars: "b \<in> set (dec n) \<Longrightarrow> b \<noteq> 40 \<and> b \<noteq> 45"
proof -
  assume "b \<in> set (dec n)"
  then obtain k :: nat where "b = of_nat k" "48 \<le> k" "k \<le> 57" using set_dec[of n] by auto
  then have "unat b = k" by (simp add: unat_of_nat)
  with \<open>48 \<le> k\<close> show ?thesis by auto
qed

lemma dec_inj: "dec m = dec n \<Longrightarrow> m = n"
  by (metis undec_dec)

lemma dec_int_inj: "dec_int i = dec_int j \<Longrightarrow> i = j"
proof -
  assume a: "dec_int i = dec_int j"
  have neg: "dec_int k \<noteq> [] \<and> hd (dec_int k) = 45 \<longleftrightarrow> k < 0" for k
    using dec_chars[of "hd (dec (nat \<bar>k\<bar>))" "nat \<bar>k\<bar>"] dec.simps[of "nat \<bar>k\<bar>"]
    by (auto simp: dec_int_def split: if_splits)
  have "i < 0 \<longleftrightarrow> j < 0" using neg[of i] neg[of j] a by simp
  with a dec_inj[of "nat \<bar>i\<bar>" "nat \<bar>j\<bar>"] show "i = j" by (auto simp: dec_int_def split: if_splits)
qed

lemma dec_int_no_paren: "40 \<notin> set (dec_int i)"
  using dec_chars[of 40] by (auto simp: dec_int_def)

text \<open>What follows the last occurrence of a character is determined by the text.\<close>

lemma last_split:
  assumes "xs @ z # d = ys @ z # e" "z \<notin> set d" "z \<notin> set e"
  shows "d = e"
proof -
  have t: "takeWhile (\<lambda>b. b \<noteq> z) (rev (us @ z # f)) = rev f" if "z \<notin> set f" for us f
    using takeWhile_append2[of "rev f" "\<lambda>b. b \<noteq> z" "z # rev us"] that by fastforce
  show ?thesis using t[OF assms(2), of xs] t[OF assms(3), of ys] unfolding assms(1) by simp
qed

text \<open>A user's text determines its nick and its id, whatever characters the nick has.\<close>

lemma show_user_inj:
  assumes "show_user u = show_user v"
  shows "u_nick u = u_nick v \<and> u_id u = u_id v"
proof -
  have eq: "u_nick u @ 40 # dec_int (sint (u_id u)) = u_nick v @ 40 # dec_int (sint (u_id v))"
    using assms by (simp add: show_user_def)
  from last_split[OF this] dec_int_no_paren have "sint (u_id u) = sint (u_id v)" by (auto intro: dec_int_inj)
  with eq show ?thesis by (simp add: signed_word_eqI)
qed

end
