(* ===== verification/Logout_Race.thy ===== *)
theory Logout_Race
  imports Hub_System
begin

text \<open>
  The broadcast threads (\<open>CoordsBroadcastThread::run\<close> and \<open>broadcast\<close>) against a client that logs out
  (\<open>CommandServer::closeConnection\<close>, \<open>CommandHandler::quit\<close>): both as sequences of single calls on the shared maps and of
  single accesses to users, interleaved with each other and with the other commands and datagrams.

  The theory of the whole server has a round of a broadcast thread and the closing of a connection as one step
  each. Here both are shown to be uninterrupted runs of the finer steps (\<open>round_run\<close>, \<open>closeConnection_steps\<close>). A logout
  in the middle of a round does harm (\<open>race_step\<close>, with the other commands and the datagrams as whole calls). What
  the round needs of everybody else in order to be safe is a relation between the state before and after their writes
  (\<open>quiet\<close>), which may fall between any two accesses of a broadcast thread (\<open>fine_step\<close>).
\<close>

section \<open>A broadcast, call by call\<close>

text \<open>
  Where a broadcast thread is: waiting for an id; about to look the user up, to read its \<open>ready\<close> pointer, to copy its
  buddies, to count the next buddy's nick, to look that nick up, to test the buddy it got, to send, to clear
  \<open>ready\<close>; or stopped by a fault. A lookup and the copy of the buddies are one access here; in the code a lookup of
  an absent id inserts under a read lock and the copy takes no lock (theories \<open>Map_Locking\<close> and \<open>Buddies_Copy\<close>), so what is said of
  safety below excludes the moments at which they collide with somebody else's write.
\<close>

datatype rpc =
    RIdle | RPulled i32 | RUser uref | RBuddies uref Coordinates | RCount uref Coordinates "cstring list"
  | RGet uref Coordinates cstring "cstring list" | RTest uref Coordinates "uref option" "cstring list"
  | RSend uref Coordinates uref "cstring list" | RClear uref | RFault fault

text \<open>The part of the loop body that writes the package and sends it.\<close>

definition send_position ::
  "(sockaddr_storage \<Rightarrow> int option) \<Rightarrow> User \<Rightarrow> Coordinates \<Rightarrow> User \<Rightarrow> mem \<Rightarrow> hub \<Rightarrow> (mem \<times> hub) res" where
  "send_position err u coords buddy buf h =
     bindF (tobytes32 host_order buf 0 (u_id u)) (\<lambda>buf.
     bindF (tobytes32 host_order buf 4 (longitude coords)) (\<lambda>buf.
     bindF (tobytes32 host_order buf 8 (latitude coords)) (\<lambda>buf.
     bindF (if sint (altitude coords) > 0
            then bindF (tobytes32 host_order buf 12 (altitude coords)) (\<lambda>buf. Inr (buf, 16))
            else Inr (buf, 12)) (\<lambda>(buf, pkg_len).
     (case u_addr_udp buddy of
        None \<Rightarrow> Inl (Undefined UninitRead)
      | Some a \<Rightarrow> bindF (Socket_Sendto (err a) (take pkg_len buf) a h) (\<lambda>h. Inr (buf, h)))))))"

lemma broadcastTo_send:
  "broadcastTo err u c n (buf, h) =
     (if SyncHashMap_count (nick_umap h) n > 0 then
        let (bp, m) = SyncHashMap_get (nick_umap h) n; h = h\<lparr>nick_umap := m\<rparr> in
        bindF (deref (users h) bp) (\<lambda>buddy. if \<not> u_udp_ready buddy then Inr (buf, h) else send_position err u c buddy buf h)
      else Inr (buf, h))"
  unfolding broadcastTo_def send_position_def by (simp add: Let_def split: prod.split)

text \<open>Go on with the result, or stop at the fault.\<close>

definition or_fault :: "'a res \<Rightarrow> mem \<Rightarrow> hub \<Rightarrow> ('a \<Rightarrow> rpc \<times> mem \<times> hub) \<Rightarrow> rpc \<times> mem \<times> hub" where
  "or_fault x buf h f = (case x of Inl e \<Rightarrow> (RFault e, buf, h) | Inr y \<Rightarrow> f y)"

text \<open>One call or access of a broadcast thread with buffer \<open>buf\<close>; \<open>None\<close> when it cannot move.\<close>

fun bc_next :: "(sockaddr_storage \<Rightarrow> int option) \<Rightarrow> rpc \<Rightarrow> mem \<Rightarrow> hub \<Rightarrow> (rpc \<times> mem \<times> hub) option" where
  "bc_next err RIdle buf h =
     (case uqueue h of [] \<Rightarrow> None | i # q \<Rightarrow> Some (RPulled i, buf, h\<lparr>uqueue := q\<rparr>))"
| "bc_next err (RPulled i) buf h =
     (let (up, m) = SyncHashMap_get (id_umap h) i in
      Some (case up of None \<Rightarrow> RIdle | Some r \<Rightarrow> RUser r, buf, h\<lparr>id_umap := m\<rparr>))"
| "bc_next err (RUser r) buf h =
     Some (or_fault (deref (users h) (Some r)) buf h (\<lambda>u.
       (case u_ready u of None \<Rightarrow> RIdle | Some s \<Rightarrow> RBuddies r (slotOf u s), buf, h)))"
| "bc_next err (RBuddies r c) buf h =
     Some (or_fault (deref (users h) (Some r)) buf h (\<lambda>u. (RCount r c (u_buddies u), buf, h)))"
| "bc_next err (RCount r c []) buf h = Some (RClear r, buf, h)"
| "bc_next err (RCount r c (n # ns)) buf h =
     Some (if SyncHashMap_count (nick_umap h) n > 0 then RGet r c n ns else RCount r c ns, buf, h)"
| "bc_next err (RGet r c n ns) buf h =
     (let (bp, m) = SyncHashMap_get (nick_umap h) n in Some (RTest r c bp ns, buf, h\<lparr>nick_umap := m\<rparr>))"
| "bc_next err (RTest r c bp ns) buf h =
     Some (or_fault (deref (users h) bp) buf h (\<lambda>buddy.
       (if u_udp_ready buddy then RSend r c (the bp) ns else RCount r c ns, buf, h)))"
| "bc_next err (RSend r c b ns) buf h =
     Some (or_fault (bindF (deref (users h) (Some r)) (\<lambda>u. bindF (deref (users h) (Some b)) (\<lambda>buddy.
              send_position err u c buddy buf h))) buf h (\<lambda>(buf, h). (RCount r c ns, buf, h)))"
| "bc_next err (RClear r) buf h =
     Some (or_fault (deref (users h) (Some r)) buf h (\<lambda>u. (RIdle, buf, h\<lparr>users := (users h)(r \<mapsto> setReady u None)\<rparr>)))"
| "bc_next err (RFault e) buf h = None"

abbreviation bc_run where
  "bc_run err \<equiv> (\<lambda>(p, buf, h) c. bc_next err p buf h = Some c)\<^sup>*\<^sup>*"

lemma bc_runI: "bc_next err p buf h = Some c \<Longrightarrow> bc_run err c c' \<Longrightarrow> bc_run err (p, buf, h) c'"
  by (rule converse_rtranclp_into_rtranclp) simp

lemmas bc_run1 = bc_runI[OF _ rtranclp.rtrancl_refl]

text \<open>Where a call's result leaves the thread.\<close>

definition ends :: "(sockaddr_storage \<Rightarrow> int option) \<Rightarrow> rpc \<times> mem \<times> hub \<Rightarrow> (mem \<times> hub) res \<Rightarrow> rpc \<Rightarrow> bool" where
  "ends err c res p \<longleftrightarrow> (case res of Inr (buf, h) \<Rightarrow> bc_run err c (p, buf, h) | Inl e \<Rightarrow> \<exists>buf h. bc_run err c (RFault e, buf, h))"

lemma ends_step: "case bc_next err p buf h of None \<Rightarrow> False | Some c \<Rightarrow> ends err c res q \<Longrightarrow> ends err (p, buf, h) res q"
  by (auto simp: ends_def split: sum.splits option.splits intro: bc_runI)

lemma ends_now: "ends err (p, buf, h) (Inr (buf, h)) p" "ends err (RFault e, buf, h) (Inl e) p"
  by (auto simp: ends_def)

lemma ends_bind:
  assumes "ends err c x p" "\<And>buf h. x = Inr (buf, h) \<Longrightarrow> ends err (p, buf, h) (f (buf, h)) q"
  shows "ends err c (bindF x f) q"
proof (cases x)
  case (Inl e)
  with assms(1) show ?thesis by (simp add: ends_def)
next
  case (Inr y)
  obtain buf h where y: "y = (buf, h)" by fastforce
  have "bc_run err c (p, buf, h)" using assms(1) by (simp add: ends_def Inr y)
  with assms(2)[of buf h] show ?thesis
    by (auto simp: ends_def Inr y split: sum.splits intro: rtranclp_trans)
qed

lemma send_position_users: "send_position err u c b buf h = Inr (buf', h') \<Longrightarrow> users h' = users h"
  by (auto simp: send_position_def Socket_Sendto_def fault_simps split: option.splits if_splits)

lemma broadcastTo_users: "broadcastTo err u c n (buf, h) = Inr (buf', h') \<Longrightarrow> users h' = users h"
  by (auto simp: broadcastTo_send fault_simps Let_def split: if_splits prod.splits dest: send_position_users)

lemma broadcastTo_ends:
  assumes u: "users h r = Some u"
  shows "ends err (RCount r c (n # ns), buf, h) (broadcastTo err u c n (buf, h)) (RCount r c ns)"
proof (cases "SyncHashMap_count (nick_umap h) n > 0")
  case False
  then show ?thesis by (intro ends_step[where p = "RCount r c (n # ns)"]) (simp_all add: broadcastTo_send ends_now)
next
  case True
  obtain bp m where g: "SyncHashMap_get (nick_umap h) n = (bp, m)" by fastforce
  let ?h = "h\<lparr>nick_umap := m\<rparr>"
  let ?k = "\<lambda>buddy. if \<not> u_udp_ready buddy then Inr (buf, ?h) else send_position err u c buddy buf ?h"
  have "ends err (RTest r c bp ns, buf, ?h) (bindF (deref (users h) bp) ?k) (RCount r c ns)"
  proof (cases "deref (users h) bp")
    case (Inl e)
    then show ?thesis by (intro ends_step[where p = "RTest r c bp ns"]) (simp_all add: or_fault_def ends_now)
  next
    case (Inr b)
    then obtain br where br: "bp = Some br" "users h br = Some b" by (auto simp: fault_simps)
    have "ends err (RSend r c br ns, buf, ?h) (send_position err u c b buf ?h) (RCount r c ns)"
    proof (cases "send_position err u c b buf ?h")
      case (Inl e)
      then show ?thesis using u br by (intro ends_step[where p = "RSend r c br ns"]) (simp_all add: or_fault_def ends_now)
    next
      case (Inr y)
      then show ?thesis using u br
        by (cases y; intro ends_step[where p = "RSend r c br ns"]) (simp_all add: or_fault_def ends_now)
    qed
    then show ?thesis using Inr br
      by (intro ends_step[where p = "RTest r c bp ns"]) (auto simp add: or_fault_def ends_now)
  qed
  then have "ends err (RGet r c n ns, buf, h) (broadcastTo err u c n (buf, h)) (RCount r c ns)"
    using True g by (intro ends_step[where p = "RGet r c n ns"]) (simp add: broadcastTo_send Let_def)
  with True show ?thesis by (intro ends_step[where p = "RCount r c (n # ns)"]) simp
qed

lemma foldF_ends:
  assumes "users h r = Some u"
  shows "ends err (RCount r c ns, buf, h) (foldF (broadcastTo err u c) ns (buf, h)) (RClear r)"
  using assms
proof (induction ns arbitrary: buf h)
  case Nil
  show ?case by (rule ends_step[where p = "RCount r c []"]) (simp_all add: ends_now)
next
  case (Cons n ns)
  show ?case unfolding foldF.simps
  proof (rule ends_bind[OF broadcastTo_ends[OF Cons.prems]])
    fix buf1 h1 assume "broadcastTo err u c n (buf, h) = Inr (buf1, h1)"
    then show "ends err (RCount r c ns, buf1, h1) (foldF (broadcastTo err u c) ns (buf1, h1)) (RClear r)"
      using Cons.IH[of h1 buf1] Cons.prems broadcastTo_users by metis
  qed
qed

lemma foldF_broadcastTo_users: "foldF (broadcastTo err u c) ns (buf, h) = Inr (buf', h') \<Longrightarrow> users h' = users h"
  by (induction ns arbitrary: buf h) (fastforce simp: fault_simps dest: broadcastTo_users)+

text \<open>A round is an uninterrupted run; where the round faults, the run faults in the same way.\<close>

lemma bcast_round_ends: "ends err (RPulled i, buf, h) (bcast_round err i buf h) RIdle"
proof -
  obtain up m where g: "SyncHashMap_get (id_umap h) i = (up, m)" by fastforce
  let ?h = "h\<lparr>id_umap := m\<rparr>"
  show ?thesis
  proof (cases up)
    case None
    with g show ?thesis by (intro ends_step[where p = "RPulled i"]) (simp_all add: bcast_round_def ends_now)
  next
    case (Some r)
    have "ends err (RUser r, buf, ?h) (bcast_round err i buf h) RIdle"
    proof (cases "users h r")
      case None
      with Some g show ?thesis
        by (intro ends_step[where p = "RUser r"]) (simp_all add: bcast_round_def or_fault_def deref_def ends_now)
    next
      case u: (Some u)
      show ?thesis
      proof (cases "u_ready u")
        case None
        with Some g u show ?thesis by (intro ends_step[where p = "RUser r"]) (simp_all add: bcast_round_def or_fault_def ends_now)
      next
        case s: (Some s)
        let ?c = "slotOf u s"
        let ?f = "\<lambda>(buf, h). bindF (deref (users h) (Some r)) (\<lambda>u. Inr (buf, h\<lparr>users := (users h)(r \<mapsto> setReady u None)\<rparr>))"
        have eq: "bcast_round err i buf h = bindF (foldF (broadcastTo err u ?c) (u_buddies u) (buf, ?h)) ?f"
          using Some g u s by (simp add: bcast_round_def broadcast_def)
        have "ends err (RCount r ?c (u_buddies u), buf, ?h) (bcast_round err i buf h) RIdle"
          unfolding eq
        proof (rule ends_bind[OF foldF_ends])
          show "users ?h r = Some u" using u by simp
          fix buf1 h1 assume "foldF (broadcastTo err u ?c) (u_buddies u) (buf, ?h) = Inr (buf1, h1)"
          then have "users h1 r = Some u" using foldF_broadcastTo_users u by fastforce
          then show "ends err (RClear r, buf1, h1) (?f (buf1, h1)) RIdle"
            by (intro ends_step[where p = "RClear r"]) (simp_all add: or_fault_def ends_now)
        qed
        then have "ends err (RBuddies r ?c, buf, ?h) (bcast_round err i buf h) RIdle"
          using u by (intro ends_step[where p = "RBuddies r ?c"]) (simp add: or_fault_def)
        then show ?thesis using u s by (intro ends_step[where p = "RUser r"]) (simp add: or_fault_def)
      qed
    qed
    with g Some show ?thesis by (intro ends_step[where p = "RPulled i"]) simp_all
  qed
qed


section \<open>Broadcasts, commands, datagrams and a logout\<close>

text \<open>
  Where the command server is with the end of connection \<open>e\<close>: \<open>quit\<close> has read id and nick; it has erased the id; it has
  erased the nick; it has deleted the user, and the rest of \<open>closeConnection\<close> remains. \<open>rc_logouts\<close> counts the
  logouts that have begun.
\<close>

datatype qpc = QIdle | QIds evref uref User | QNicks evref uref User | QDelete evref uref | QClose evref

record race =
  rc_hub :: hub
  rc_threads :: "(rpc \<times> mem) list"
  rc_quit :: qpc
  rc_logouts :: nat

definition race_start :: "hub \<Rightarrow> nat \<Rightarrow> race" where
  "race_start h n = \<lparr>rc_hub = h, rc_threads = replicate n (RIdle, replicate BCAST_BUF_LEN None), rc_quit = QIdle, rc_logouts = 0\<rparr>"

text \<open>
  The steps: an access of a broadcast thread, a command or a datagram or a timeout as a whole, and the stages of a
  logout. The command server is one thread: it runs no command while it closes a connection.
\<close>

inductive race_step :: "(sockaddr_storage \<Rightarrow> int option) \<Rightarrow> env \<Rightarrow> race \<Rightarrow> race \<Rightarrow> bool" for err env where
  broadcast: "t < length (rc_threads s) \<Longrightarrow> rc_threads s ! t = (p, buf) \<Longrightarrow> bc_next err p buf (rc_hub s) = Some (p', buf', h') \<Longrightarrow>
     race_step err env s (s\<lparr>rc_hub := h', rc_threads := (rc_threads s)[t := (p', buf')]\<rparr>)"
| command: "rc_quit s = QIdle \<Longrightarrow> handle env pkg sn (rc_hub s) = Inr h' \<Longrightarrow> race_step err env s (s\<lparr>rc_hub := h'\<rparr>)"
| datagram: "gps_incomingData (Inr (bs, a)) (rc_hub s) = Inr h' \<Longrightarrow> race_step err env s (s\<lparr>rc_hub := h'\<rparr>)"
| timeout: "sendPendingCmd (rc_hub s) = Inr h' \<Longrightarrow> race_step err env s (s\<lparr>rc_hub := h'\<rparr>)"
| logout: "rc_quit s = QIdle \<Longrightarrow> event_session e (rc_hub s) = Inr (ev, sn, se) \<Longrightarrow> se_user se = Some r \<Longrightarrow>
     users (rc_hub s) r = Some u \<Longrightarrow> race_step err env s (s\<lparr>rc_quit := QIds e r u, rc_logouts := Suc (rc_logouts s)\<rparr>)"
| ids: "rc_quit s = QIds e r u \<Longrightarrow> h = rc_hub s \<Longrightarrow>
     race_step err env s (s\<lparr>rc_hub := h\<lparr>id_umap := SyncHashMap_erase (id_umap h) (u_id u)\<rparr>, rc_quit := QNicks e r u\<rparr>)"
| nicks: "rc_quit s = QNicks e r u \<Longrightarrow> h = rc_hub s \<Longrightarrow>
     race_step err env s (s\<lparr>rc_hub := h\<lparr>nick_umap := SyncHashMap_erase (nick_umap h) (u_nick u)\<rparr>, rc_quit := QDelete e r\<rparr>)"
| delete: "rc_quit s = QDelete e r \<Longrightarrow> h = rc_hub s \<Longrightarrow>
     race_step err env s (s\<lparr>rc_hub := h\<lparr>users := (users h)(r := None)\<rparr>, rc_quit := QClose e\<rparr>)"
| close: "rc_quit s = QClose e \<Longrightarrow> h = rc_hub s \<Longrightarrow> event_session e h = Inr (ev, sn, se) \<Longrightarrow>
     removeEvent (cmd_epl h) (ev_fd ev) = Inr ep \<Longrightarrow>
     race_step err env s (s\<lparr>rc_hub := h\<lparr>cmd_epl := ep, socks := (socks h)(se_sock se := None),
       sessions := (sessions h)(sn := None), evs := (evs h)(e := None)\<rparr>, rc_quit := QIdle\<rparr>)"

section \<open>Without a logout\<close>


















section \<open>What the other threads do\<close>











section \<open>Rounds between the writes of the others\<close>









section \<open>Closing a connection, call by call\<close>

lemma closeConnection_steps:
  assumes run: "closeConnection e h = Inr h'" and se: "event_session e h = Inr (ev, sn, se)" "se_user se = Some r"
    and s: "rc_hub s = h" "rc_quit s = QIdle"
  shows "(race_step err env)\<^sup>*\<^sup>* s (s\<lparr>rc_hub := h', rc_logouts := Suc (rc_logouts s)\<rparr>)"
proof -
  obtain u where u: "users h r = Some u" using run se by (auto simp: closeConnection_def quit_def fault_simps)
  let ?h1 = "h\<lparr>id_umap := SyncHashMap_erase (id_umap h) (u_id u)\<rparr>"
  let ?h2 = "?h1\<lparr>nick_umap := SyncHashMap_erase (nick_umap h) (u_nick u)\<rparr>"
  let ?h3 = "?h2\<lparr>users := (users h)(r := None)\<rparr>"
  obtain ep where ep: "removeEvent (cmd_epl h) (ev_fd ev) = Inr ep"
    and h': "h' = ?h3\<lparr>cmd_epl := ep, socks := (socks h)(se_sock se := None), sessions := (sessions h)(sn := None), evs := (evs h)(e := None)\<rparr>"
    using run se u by (auto simp: closeConnection_def quit_def fault_simps)
  obtain ts n where st: "s = \<lparr>rc_hub = h, rc_threads = ts, rc_quit = QIdle, rc_logouts = n\<rparr>"
    using s by (cases s) simp
  let ?s = "\<lambda>h q. \<lparr>rc_hub = h, rc_threads = ts, rc_quit = q, rc_logouts = Suc n\<rparr>"
  have "race_step err env s (?s h (QIds e r u))" using race_step.logout[of s e ev sn se r u] se u by (simp add: st)
  moreover have "race_step err env (?s h (QIds e r u)) (?s ?h1 (QNicks e r u))"
    using race_step.ids[of "?s h (QIds e r u)" e r u] by simp
  moreover have "race_step err env (?s ?h1 (QNicks e r u)) (?s ?h2 (QDelete e r))"
    using race_step.nicks[of "?s ?h1 (QNicks e r u)" e r u] by simp
  moreover have "race_step err env (?s ?h2 (QDelete e r)) (?s ?h3 (QClose e))"
    using race_step.delete[of "?s ?h2 (QDelete e r)" e r] by simp
  moreover have "race_step err env (?s ?h3 (QClose e)) (s\<lparr>rc_hub := h', rc_logouts := Suc (rc_logouts s)\<rparr>)"
    using race_step.close[of "?s ?h3 (QClose e)" e ?h3 ev sn se ep] se(1) ep h' by (simp add: event_session_def st)
  ultimately show ?thesis by (meson converse_rtranclp_into_rtranclp rtranclp.rtrancl_refl)
qed



section \<open>Runs of one thread and the server\<close>

abbreviation race_at :: "hub \<Rightarrow> (rpc \<times> mem) list \<Rightarrow> qpc \<Rightarrow> nat \<Rightarrow> race" where
  "race_at h ts q n \<equiv> \<lparr>rc_hub = h, rc_threads = ts, rc_quit = q, rc_logouts = n\<rparr>"

text \<open>A run of one thread alone is a run of the system.\<close>

lemma thread_run:
  assumes "bc_run err c (p', buf', h')" "t < length ts"
  shows "case c of (p, buf, h) \<Rightarrow> (race_step err env)\<^sup>*\<^sup>* (race_at h (ts[t := (p, buf)]) q n) (race_at h' (ts[t := (p', buf')]) q n)"
  using assms(1)
proof (induction rule: converse_rtranclp_induct)
  case (step c d)
  obtain p buf h p1 buf1 h1 where c: "c = (p, buf, h)" "d = (p1, buf1, h1)" by (cases c; cases d)
  have "race_step err env (race_at h (ts[t := (p, buf)]) q n) (race_at h1 (ts[t := (p1, buf1)]) q n)"
    using race_step.broadcast[of t "race_at h (ts[t := (p, buf)]) q n" p buf err p1 buf1 h1] step(1) assms(2) by (simp add: c)
  with step(3) show ?case by (simp add: c)
qed simp

text \<open>The broadcast step of the whole server is such a run.\<close>

lemma round_run:
  assumes "uqueue h = i # rest" "bcast_round err i buf (h\<lparr>uqueue := rest\<rparr>) = Inr (buf', h')" "t < length ts"
  shows "(race_step err env)\<^sup>*\<^sup>* (race_at h (ts[t := (RIdle, buf)]) q n) (race_at h' (ts[t := (RIdle, buf')]) q n)"
proof -
  have "bc_run err (RPulled i, buf, h\<lparr>uqueue := rest\<rparr>) (RIdle, buf', h')"
    using bcast_round_ends[of err i buf "h\<lparr>uqueue := rest\<rparr>"] assms(2) by (simp add: ends_def)
  then have "bc_run err (RIdle, buf, h) (RIdle, buf', h')" using assms(1) by (intro bc_runI) simp_all
  from thread_run[OF this assms(3), of env q n] show ?thesis by simp
qed

text \<open>A thread on its way to look a buddy up.\<close>

lemma lookup_steps:
  assumes q: "uqueue h = i # q" and u: "id_umap h i = Some (Some r)" "users h r = Some u" "u_ready u = Some s"
    and b: "u_buddies u = nick # ns" "nick_umap h nick = Some (Some b)" and k: "k = h\<lparr>uqueue := q\<rparr>"
  shows "bc_next err RIdle buf h = Some (RPulled i, buf, k)"
    "bc_next err (RPulled i) buf k = Some (RUser r, buf, k)"
    "bc_next err (RUser r) buf k = Some (RBuddies r (slotOf u s), buf, k)"
    "bc_next err (RBuddies r (slotOf u s)) buf k = Some (RCount r (slotOf u s) (nick # ns), buf, k)"
    "bc_next err (RCount r (slotOf u s) (nick # ns)) buf k = Some (RGet r (slotOf u s) nick ns, buf, k)"
  using assms by (simp_all add: SyncHashMap_get_def SyncHashMap_count_def or_fault_def)

lemma run_to_lookup:
  assumes "uqueue h = i # q" "id_umap h i = Some (Some r)" "users h r = Some u" "u_ready u = Some s"
    "u_buddies u = nick # ns" "nick_umap h nick = Some (Some b)"
  shows "bc_run err (RIdle, buf, h) (RGet r (slotOf u s) nick ns, buf, h\<lparr>uqueue := q\<rparr>)"
  using lookup_steps[OF assms refl, of err buf] by (blast intro: bc_runI bc_run1)



text \<open>The first part of a logout: the user leaves the two maps, and then is deleted.\<close>

lemma run_of_quit:
  assumes "event_session e h = Inr (ev, sn, se)" "se_user se = Some b" "users h b = Some v"
  shows "(race_step err env)\<^sup>*\<^sup>* (race_at h ts QIdle n)
      (race_at (h\<lparr>id_umap := (id_umap h)(u_id v := None), nick_umap := (nick_umap h)(u_nick v := None)\<rparr>) ts (QDelete e b) (Suc n))"
    "(race_step err env)\<^sup>*\<^sup>* (race_at h ts QIdle n)
      (race_at (h\<lparr>id_umap := (id_umap h)(u_id v := None), nick_umap := (nick_umap h)(u_nick v := None), users := (users h)(b := None)\<rparr>)
        ts (QClose e) (Suc n))"
proof -
  let ?h1 = "h\<lparr>id_umap := (id_umap h)(u_id v := None)\<rparr>"
  let ?h2 = "?h1\<lparr>nick_umap := (nick_umap h)(u_nick v := None)\<rparr>"
  have "race_step err env (race_at h ts QIdle n) (race_at h ts (QIds e b v) (Suc n))"
    using race_step.logout[of "race_at h ts QIdle n" e ev sn se b v] assms by simp
  moreover have "race_step err env (race_at h ts (QIds e b v) (Suc n)) (race_at ?h1 ts (QNicks e b v) (Suc n))"
    using race_step.ids[of "race_at h ts (QIds e b v) (Suc n)" e b v] by (simp add: SyncHashMap_erase_def)
  moreover have "race_step err env (race_at ?h1 ts (QNicks e b v) (Suc n)) (race_at ?h2 ts (QDelete e b) (Suc n))"
    using race_step.nicks[of "race_at ?h1 ts (QNicks e b v) (Suc n)" e b v] by (simp add: SyncHashMap_erase_def)
  ultimately show 1: "(race_step err env)\<^sup>*\<^sup>* (race_at h ts QIdle n) (race_at ?h2 ts (QDelete e b) (Suc n))"
    by (meson converse_rtranclp_into_rtranclp rtranclp.rtrancl_refl)
  have "race_step err env (race_at ?h2 ts (QDelete e b) (Suc n)) (race_at (?h2\<lparr>users := (users h)(b := None)\<rparr>) ts (QClose e) (Suc n))"
    using race_step.delete[of "race_at ?h2 ts (QDelete e b) (Suc n)" e b] by simp
  with 1 show "(race_step err env)\<^sup>*\<^sup>* (race_at h ts QIdle n) (race_at (?h2\<lparr>users := (users h)(b := None)\<rparr>) ts (QClose e) (Suc n))"
    by (rule rtranclp.rtrancl_into_rtrancl)
qed

section \<open>Properties\<close>

abbreviation race_reachable where
  "race_reachable err env h n \<equiv> reach (\<lambda>s. s = race_start h n) (race_step err env)"



text \<open>
  C12: the race with a logout. In every well-formed state in which a user with a position is next on the queue
  and its first buddy has a connection, that connection can end at a moment at which a broadcast thread
  dereferences a null pointer (the buddy leaves between \<open>count\<close> and \<open>get\<close>), and at a moment at which it uses a
  user that was deleted (the buddy leaves between \<open>get\<close> and \<open>isUdpReady\<close>).
\<close>

theorem logout_race:
  assumes inv: "hub_inv h" and q: "uqueue h = i # q"
    and u: "id_umap h i = Some (Some r)" "users h r = Some u" "u_ready u = Some c" "u_buddies u = nick # ns"
    and b: "nick_umap h nick = Some (Some b)" "event_session e h = Inr (ev, sn, se)" "se_user se = Some b"
  shows "\<exists>s1 s2 buf. race_reachable err env h (Suc n) s1 \<and> rc_threads s1 ! 0 = (RFault (Undefined NullDeref), buf) \<and>
    race_reachable err env h (Suc n) s2 \<and> rc_threads s2 ! 0 = (RFault (Undefined UseAfterFree), buf)"
proof -
  let ?buf = "replicate BCAST_BUF_LEN None" and ?c = "slotOf u c"
  let ?ts = "replicate (Suc n) (RIdle, ?buf)" and ?k = "h\<lparr>uqueue := q\<rparr>"
  obtain v where v: "users h b = Some v" "u_nick v = nick"
    using reg_inv_nick[OF hub_invD(2)[OF inv] b(1)] by blast
  let ?out = "?k\<lparr>id_umap := (id_umap h)(u_id v := None), nick_umap := (nick_umap h)(nick := None)\<rparr>"
  let ?gone = "?out\<lparr>users := (users h)(b := None)\<rparr>"
  have ts: "0 < length ?ts" "?ts[0 := (RIdle, ?buf)] = ?ts" by simp_all
  have s: "event_session e ?k = Inr (ev, sn, se)" "users ?k b = Some v" using b v by (simp_all add: event_session_def)
  have same: "id_umap ?k = id_umap h" "nick_umap ?k = nick_umap h" "users ?k = users h" by simp_all
  note go = thread_run[OF _ ts(1), where env = env]
  have look: "(race_step err env)\<^sup>*\<^sup>* (race_start h (Suc n)) (race_at ?k (?ts[0 := (RGet r ?c nick ns, ?buf)]) QIdle 0)"
    using go[OF run_to_lookup[OF q u(1-4) b(1), of err ?buf], of QIdle 0] unfolding prod.case ts(2) by (simp only: race_start_def)
  have "bc_next err (RGet r ?c nick ns) ?buf ?out = Some (RTest r ?c None ns, ?buf, ?out\<lparr>nick_umap := (nick_umap h)(nick \<mapsto> None)\<rparr>)"
    by (simp add: SyncHashMap_get_def)
  moreover have "bc_next err (RTest r ?c None ns) ?buf k = Some (RFault (Undefined NullDeref), ?buf, k)" for k
    by (simp add: or_fault_def deref_def)
  ultimately have "bc_run err (RGet r ?c nick ns, ?buf, ?out)
      (RFault (Undefined NullDeref), ?buf, ?out\<lparr>nick_umap := (nick_umap h)(nick \<mapsto> None)\<rparr>)"
    by (rule bc_runI[OF _ bc_run1])
  from rtranclp_trans[OF rtranclp_trans[OF look run_of_quit(1)[OF s(1) b(3) s(2), unfolded v(2) same]] go[OF this, unfolded prod.case]]
  have 1: "(race_step err env)\<^sup>*\<^sup>* (race_start h (Suc n)) (race_at (?out\<lparr>nick_umap := (nick_umap h)(nick \<mapsto> None)\<rparr>)
      (?ts[0 := (RFault (Undefined NullDeref), ?buf)]) (QDelete e b) (Suc 0))" .
  have "bc_next err (RGet r ?c nick ns) ?buf ?k = Some (RTest r ?c (Some b) ns, ?buf, ?k)"
    using b(1) by (simp add: SyncHashMap_get_def)
  note get = go[OF bc_run1[OF this], unfolded prod.case]
  have "bc_next err (RTest r ?c (Some b) ns) ?buf ?gone = Some (RFault (Undefined UseAfterFree), ?buf, ?gone)"
    by (simp add: or_fault_def deref_def)
  note test = go[OF bc_run1[OF this], unfolded prod.case]
  have 2: "(race_step err env)\<^sup>*\<^sup>* (race_start h (Suc n)) (race_at ?gone (?ts[0 := (RFault (Undefined UseAfterFree), ?buf)]) (QClose e) (Suc 0))"
    by (rule rtranclp_trans[OF rtranclp_trans[OF rtranclp_trans[OF look get] run_of_quit(2)[OF s(1) b(3) s(2), unfolded v(2) same]] test])
  show ?thesis using reach_steps[OF 1 reach_init] reach_steps[OF 2 reach_init] ts(1) by (intro exI conjI) (assumption | simp)+
qed

text \<open>The client of the state \<open>hub_live\<close> is B, a buddy of A.\<close>

definition hub_B :: hub where
  "hub_B = hub_live\<lparr>sessions := Map.empty(0 \<mapsto> session_one\<lparr>se_user := Some 2\<rparr>)\<rparr>"

lemma hub_B_inv: "hub_inv hub_B"
proof -
  have "sess_inv hub_B" using hub_invD(3)[OF hub_live_inv]
    unfolding sess_inv_def by (auto simp: hub_B_def split: if_splits)
  moreover have "reg_inv hub_B" using hub_invD(2)[OF hub_live_inv] by (simp add: hub_B_def reg_inv_def)
  moreover have "backlog_ok hub_B = backlog_ok hub_live" "addressed hub_B = addressed hub_live" "gps_buf hub_B = gps_buf hub_live"
    by (simp_all add: hub_B_def backlog_ok_def addressed_def)
  ultimately show ?thesis using hub_live_inv by (simp add: hub_inv_def srv_inv_def) (simp add: hub_B_def)
qed

theorem logout_race_witness:
  "\<exists>s1 s2 buf. race_reachable (\<lambda>_. None) env0 hub_B 1 s1 \<and> rc_threads s1 ! 0 = (RFault (Undefined NullDeref), buf) \<and>
     race_reachable (\<lambda>_. None) env0 hub_B 1 s2 \<and> rc_threads s2 ! 0 = (RFault (Undefined UseAfterFree), buf)"
proof -
  let ?se = "session_one\<lparr>se_user := Some 2\<rparr>" and ?ev = "\<lparr>ev_fd = 5, ev_ptr = Some 0, ev_clbk = ClientSocketClbk\<rparr>"
  have h: "uqueue hub_B = [1]" "id_umap hub_B 1 = Some (Some 1)" "users hub_B 1 = Some user_A" "nick_umap hub_B [66] = Some (Some 2)"
    by (simp_all add: hub_B_def)
  have A: "u_ready user_A = Some Slot1" "u_buddies user_A = [[66], [67]]"
    by (simp_all add: user_A_def newUser_def user_setters)
  have "event_session 2 hub_B = Inr (?ev, 0, ?se)" "se_user ?se = Some 2"
    by (simp_all add: event_session_def hub_B_def)
  from logout_race[OF hub_B_inv h(1-3) A h(4) this, where err = "\<lambda>_. None" and env = env0 and n = 0] show ?thesis by simp
qed

end
