(* ===== verification/Buddies_Copy.thy ===== *)
theory Buddies_Copy
  imports Sync_Containers
begin

text \<open>
  The buddies of a user between threads: \<open>CommandHandler::addBuddies\<close> and \<open>removeBuddies\<close> change the set
  (\<open>src/include/thread/SyncHashSet.h\<close>) under its write lock, and \<open>CoordsBroadcastThread::broadcast\<close> copies the
  whole object, without taking its lock, and then read-locks the copy.

  The object is what the class declares: the set and the lock. The implicit copy constructor copies the set element
  by element and after it the lock, and nobody but the copying thread ever sees the copy. A copy of the set that
  overlaps with \<open>set.insert\<close> or \<open>set.erase\<close> is a data race: what it gives is unknown (\<open>None\<close>). The lock has the
  meaning of a value (POSIX leaves the use of a copied lock undefined, so this is the mildest reading of the
  code): a lock copied while it is held for writing is held for writing.
\<close>

section \<open>The model\<close>

record sync_set =
  ss_set :: "cstring SyncHashSet"
  ss_wrlocked :: bool

datatype set_op = SInsert cstring | SErase cstring

fun apply_set_op :: "set_op \<Rightarrow> cstring SyncHashSet \<Rightarrow> cstring SyncHashSet" where
  "apply_set_op (SInsert x) s = SyncHashSet_insert s x"
| "apply_set_op (SErase x) s = SyncHashSet_erase s x"

text \<open>
  The command server is outside the set's methods, has taken the lock, is inside the operation on the set, or is
  about to unlock. A broadcast thread is elsewhere; copies the set, which was disturbed so far or not;
  has the set and is about to copy the lock; has copied both and is about to read-lock its copy; or reads it.
\<close>

datatype owner_pc = OutsideSet | Locked set_op | InsideSet set_op | Unlocking

datatype copy_pc = Elsewhere | CopyingSet bool | SetCopied "cstring SyncHashSet option"
  | Copied "cstring SyncHashSet option" bool | Reading "cstring SyncHashSet option"

record buddies =
  bs_obj :: sync_set
  bs_owner :: owner_pc
  bs_thr :: "copy_pc list"
  bs_past :: "cstring SyncHashSet set"

definition buddies_start :: "cstring SyncHashSet \<Rightarrow> nat \<Rightarrow> buddies" where
  "buddies_start xs n = \<lparr>bs_obj = \<lparr>ss_set = xs, ss_wrlocked = False\<rparr>, bs_owner = OutsideSet,
     bs_thr = replicate n Elsewhere, bs_past = {xs}\<rparr>"

text \<open>The operation on the set begins: every copy of the set under way is disturbed.\<close>

fun disturb :: "copy_pc \<Rightarrow> copy_pc" where
  "disturb (CopyingSet _) = CopyingSet False"
| "disturb p = p"

fun in_set_op :: "owner_pc \<Rightarrow> bool" where
  "in_set_op (InsideSet _) = True"
| "in_set_op _ = False"

text \<open>\<open>bs_past\<close> records the sets at the moments at which no operation was at work on them.\<close>

inductive buddies_step :: "buddies \<Rightarrow> buddies \<Rightarrow> bool" where
  wrlock: "bs_owner s = OutsideSet \<Longrightarrow>
     buddies_step s (s\<lparr>bs_obj := (bs_obj s)\<lparr>ss_wrlocked := True\<rparr>, bs_owner := Locked p\<rparr>)"
| enter: "bs_owner s = Locked p \<Longrightarrow> buddies_step s (s\<lparr>bs_owner := InsideSet p, bs_thr := map disturb (bs_thr s)\<rparr>)"
| work: "bs_owner s = InsideSet p \<Longrightarrow> ys = apply_set_op p (ss_set (bs_obj s)) \<Longrightarrow>
     buddies_step s (s\<lparr>bs_obj := (bs_obj s)\<lparr>ss_set := ys\<rparr>, bs_owner := Unlocking, bs_past := insert ys (bs_past s)\<rparr>)"
| unlock: "bs_owner s = Unlocking \<Longrightarrow>
     buddies_step s (s\<lparr>bs_obj := (bs_obj s)\<lparr>ss_wrlocked := False\<rparr>, bs_owner := OutsideSet\<rparr>)"
| begin_copy: "t < length (bs_thr s) \<Longrightarrow> bs_thr s ! t = Elsewhere \<Longrightarrow>
     buddies_step s (s\<lparr>bs_thr := (bs_thr s)[t := CopyingSet (\<not> in_set_op (bs_owner s))]\<rparr>)"
| end_set: "t < length (bs_thr s) \<Longrightarrow> bs_thr s ! t = CopyingSet b \<Longrightarrow>
     buddies_step s (s\<lparr>bs_thr := (bs_thr s)[t := SetCopied (if b then Some (ss_set (bs_obj s)) else None)]\<rparr>)"
| copy_lock: "t < length (bs_thr s) \<Longrightarrow> bs_thr s ! t = SetCopied x \<Longrightarrow>
     buddies_step s (s\<lparr>bs_thr := (bs_thr s)[t := Copied x (ss_wrlocked (bs_obj s))]\<rparr>)"
| rdlock: "t < length (bs_thr s) \<Longrightarrow> bs_thr s ! t = Copied x False \<Longrightarrow>
     buddies_step s (s\<lparr>bs_thr := (bs_thr s)[t := Reading x]\<rparr>)"
| finish: "t < length (bs_thr s) \<Longrightarrow> bs_thr s ! t = Reading x \<Longrightarrow> buddies_step s (s\<lparr>bs_thr := (bs_thr s)[t := Elsewhere]\<rparr>)"

abbreviation buddies_reachable :: "cstring SyncHashSet \<Rightarrow> nat \<Rightarrow> buddies \<Rightarrow> bool" where
  "buddies_reachable xs n \<equiv> reach (\<lambda>s. s = buddies_start xs n) buddies_step"

section \<open>The invariant\<close>

text \<open>A copy under way counts as undisturbed only while no operation is at work; an undisturbed copy is one of the past sets.\<close>

fun copied_set :: "copy_pc \<Rightarrow> cstring SyncHashSet option" where
  "copied_set (SetCopied x) = x"
| "copied_set (Copied x l) = x"
| "copied_set (Reading x) = x"
| "copied_set _ = None"

definition copy_ok :: "owner_pc \<Rightarrow> cstring SyncHashSet set \<Rightarrow> copy_pc \<Rightarrow> bool" where
  "copy_ok w past p \<longleftrightarrow> (in_set_op w \<longrightarrow> p \<noteq> CopyingSet True) \<and> (\<forall>xs. copied_set p = Some xs \<longrightarrow> xs \<in> past)"

definition buddies_inv :: "buddies \<Rightarrow> bool" where
  "buddies_inv s \<longleftrightarrow> ss_set (bs_obj s) \<in> bs_past s \<and> (ss_wrlocked (bs_obj s) \<longleftrightarrow> bs_owner s \<noteq> OutsideSet) \<and>
     (\<forall>xs \<in> bs_past s. distinct xs) \<and> (\<forall>p \<in> set (bs_thr s). copy_ok (bs_owner s) (bs_past s) p)"

lemma copied_set_disturb [simp]: "copied_set (disturb p) = copied_set p"
  by (cases p) simp_all

lemma disturb_dirty [simp]: "disturb p \<noteq> CopyingSet True"
  by (cases p) simp_all

lemma distinct_apply_set_op: "distinct xs \<Longrightarrow> distinct (apply_set_op p xs)"
  by (cases p) (simp_all add: shs.inv_insert shs.inv_erase)

lemma buddies_inv_thread:
  assumes "buddies_inv s" "copy_ok (bs_owner s) (bs_past s) p"
  shows "buddies_inv (s\<lparr>bs_thr := (bs_thr s)[t := p]\<rparr>)"
  using assms set_update_subset_insert[of "bs_thr s" t p] by (auto simp: buddies_inv_def)

lemma buddies_inv_at:
  "buddies_inv s \<Longrightarrow> t < length (bs_thr s) \<Longrightarrow> bs_thr s ! t = p \<Longrightarrow> copy_ok (bs_owner s) (bs_past s) p"
  by (auto simp: buddies_inv_def)

lemma buddies_inv_step:
  assumes "buddies_step s s'" "buddies_inv s"
  shows "buddies_inv s'"
  using assms(1)
proof cases
  case (work p ys)
  then have "distinct ys" using assms(2) distinct_apply_set_op by (simp add: buddies_inv_def)
  with assms(2) work show ?thesis by (auto simp: buddies_inv_def copy_ok_def)
next
  case (begin_copy t)
  then show ?thesis using buddies_inv_thread[OF assms(2)] by (simp add: copy_ok_def)
next
  case (end_set t b)
  have "copy_ok (bs_owner s) (bs_past s) (SetCopied (if b then Some (ss_set (bs_obj s)) else None))"
    using assms(2) by (simp add: copy_ok_def buddies_inv_def)
  with end_set show ?thesis using buddies_inv_thread[OF assms(2)] by simp
next
  case (copy_lock t x)
  then show ?thesis using buddies_inv_thread[OF assms(2)] buddies_inv_at[OF assms(2) copy_lock(2,3)] by (simp add: copy_ok_def)
next
  case (rdlock t x)
  then show ?thesis using buddies_inv_thread[OF assms(2)] buddies_inv_at[OF assms(2) rdlock(2,3)] by (simp add: copy_ok_def)
next
  case (finish t x)
  then show ?thesis using buddies_inv_thread[OF assms(2)] by (simp add: copy_ok_def)
qed (use assms(2) in \<open>auto simp: buddies_inv_def copy_ok_def\<close>)

interpretation buddies: inductive_invariant "\<lambda>s. distinct xs \<and> s = buddies_start xs n" buddies_step buddies_inv for xs n
proof
  show "buddies_inv s" if "distinct xs \<and> s = buddies_start xs n" for s
    using that by (simp add: buddies_start_def buddies_inv_def copy_ok_def)
qed (rule buddies_inv_step)

section \<open>The runs\<close>

text \<open>Nobody unlocks the copy a thread waits for.\<close>

definition waits_forever :: "nat \<Rightarrow> buddies \<Rightarrow> bool" where
  "waits_forever t s \<longleftrightarrow> t < length (bs_thr s) \<and> (\<exists>x. bs_thr s ! t = Copied x True)"

interpretation waits: inductive_invariant "waits_forever t" buddies_step "waits_forever t" for t
  by unfold_locales (auto elim!: buddies_step.cases simp: waits_forever_def nth_list_update)

text \<open>Thread \<open>t\<close> alone is not elsewhere; the object and the owner are given.\<close>

definition at_point :: "nat \<Rightarrow> nat \<Rightarrow> copy_pc \<Rightarrow> owner_pc \<Rightarrow> cstring SyncHashSet \<Rightarrow> cstring SyncHashSet set \<Rightarrow> buddies" where
  "at_point n t p w xs past = \<lparr>bs_obj = \<lparr>ss_set = xs, ss_wrlocked = (w \<noteq> OutsideSet)\<rparr>, bs_owner = w,
     bs_thr = (replicate n Elsewhere)[t := p], bs_past = past\<rparr>"

lemma at_point_obj [simp]: "bs_obj (at_point n t p w xs past) = \<lparr>ss_set = xs, ss_wrlocked = (w \<noteq> OutsideSet)\<rparr>"
  by (simp add: at_point_def)

lemma map_disturb: "map disturb ((replicate n Elsewhere)[t := p]) = (replicate n Elsewhere)[t := disturb p]"
  by (simp add: map_update)

lemma at_point_start: "t < n \<Longrightarrow> buddies_reachable xs n (at_point n t Elsewhere OutsideSet xs {xs})"
proof -
  assume "t < n"
  then have "(replicate n Elsewhere)[t := Elsewhere] = replicate n Elsewhere" by (metis list_update_id nth_replicate)
  then have "at_point n t Elsewhere OutsideSet xs {xs} = buddies_start xs n" by (simp add: at_point_def buddies_start_def)
  then show ?thesis using reach_init by simp
qed

lemma at_point_owner:
  shows at_wrlock: "buddies_step (at_point n t p OutsideSet xs past) (at_point n t p (Locked q) xs past)"
    and at_enter: "buddies_step (at_point n t p (Locked q) xs past) (at_point n t (disturb p) (InsideSet q) xs past)"
    and at_work: "buddies_step (at_point n t p (InsideSet q) xs past)
      (at_point n t p Unlocking (apply_set_op q xs) (insert (apply_set_op q xs) past))"
    and at_unlock: "buddies_step (at_point n t p Unlocking xs past) (at_point n t p OutsideSet xs past)"
  using buddies_step.wrlock[of "at_point n t p OutsideSet xs past" q] buddies_step.enter[of "at_point n t p (Locked q) xs past" q]
    buddies_step.work[of "at_point n t p (InsideSet q) xs past" q] buddies_step.unlock[of "at_point n t p Unlocking xs past"]
  by (simp_all add: at_point_def map_disturb)

lemma at_point_thread:
  assumes "t < n"
  shows at_begin: "buddies_step (at_point n t Elsewhere w xs past) (at_point n t (CopyingSet (\<not> in_set_op w)) w xs past)"
    and at_end_set: "buddies_step (at_point n t (CopyingSet b) w xs past)
      (at_point n t (SetCopied (if b then Some xs else None)) w xs past)"
    and at_copy_lock: "buddies_step (at_point n t (SetCopied x) w xs past) (at_point n t (Copied x (w \<noteq> OutsideSet)) w xs past)"
    and at_rdlock: "buddies_step (at_point n t (Copied x False) w xs past) (at_point n t (Reading x) w xs past)"
  using buddies_step.begin_copy[of t "at_point n t Elsewhere w xs past"]
    buddies_step.end_set[of t "at_point n t (CopyingSet b) w xs past" b, unfolded at_point_obj sync_set.simps]
    buddies_step.copy_lock[of t "at_point n t (SetCopied x) w xs past" x] buddies_step.rdlock[of t "at_point n t (Copied x False) w xs past" x]
    assms by (simp_all add: at_point_def)

text \<open>The thread begins to copy the set before the command server takes the lock.\<close>

lemma copy_before_lock:
  assumes "t < n"
  shows "buddies_reachable xs n (at_point n t (CopyingSet True) OutsideSet xs {xs})"
  using reach.step[OF at_point_start[OF assms] at_begin[OF assms]] by simp

lemma copy_during_write:
  assumes "t < n"
  shows "buddies_reachable xs n (at_point n t (CopyingSet False) (InsideSet p) xs {xs})"
  using reach.step[OF reach.step[OF copy_before_lock[OF assms] at_wrlock] at_enter] by simp

text \<open>The command server takes the lock after the set has been copied and before the lock is.\<close>

lemma lock_between:
  assumes "t < n"
  shows "buddies_reachable xs n (at_point n t (Copied (Some xs) True) (Locked p) xs {xs})"
proof -
  have "buddies_reachable xs n (at_point n t (SetCopied (Some xs)) OutsideSet xs {xs})"
    using reach.step[OF copy_before_lock[OF assms] at_end_set[OF assms]] by simp
  then have "buddies_reachable xs n (at_point n t (SetCopied (Some xs)) (Locked p) xs {xs})" by (rule reach.step) (rule at_wrlock)
  from reach.step[OF this at_copy_lock[OF assms]] show ?thesis by simp
qed

text \<open>The operation is over, and the lock free again, before the copy of the set is.\<close>

lemma torn_copy:
  assumes "t < n"
  shows "\<exists>s. buddies_reachable xs n s \<and> bs_thr s ! t = Reading None"
proof -
  let ?ys = "apply_set_op p xs" and ?past = "insert (apply_set_op p xs) {xs}"
  have "buddies_reachable xs n (at_point n t (CopyingSet False) OutsideSet ?ys ?past)"
    using reach.step[OF reach.step[OF copy_during_write[OF assms] at_work] at_unlock] .
  from reach.step[OF this at_end_set[OF assms]]
  have "buddies_reachable xs n (at_point n t (SetCopied None) OutsideSet ?ys ?past)" by simp
  from reach.step[OF this at_copy_lock[OF assms]]
  have "buddies_reachable xs n (at_point n t (Copied None False) OutsideSet ?ys ?past)" by simp
  from reach.step[OF this at_rdlock[OF assms]] show ?thesis
    using assms by (intro exI[of _ "at_point n t (Reading None) OutsideSet ?ys ?past"]) (simp add: at_point_def)
qed

text \<open>
  C40: the copy of the buddies. For any number of broadcast threads, whatever operation the command server does on
  the set: a thread can be copying the set while the command server is inside \<open>insert\<close> or \<open>erase\<close> on it, and
  such a copy can pass its lock, so that the thread goes through a set with unknown content; and if
  the command server takes the lock after the set has been copied and before the lock has, the thread waits for a
  lock that nobody can release, in every state that follows: that broadcast thread never sends again and
  cannot be joined. Only a copy of the set with which no operation overlapped is known: it is a set
  that the user had, without duplicates.
\<close>

theorem buddies_copy:
  assumes "distinct xs" "t < n"
  shows "(\<exists>s. buddies_reachable xs n s \<and> bs_owner s = InsideSet p \<and> bs_thr s ! t = CopyingSet False) \<and>
    (\<exists>s. buddies_reachable xs n s \<and> bs_thr s ! t = Reading None) \<and>
    (\<exists>s. buddies_reachable xs n s \<and> (\<forall>s'. buddies_step\<^sup>*\<^sup>* s s' \<longrightarrow> (\<exists>x. bs_thr s' ! t = Copied x True))) \<and>
    (\<forall>s. buddies_reachable xs n s \<longrightarrow> (in_set_op (bs_owner s) \<longrightarrow> CopyingSet True \<notin> set (bs_thr s)) \<and>
      (\<forall>ys. Reading (Some ys) \<in> set (bs_thr s) \<longrightarrow> ys \<in> bs_past s \<and> distinct ys))"
proof (intro conjI)
  show "\<exists>s. buddies_reachable xs n s \<and> bs_owner s = InsideSet p \<and> bs_thr s ! t = CopyingSet False"
    using copy_during_write[OF assms(2), of xs p] assms(2)
    by (intro exI[of _ "at_point n t (CopyingSet False) (InsideSet p) xs {xs}"]) (simp add: at_point_def)
  show "\<exists>s. buddies_reachable xs n s \<and> bs_thr s ! t = Reading None" by (rule torn_copy[OF assms(2)])
  let ?s = "at_point n t (Copied (Some xs) True) (Locked p) xs {xs}"
  have w: "waits_forever t ?s" using assms(2) by (simp add: waits_forever_def at_point_def)
  have "\<exists>x. bs_thr s' ! t = Copied x True" if "buddies_step\<^sup>*\<^sup>* ?s s'" for s'
    using waits.steps_inv[OF that w] by (simp add: waits_forever_def)
  with lock_between[OF assms(2), of xs p]
  show "\<exists>s. buddies_reachable xs n s \<and> (\<forall>s'. buddies_step\<^sup>*\<^sup>* s s' \<longrightarrow> (\<exists>x. bs_thr s' ! t = Copied x True))" by blast
  show "\<forall>s. buddies_reachable xs n s \<longrightarrow> (in_set_op (bs_owner s) \<longrightarrow> CopyingSet True \<notin> set (bs_thr s)) \<and>
      (\<forall>ys. Reading (Some ys) \<in> set (bs_thr s) \<longrightarrow> ys \<in> bs_past s \<and> distinct ys)"
  proof (intro allI impI)
    fix s assume s: "buddies_reachable xs n s"
    from s have "reach (\<lambda>s. distinct xs \<and> s = buddies_start xs n) buddies_step s" using assms(1) by simp
    from buddies.reach_inv[OF this] show "(in_set_op (bs_owner s) \<longrightarrow> CopyingSet True \<notin> set (bs_thr s)) \<and>
      (\<forall>ys. Reading (Some ys) \<in> set (bs_thr s) \<longrightarrow> ys \<in> bs_past s \<and> distinct ys)"
      by (fastforce simp: buddies_inv_def copy_ok_def)
  qed
qed

theorem buddies_copy_witness:
  "(\<exists>s. buddies_reachable [[65]] 2 s \<and> bs_owner s = InsideSet (SErase [65]) \<and> bs_thr s ! 1 = CopyingSet False) \<and>
   (\<exists>s. buddies_reachable [[65]] 2 s \<and> (\<forall>s'. buddies_step\<^sup>*\<^sup>* s s' \<longrightarrow> (\<exists>x. bs_thr s' ! 1 = Copied x True)))"
  using buddies_copy[of "[[65]]" 1 2 "SErase [65]"] by simp

end
