(* ===== verification/Slot_Protocol.thy ===== *)
theory Slot_Protocol
  imports Broadcast
begin

text \<open>
  The hand-over of a user's position from the GPS server's thread (\<open>processCoordinates\<close>) to the
  broadcast threads (\<open>CoordsBroadcastThread::run\<close>) through the two slots, without a lock: the
  steps of both sides on one user, in any interleaving, for any number of broadcast threads.

  A position is written and copied field by field. \<open>sl_queued\<close> is how often the user's id is on
  the queue; \<open>sl_pub\<close> records the position that was last made ready. The single accesses to
  \<open>ready\<close>, \<open>empty\<close> and a coordinate are taken as atomic and in program order.
\<close>

section \<open>The model\<close>

text \<open>Field \<open>k\<close> of a position, and copying it.\<close>

fun field :: "nat \<Rightarrow> Coordinates \<Rightarrow> i32" where
  "field 0 c = longitude c"
| "field (Suc 0) c = latitude c"
| "field (Suc (Suc k)) c = altitude c"

fun copy_field :: "nat \<Rightarrow> Coordinates \<Rightarrow> Coordinates \<Rightarrow> Coordinates" where
  "copy_field 0 c d = d\<lparr>longitude := longitude c\<rparr>"
| "copy_field (Suc 0) c d = d\<lparr>latitude := latitude c\<rparr>"
| "copy_field (Suc (Suc k)) c d = d\<lparr>altitude := altitude c\<rparr>"

datatype gps_pc = GIdle | GWrite Coordinates nat | GSwap | GPut

datatype bc_pc = BIdle | BPulled | BCopy slot nat Coordinates | BSend Coordinates

record slots =
  sl_empty :: slot
  sl_ready :: "slot option"
  sl_mem :: "slot \<Rightarrow> Coordinates"
  sl_queued :: nat
  sl_gps :: gps_pc
  sl_bc :: "bc_pc list"
  sl_pub :: Coordinates
  sl_recv :: "Coordinates set"

definition sl_start :: "nat \<Rightarrow> slots" where
  "sl_start n = \<lparr>sl_empty = Slot1, sl_ready = None, sl_mem = (\<lambda>_. zero_coords), sl_queued = 0,
     sl_gps = GIdle, sl_bc = replicate n BIdle, sl_pub = zero_coords, sl_recv = {}\<rparr>"

inductive sl_step :: "slots \<Rightarrow> slots \<Rightarrow> bool" where
  receive: "sl_gps s = GIdle \<Longrightarrow> sl_step s (s\<lparr>sl_gps := GWrite c 0, sl_recv := insert c (sl_recv s)\<rparr>)"
| gps_write: "sl_gps s = GWrite c k \<Longrightarrow> k < 3 \<Longrightarrow>
     sl_step s (s\<lparr>sl_mem := (sl_mem s)(sl_empty s := copy_field k c (sl_mem s (sl_empty s))), sl_gps := GWrite c (Suc k)\<rparr>)"
| busy: "sl_gps s = GWrite c 3 \<Longrightarrow> sl_ready s \<noteq> None \<Longrightarrow> sl_step s (s\<lparr>sl_gps := GIdle\<rparr>)"
| publish: "sl_gps s = GWrite c 3 \<Longrightarrow> sl_ready s = None \<Longrightarrow>
     sl_step s (s\<lparr>sl_ready := Some (sl_empty s), sl_pub := c, sl_gps := GSwap\<rparr>)"
| swap: "sl_gps s = GSwap \<Longrightarrow> sl_step s (s\<lparr>sl_empty := otherSlot (sl_empty s), sl_gps := GPut\<rparr>)"
| put: "sl_gps s = GPut \<Longrightarrow> sl_step s (s\<lparr>sl_queued := Suc (sl_queued s), sl_gps := GIdle\<rparr>)"
| pull: "t < length (sl_bc s) \<Longrightarrow> sl_bc s ! t = BIdle \<Longrightarrow> sl_queued s = Suc q \<Longrightarrow>
     sl_step s (s\<lparr>sl_queued := q, sl_bc := (sl_bc s)[t := BPulled]\<rparr>)"
| null: "t < length (sl_bc s) \<Longrightarrow> sl_bc s ! t = BPulled \<Longrightarrow> sl_ready s = None \<Longrightarrow>
     sl_step s (s\<lparr>sl_bc := (sl_bc s)[t := BIdle]\<rparr>)"
| begin_copy: "t < length (sl_bc s) \<Longrightarrow> sl_bc s ! t = BPulled \<Longrightarrow> sl_ready s = Some r \<Longrightarrow>
     sl_step s (s\<lparr>sl_bc := (sl_bc s)[t := BCopy r 0 d]\<rparr>)"
| copy: "t < length (sl_bc s) \<Longrightarrow> sl_bc s ! t = BCopy r k d \<Longrightarrow> k < 3 \<Longrightarrow>
     sl_step s (s\<lparr>sl_bc := (sl_bc s)[t := BCopy r (Suc k) (copy_field k (sl_mem s r) d)]\<rparr>)"
| copied: "t < length (sl_bc s) \<Longrightarrow> sl_bc s ! t = BCopy r 3 d \<Longrightarrow>
     sl_step s (s\<lparr>sl_bc := (sl_bc s)[t := BSend d]\<rparr>)"
| clear: "t < length (sl_bc s) \<Longrightarrow> sl_bc s ! t = BSend d \<Longrightarrow>
     sl_step s (s\<lparr>sl_ready := None, sl_bc := (sl_bc s)[t := BIdle]\<rparr>)"

abbreviation sl_reachable :: "nat \<Rightarrow> slots \<Rightarrow> bool" where
  "sl_reachable n \<equiv> reach (\<lambda>s. s = sl_start n) sl_step"

section \<open>The invariant\<close>

definition serving :: "bc_pc \<Rightarrow> bool" where "serving p \<longleftrightarrow> p \<noteq> BIdle"

definition publishing :: "gps_pc \<Rightarrow> nat" where
  "publishing g = (if g = GSwap \<or> g = GPut then 1 else 0)"

text \<open>
  The right to use the ready slot is in exactly one place while \<open>ready\<close> is set (the GPS thread
  that is publishing, the queue or one broadcast thread) and nowhere otherwise.
\<close>

definition sl_tokens :: "slots \<Rightarrow> nat" where
  "sl_tokens s = publishing (sl_gps s) + sl_queued s + count_if serving (sl_bc s)"

definition thread_ok :: "slot option \<Rightarrow> Coordinates \<Rightarrow> bc_pc \<Rightarrow> bool" where
  "thread_ok rd pub p \<longleftrightarrow> (case p of
     BIdle \<Rightarrow> True
   | BPulled \<Rightarrow> True
   | BCopy r k d \<Rightarrow> rd = Some r \<and> k \<le> 3 \<and> (\<forall>j < k. field j d = field j pub)
   | BSend d \<Rightarrow> d = pub)"

definition sl_inv :: "slots \<Rightarrow> bool" where
  "sl_inv s \<longleftrightarrow>
     sl_tokens s = (if sl_ready s = None then 0 else 1) \<and>
     (\<forall>p \<in> set (sl_bc s). thread_ok (sl_ready s) (sl_pub s) p) \<and>
     (\<forall>r. sl_ready s = Some r \<longrightarrow> sl_mem s r = sl_pub s \<and> sl_pub s \<in> sl_recv s \<and>
        (r = sl_empty s \<longleftrightarrow> sl_gps s = GSwap)) \<and>
     (\<forall>c k. sl_gps s = GWrite c k \<longrightarrow> c \<in> sl_recv s \<and> k \<le> 3 \<and> (\<forall>j < k. field j (sl_mem s (sl_empty s)) = field j c))"

lemma otherSlot_neq [simp]: "otherSlot s \<noteq> s" "s \<noteq> otherSlot s"
  by (cases s; simp add: otherSlot_def)+

lemma field_eqI: "(\<And>j. j < 3 \<Longrightarrow> field j c = field j d) \<Longrightarrow> c = d" for c d :: Coordinates
proof -
  assume a: "\<And>j. j < 3 \<Longrightarrow> field j c = field j d"
  show "c = d" using a[of 0] a[of 1] a[of 2] by (simp add: numeral_2_eq_2)
qed

lemma field_copy: "j < Suc k \<Longrightarrow> k < 3 \<Longrightarrow> (j < k \<Longrightarrow> field j d = field j c) \<Longrightarrow> field j (copy_field k c d) = field j c"
proof -
  assume a: "j < Suc k" "k < 3" "j < k \<Longrightarrow> field j d = field j c"
  then consider "k = 0" | "k = 1" | "k = 2" by linarith
  then show ?thesis
  proof cases
    case 1
    then show ?thesis using a by simp
  next
    case 2
    then show ?thesis using a by (cases j) auto
  next
    case 3
    consider "j = 0" | "j = 1" | "j = 2" using a 3 by linarith
    then show ?thesis using a 3 by cases (auto simp: numeral_2_eq_2)
  qed
qed

lemma sl_inv_start: "sl_inv (sl_start n)"
  by (simp add: sl_inv_def sl_start_def sl_tokens_def publishing_def count_if_0 serving_def thread_ok_def)

text \<open>A thread that is not idle holds the only right to the ready slot.\<close>

lemma sl_inv_serving:
  assumes "sl_inv s" "p \<in> set (sl_bc s)" "serving p"
  shows "sl_ready s \<noteq> None" "sl_queued s = 0" "publishing (sl_gps s) = 0" "count_if serving (sl_bc s) = 1"
proof -
  have "count_if serving (sl_bc s) \<noteq> 0" using assms(2,3) by (auto simp: count_if_0)
  moreover have "sl_tokens s \<le> 1" "sl_tokens s = 0 \<longleftrightarrow> sl_ready s = None"
    using assms(1) by (auto simp: sl_inv_def)
  ultimately show "sl_ready s \<noteq> None" "sl_queued s = 0" "publishing (sl_gps s) = 0"
      "count_if serving (sl_bc s) = 1"
    by (auto simp: sl_tokens_def)
qed

lemma sl_inv_null_idle:
  assumes "sl_inv s" "sl_ready s = None"
  shows "\<forall>p \<in> set (sl_bc s). p = BIdle" "sl_queued s = 0" "publishing (sl_gps s) = 0"
proof -
  have t: "sl_tokens s = 0" using assms by (simp add: sl_inv_def)
  show "\<forall>p \<in> set (sl_bc s). p = BIdle" using sl_inv_serving(1)[OF assms(1)] assms(2) by (auto simp: serving_def)
  show "sl_queued s = 0" "publishing (sl_gps s) = 0" using t by (auto simp: sl_tokens_def)
qed

text \<open>Steps of the GPS thread.\<close>

lemma thread_ok_simps [simp]:
  "thread_ok rd pub BIdle" "thread_ok rd pub BPulled" "thread_ok rd pub (BSend d) \<longleftrightarrow> d = pub"
  by (simp_all add: thread_ok_def)

lemma thread_ok_copy:
  "thread_ok rd pub (BCopy r k d) \<longleftrightarrow> rd = Some r \<and> k \<le> 3 \<and> (\<forall>j < k. field j d = field j pub)"
  by (simp add: thread_ok_def)

lemma thread_ok_idle: "\<forall>p \<in> set ps. p = BIdle \<Longrightarrow> \<forall>p \<in> set ps. thread_ok rd pub p"
  by auto

lemma sl_inv_gps_write:
  assumes i: "sl_inv s" and g: "sl_gps s = GWrite c k" "k < 3"
  shows "sl_inv (s\<lparr>sl_mem := (sl_mem s)(sl_empty s := copy_field k c (sl_mem s (sl_empty s))), sl_gps := GWrite c (Suc k)\<rparr>)"
proof -
  have w: "c \<in> sl_recv s" "\<forall>j < k. field j (sl_mem s (sl_empty s)) = field j c"
    using i g by (auto simp: sl_inv_def)
  have f: "\<forall>j < Suc k. field j (copy_field k c (sl_mem s (sl_empty s))) = field j c"
    using w(2) g(2) by (auto intro: field_copy)
  show ?thesis using i g w(1) f
    by (auto simp: sl_inv_def sl_tokens_def publishing_def)
qed

lemma sl_inv_publish:
  assumes i: "sl_inv s" and g: "sl_gps s = GWrite c 3" and n: "sl_ready s = None"
  shows "sl_inv (s\<lparr>sl_ready := Some (sl_empty s), sl_pub := c, sl_gps := GSwap\<rparr>)"
proof -
  have "c \<in> sl_recv s" "\<forall>j < 3. field j (sl_mem s (sl_empty s)) = field j c"
    using i g by (auto simp: sl_inv_def)
  then have "c \<in> sl_recv s" "sl_mem s (sl_empty s) = c" by (auto intro: field_eqI)
  moreover have "count_if serving (sl_bc s) = 0"
    using sl_inv_null_idle(1)[OF i n] by (simp add: count_if_0 serving_def)
  ultimately show ?thesis using sl_inv_null_idle(2,3)[OF i n] thread_ok_idle[OF sl_inv_null_idle(1)[OF i n]]
    by (simp add: sl_inv_def sl_tokens_def publishing_def)
qed

lemma sl_inv_swap:
  assumes i: "sl_inv s" and g: "sl_gps s = GSwap"
  shows "sl_inv (s\<lparr>sl_empty := otherSlot (sl_empty s), sl_gps := GPut\<rparr>)"
  using i g by (auto simp: sl_inv_def sl_tokens_def publishing_def)

lemma sl_inv_put:
  assumes i: "sl_inv s" and g: "sl_gps s = GPut"
  shows "sl_inv (s\<lparr>sl_queued := Suc (sl_queued s), sl_gps := GIdle\<rparr>)"
  using i g by (auto simp: sl_inv_def sl_tokens_def publishing_def)

text \<open>Steps of a broadcast thread that keep \<open>ready\<close>: the thread moves on, the right moves with it.\<close>

lemma sl_inv_thread:
  assumes i: "sl_inv s" and t: "t < length (sl_bc s)" and p: "thread_ok (sl_ready s) (sl_pub s) p"
    and q: "q + (if serving p then 1 else 0) = sl_queued s + (if serving (sl_bc s ! t) then 1 else 0)"
  shows "sl_inv (s\<lparr>sl_queued := q, sl_bc := (sl_bc s)[t := p]\<rparr>)"
proof -
  have "q + count_if serving ((sl_bc s)[t := p]) = sl_queued s + count_if serving (sl_bc s)"
    using count_if_update[OF t, of serving p] q by (auto split: if_splits)
  moreover have "\<forall>x \<in> set ((sl_bc s)[t := p]). thread_ok (sl_ready s) (sl_pub s) x"
    using i p set_update_subset_insert[of "sl_bc s" t p] by (auto simp: sl_inv_def)
  ultimately show ?thesis using i by (simp add: sl_inv_def sl_tokens_def)
qed

lemma sl_inv_clear:
  assumes i: "sl_inv s" and t: "t < length (sl_bc s)" and b: "sl_bc s ! t = BSend d"
  shows "sl_inv (s\<lparr>sl_ready := None, sl_bc := (sl_bc s)[t := BIdle]\<rparr>)"
proof -
  have s: "sl_queued s = 0" "publishing (sl_gps s) = 0" "count_if serving (sl_bc s) = 1"
    using sl_inv_serving[OF i, of "BSend d"] nth_mem[OF t] b by (simp_all add: serving_def)
  have c: "count_if serving ((sl_bc s)[t := BIdle]) = 0"
    using count_if_update[OF t, of serving BIdle] s(3) b by (simp add: serving_def)
  then have "\<forall>p \<in> set ((sl_bc s)[t := BIdle]). p = BIdle" by (simp add: count_if_0 serving_def)
  then have "\<forall>p \<in> set ((sl_bc s)[t := BIdle]). thread_ok None (sl_pub s) p" by (rule thread_ok_idle)
  then show ?thesis using i s(1,2) c by (simp add: sl_inv_def sl_tokens_def)
qed

lemmas sl_inv_steps = sl_inv_gps_write sl_inv_publish sl_inv_swap sl_inv_put sl_inv_clear

text \<open>Every step keeps the invariant.\<close>

lemma sl_inv_step:
  assumes "sl_step s s'" "sl_inv s"
  shows "sl_inv s'"
  using assms
proof (induction rule: sl_step.induct)
  case (receive s c)
  then show ?case by (auto simp: sl_inv_def sl_tokens_def publishing_def)
next
  case (busy s c)
  then show ?case by (auto simp: sl_inv_def sl_tokens_def publishing_def)
next
  case (pull t s q)
  then show ?case using sl_inv_thread[of s t BPulled q] by (simp add: serving_def thread_ok_copy)
next
  case (null t s)
  then show ?case using sl_inv_null_idle(1)[of s] nth_mem[of t "sl_bc s"] by auto
next
  case (begin_copy t s r d)
  then show ?case using sl_inv_thread[of s t "BCopy r 0 d" "sl_queued s"]
    by (simp add: serving_def thread_ok_copy)
next
  case (copy t s r k d)
  have o: "thread_ok (sl_ready s) (sl_pub s) (BCopy r k d)" using copy nth_mem[of t "sl_bc s"] by (auto simp: sl_inv_def)
  then have "sl_mem s r = sl_pub s" using copy(4) by (auto simp: sl_inv_def thread_ok_copy)
  with o copy(3) have "thread_ok (sl_ready s) (sl_pub s) (BCopy r (Suc k) (copy_field k (sl_mem s r) d))"
    by (auto simp: thread_ok_copy intro: field_copy)
  then show ?case using copy sl_inv_thread[of s t "BCopy r (Suc k) (copy_field k (sl_mem s r) d)" "sl_queued s"]
    by (simp add: serving_def)
next
  case (copied t s r d)
  have "thread_ok (sl_ready s) (sl_pub s) (BCopy r 3 d)" using copied nth_mem[of t "sl_bc s"] by (auto simp: sl_inv_def)
  then have "d = sl_pub s" by (auto simp: thread_ok_copy intro: field_eqI)
  then show ?case using copied sl_inv_thread[of s t "BSend d" "sl_queued s"]
    by (simp add: serving_def thread_ok_copy)
qed (auto intro: sl_inv_steps)

interpretation slm: inductive_invariant "\<lambda>s. s = sl_start n" sl_step sl_inv for n
  by unfold_locales (auto intro: sl_inv_start sl_inv_step)

section \<open>The steps and the sequential handlers\<close>

text \<open>The GPS thread's steps for one position, without interruption.\<close>

lemma copy_all: "copy_field 2 c (copy_field 1 c (copy_field 0 c d)) = c" for c d :: Coordinates
  by (simp add: numeral_2_eq_2)

lemma gps_writes:
  assumes "sl_gps s = GIdle"
  shows "sl_step\<^sup>*\<^sup>* s (s\<lparr>sl_mem := (sl_mem s)(sl_empty s := c), sl_gps := GWrite c 3, sl_recv := insert c (sl_recv s)\<rparr>)"
proof -
  let ?r = "s\<lparr>sl_gps := GWrite c 0, sl_recv := insert c (sl_recv s)\<rparr>"
  let ?w = "\<lambda>s k. s\<lparr>sl_mem := (sl_mem s)(sl_empty s := copy_field k c (sl_mem s (sl_empty s))), sl_gps := GWrite c (Suc k)\<rparr>"
  have "sl_step s ?r" using assms by (rule receive)
  moreover have "sl_step ?r (?w ?r 0)" by (rule gps_write) simp_all
  moreover have "sl_step (?w ?r 0) (?w (?w ?r 0) 1)" by (rule gps_write) simp_all
  moreover have "sl_step (?w (?w ?r 0) 1) (?w (?w (?w ?r 0) 1) 2)" by (rule gps_write) simp_all
  ultimately have "sl_step\<^sup>*\<^sup>* s (?w (?w (?w ?r 0) 1) 2)" by (meson r_into_rtranclp rtranclp_trans)
  moreover have "?w (?w (?w ?r 0) 1) 2 =
      s\<lparr>sl_mem := (sl_mem s)(sl_empty s := c), sl_gps := GWrite c 3, sl_recv := insert c (sl_recv s)\<rparr>"
    by (rule slots.equality) (simp_all add: fun_eq_iff numeral_2_eq_2 numeral_3_eq_3)
  ultimately show ?thesis by (simp only:)
qed

definition sl_locate :: "Coordinates \<Rightarrow> slots \<Rightarrow> slots" where
  "sl_locate c s =
     (let s = s\<lparr>sl_mem := (sl_mem s)(sl_empty s := c), sl_gps := GIdle, sl_recv := insert c (sl_recv s)\<rparr> in
      if sl_ready s = None
      then s\<lparr>sl_ready := Some (sl_empty s), sl_pub := c, sl_empty := otherSlot (sl_empty s),
             sl_queued := Suc (sl_queued s)\<rparr>
      else s)"

lemma gps_steps:
  assumes g: "sl_gps s = GIdle"
  shows "sl_step\<^sup>*\<^sup>* s (sl_locate c s)"
proof -
  let ?s = "s\<lparr>sl_mem := (sl_mem s)(sl_empty s := c), sl_gps := GWrite c 3, sl_recv := insert c (sl_recv s)\<rparr>"
  have w: "sl_step\<^sup>*\<^sup>* s ?s" by (rule gps_writes[OF g])
  show ?thesis
  proof (cases "sl_ready s")
    case None
    let ?p = "?s\<lparr>sl_ready := Some (sl_empty ?s), sl_pub := c, sl_gps := GSwap\<rparr>"
    let ?q = "?p\<lparr>sl_empty := otherSlot (sl_empty ?p), sl_gps := GPut\<rparr>"
    have "sl_step ?s ?p" by (rule publish) (simp_all add: None)
    moreover have "sl_step ?p ?q" by (rule swap) simp
    moreover have "sl_step ?q (?q\<lparr>sl_queued := Suc (sl_queued ?q), sl_gps := GIdle\<rparr>)" by (rule put) simp
    ultimately have "sl_step\<^sup>*\<^sup>* s (?q\<lparr>sl_queued := Suc (sl_queued ?q), sl_gps := GIdle\<rparr>)"
      using w by (meson rtranclp.rtrancl_into_rtrancl)
    moreover have "?q\<lparr>sl_queued := Suc (sl_queued ?q), sl_gps := GIdle\<rparr> = sl_locate c s"
      using None by (intro slots.equality) (simp_all add: sl_locate_def)
    ultimately show ?thesis by (simp only:)
  next
    case (Some r)
    have "sl_step ?s (?s\<lparr>sl_gps := GIdle\<rparr>)" by (rule busy) (simp_all add: Some)
    then have "sl_step\<^sup>*\<^sup>* s (?s\<lparr>sl_gps := GIdle\<rparr>)" using w by (meson rtranclp.rtrancl_into_rtrancl)
    moreover have "?s\<lparr>sl_gps := GIdle\<rparr> = sl_locate c s"
      using Some by (intro slots.equality) (simp_all add: sl_locate_def)
    ultimately show ?thesis by (simp only:)
  qed
qed

text \<open>A broadcast thread's steps for one pulled id, up to sending the position.\<close>

lemma bcast_steps:
  assumes t: "t < length (sl_bc s)" "sl_bc s ! t = BIdle" and q: "sl_queued s = Suc q" and r: "sl_ready s = Some r"
  shows "sl_step\<^sup>*\<^sup>* s (s\<lparr>sl_queued := q, sl_bc := (sl_bc s)[t := BSend (sl_mem s r)]\<rparr>)"
proof -
  let ?b = "\<lambda>p. s\<lparr>sl_queued := q, sl_bc := (sl_bc s)[t := p]\<rparr>"
  let ?c = "\<lambda>k d. copy_field k (sl_mem s r) d"
  have "sl_step s (?b BPulled)" by (rule pull) (use t q in simp_all)
  moreover have "sl_step (?b BPulled) (?b (BCopy r 0 zero_coords))"
    using begin_copy[of t "?b BPulled" r zero_coords] t r by simp
  moreover have c: "sl_step (?b (BCopy r k d)) (?b (BCopy r (Suc k) (?c k d)))" if "k < 3" for k d
    using copy[of t "?b (BCopy r k d)" r k d] t that by simp
  moreover have "sl_step (?b (BCopy r 3 d)) (?b (BSend d))" for d
    using copied[of t "?b (BCopy r 3 d)" r d] t by simp
  ultimately have "sl_step\<^sup>*\<^sup>* s (?b (BSend (?c 2 (?c 1 (?c 0 zero_coords)))))"
    using c[of 0 zero_coords] c[of 1 "?c 0 zero_coords"] c[of 2 "?c 1 (?c 0 zero_coords)"]
    by (simp add: numeral_2_eq_2 numeral_3_eq_3) (meson r_into_rtranclp rtranclp_trans)
  then show ?thesis by (simp only: copy_all)
qed

section \<open>The properties\<close>

text \<open>
  C6: However the GPS thread and any number of broadcast threads interleave on one user, the
  user's id is on the queue at most once; at most one broadcast thread serves the user, and while
  one does the id is not on the queue; the slot the GPS thread is writing is never the slot a
  broadcast thread is copying from; and what a broadcast thread sends is one complete position
  that was received, never a mixture of two.
\<close>

theorem slot_protocol:
  assumes "sl_reachable n s"
  shows "sl_queued s \<le> 1 \<and>
    (\<forall>t < length (sl_bc s). \<forall>t' < length (sl_bc s).
       serving (sl_bc s ! t) \<and> serving (sl_bc s ! t') \<longrightarrow> t = t' \<and> sl_queued s = 0) \<and>
    (\<forall>r k d c j. BCopy r k d \<in> set (sl_bc s) \<and> sl_gps s = GWrite c j \<longrightarrow> r \<noteq> sl_empty s) \<and>
    (\<forall>d. BSend d \<in> set (sl_bc s) \<longrightarrow> d \<in> sl_recv s)"
proof (intro conjI allI impI)
  note i = slm.reach_inv[OF assms]
  have "sl_tokens s \<le> 1" using i by (auto simp: sl_inv_def)
  then show "sl_queued s \<le> 1" by (simp add: sl_tokens_def)
  fix t t' assume t: "t < length (sl_bc s)" "t' < length (sl_bc s)"
    and v: "serving (sl_bc s ! t) \<and> serving (sl_bc s ! t')"
  have c: "count_if serving (sl_bc s) = 1" and q: "sl_queued s = 0"
    using sl_inv_serving(2,4)[OF i nth_mem[OF t(1)]] v by simp_all
  show "t = t'" using count_if_unique[of serving "sl_bc s" t t'] c t v by simp
  show "sl_queued s = 0" by (rule q)
next
  note i = slm.reach_inv[OF assms]
  fix r k d c j assume b: "BCopy r k d \<in> set (sl_bc s) \<and> sl_gps s = GWrite c j"
  then have "sl_ready s = Some r" using i by (auto simp: sl_inv_def thread_ok_copy)
  then show "r \<noteq> sl_empty s" using i b by (auto simp: sl_inv_def)
next
  note i = slm.reach_inv[OF assms]
  fix d assume b: "BSend d \<in> set (sl_bc s)"
  then have "d = sl_pub s" using i by (auto simp: sl_inv_def)
  moreover have "sl_ready s \<noteq> None" using sl_inv_serving(1)[OF i b] by (simp add: serving_def)
  ultimately show "d \<in> sl_recv s" using i by (auto simp: sl_inv_def)
qed

text \<open>A position of the witnesses, and the state in which the first of two threads sends it.\<close>

definition some_coords :: Coordinates where
  "some_coords = \<lparr>longitude = 21, latitude = 52, altitude = 100\<rparr>"

theorem slot_protocol_witness:
  "\<exists>s. sl_reachable 2 s \<and> sl_bc s = [BSend some_coords, BIdle] \<and> some_coords \<in> sl_recv s \<and> sl_queued s = 0"
proof -
  let ?s = "sl_locate some_coords (sl_start 2)"
  let ?t = "?s\<lparr>sl_queued := 0, sl_bc := (sl_bc ?s)[0 := BSend (sl_mem ?s Slot1)]\<rparr>"
  have "sl_step\<^sup>*\<^sup>* (sl_start 2) ?s" by (rule gps_steps) (simp add: sl_start_def)
  moreover have "sl_step\<^sup>*\<^sup>* ?s ?t"
    by (rule bcast_steps) (simp_all add: sl_locate_def sl_start_def numeral_2_eq_2)
  ultimately have r: "sl_reachable 2 ?t"
    by (intro reach_steps[OF rtranclp_trans reach_init])
  have b: "sl_bc ?t = [BSend some_coords, BIdle]"
    by (simp add: sl_locate_def sl_start_def numeral_2_eq_2)
  have "some_coords \<in> sl_recv ?t" using slot_protocol[OF r] b by simp
  then show ?thesis using r b by (intro exI[of _ ?t]) simp
qed

text \<open>The slots of a user in the sequential model.\<close>

definition user_slots :: "User \<Rightarrow> slots \<Rightarrow> bool" where
  "user_slots u s \<longleftrightarrow> sl_empty s = u_empty u \<and> sl_ready s = u_ready u \<and> sl_mem s = slotOf u"

lemma all_slot: "(\<forall>x. P x) \<longleftrightarrow> P Slot1 \<and> P Slot2"
  by (metis slot.exhaust)

lemma user_slots_located:
  assumes "user_slots u s" "sl_gps s = GIdle"
  shows "\<exists>u'. users (located r u i c h) r = Some u' \<and> user_slots u' (sl_locate c s) \<and>
    length (uqueue (located r u i c h)) + sl_queued s = length (uqueue h) + sl_queued (sl_locate c s)"
proof -
  have m: "slotOf (setEmpty (setReady (setSlot u e c) x) y) = (slotOf u)(e := c)" for e x y
    by (rule ext, rename_tac t, case_tac t; cases e; simp add: setEmpty_def setReady_def)
  have n: "slotOf (setSlot u e c) = (slotOf u)(e := c)" for e
    by (rule ext, rename_tac t, case_tac t; cases e; simp)
  have p: "u_empty (setSlot u e c) = u_empty u" "u_ready (setSlot u e c) = u_ready u" for e
    by (cases e; simp)+
  show ?thesis using assms
    by (cases "u_ready u")
      (simp_all add: located_def user_slots_def sl_locate_def m n p, simp_all add: setEmpty_def setReady_def)
qed

text \<open>
  C22: processing a position datagram in one go, as the sequential model of the GPS server does,
  is an uninterrupted run of the single accesses of the interleaving model: both end with the same
  slots, and put the user's id on the queue equally often.
\<close>

theorem processCoordinates_refines_steps:
  assumes "toint host_order (gps_buf h) 0 = Inr i" "toint host_order (gps_buf h) 4 = Inr lon"
    "toint host_order (gps_buf h) 8 = Inr lat" "(if n = 16 then toint host_order (gps_buf h) 12 else Inr 0) = Inr z"
    and "id_umap h i = Some (Some r)" "users h r = Some u" "u_addr_udp u = Some a"
    and "socket_equals (their_addr h) a" and "user_slots u s" "sl_gps s = GIdle"
  shows "\<exists>h' u' s'. processCoordinates n h = Inr h' \<and> users h' r = Some u' \<and>
    sl_step\<^sup>*\<^sup>* s s' \<and> sl_gps s' = GIdle \<and> user_slots u' s' \<and>
    \<lparr>longitude = lon, latitude = lat, altitude = z\<rparr> \<in> sl_recv s' \<and>
    length (uqueue h') + sl_queued s = length (uqueue h) + sl_queued s'"
proof -
  let ?c = "\<lparr>longitude = lon, latitude = lat, altitude = z\<rparr>"
  have p: "processCoordinates n h = Inr (located r u i ?c h)"
    using processCoordinates_eq[OF assms(1-7)] assms(8) by simp
  have l: "sl_gps (sl_locate ?c s) = GIdle" "?c \<in> sl_recv (sl_locate ?c s)"
    by (simp_all add: sl_locate_def Let_def)
  show ?thesis
    using user_slots_located[OF assms(9,10), of r i ?c h] gps_steps[OF assms(10), of ?c] p l by blast
qed

theorem processCoordinates_refines_steps_witness:
  "\<exists>h' s'. processCoordinates 12 (hub_two\<lparr>users := (users hub_two)(2 \<mapsto> setAddrUdp (newUser 2 [66]) no_addr),
       gps_buf := map Some (be32 2 @ be32 10 @ be32 20) @ replicate 4 None, their_addr := no_addr\<rparr>) = Inr h' \<and>
     length (uqueue h') = sl_queued s' \<and> sl_step\<^sup>*\<^sup>* (sl_start 2) s'"
proof -
  let ?u = "setAddrUdp (newUser 2 [66]) no_addr"
  let ?b = "map Some (be32 2 @ be32 10 @ be32 20) @ replicate 4 None"
  let ?h = "hub_two\<lparr>users := (users hub_two)(2 \<mapsto> ?u), gps_buf := ?b, their_addr := no_addr\<rparr>"
  have i: "toint host_order (gps_buf ?h) 0 = Inr 2" "toint host_order (gps_buf ?h) 4 = Inr 10"
    "toint host_order (gps_buf ?h) 8 = Inr 20"
    using toint_datagram[of "[]" 0 host_order 2 "be32 10 @ be32 20" "replicate 4 None"]
      toint_datagram[of "be32 2" 4 host_order 10 "be32 20" "replicate 4 None"]
      toint_datagram[of "be32 2 @ be32 10" 8 host_order 20 "[]" "replicate 4 None"] by simp_all
  have u: "user_slots ?u (sl_start 2)"
    by (auto simp: user_slots_def sl_start_def newUser_def user_setters fun_eq_iff all_slot)
  have eq: "socket_equals no_addr no_addr" by (simp add: socket_equals_def)
  have q: "uqueue ?h = []" "sl_queued (sl_start 2) = 0" by (simp_all add: sl_start_def)
  show ?thesis
    using processCoordinates_refines_steps[OF i, of 12 0 2 ?u no_addr "sl_start 2"] u eq q
    by (auto simp: user_setters newUser_def sl_start_def)
qed

end
