(* ===== verification/Blocking_Queue.thy ===== *)
theory Blocking_Queue
  imports Hub_Prelude
begin

text \<open>
  \<open>src/include/thread/BlockingQueue.h\<close> with the mutex and the condition variable it uses: the
  queue of user ids between the GPS server and the broadcast threads, as a step relation over
  any number of threads.

  A thread is outside, wants the mutex for an operation, holds it, waits on the condition
  variable, was woken and wants the mutex back, or has finished the operation and has not yet
  released the mutex. \<open>pthread_cond_signal\<close> wakes one of the waiting threads, and a waiting thread
  may also wake up without a signal. \<open>puts\<close> and \<open>pulls\<close> record what was put and what was returned.
\<close>

section \<open>The model\<close>

datatype 'a op = Put 'a | Pull

datatype 'a pc = Outside | Want "'a op" | Hold "'a op" | Waiting | Woken | Unlocking

record 'a bq =
  bq_queue :: "'a list"
  bq_mtx :: "nat option"
  bq_pc :: "'a pc list"
  bq_puts :: "'a list"
  bq_pulls :: "'a list"

definition BlockingQueue :: "nat \<Rightarrow> 'a bq" where
  "BlockingQueue n =
     \<lparr>bq_queue = [], bq_mtx = None, bq_pc = replicate n Outside, bq_puts = [], bq_pulls = []\<rparr>"

text \<open>\<open>queue.push(t)\<close> and the woken thread \<open>w\<close> of \<open>cond.signal()\<close> (\<open>None\<close>: nobody waits).\<close>

definition bq_put :: "nat \<Rightarrow> 'a \<Rightarrow> nat option \<Rightarrow> 'a bq \<Rightarrow> 'a bq" where
  "bq_put t x w b =
     b\<lparr>bq_queue := bq_queue b @ [x], bq_puts := bq_puts b @ [x],
       bq_pc := (case w of None \<Rightarrow> bq_pc b | Some v \<Rightarrow> (bq_pc b)[v := Woken])[t := Unlocking]\<rparr>"

text \<open>What \<open>pull\<close> does with the mutex held: wait on an empty queue, or take the front.\<close>

definition bq_pull :: "nat \<Rightarrow> 'a bq \<Rightarrow> 'a bq" where
  "bq_pull t b =
     (case bq_queue b of
        [] \<Rightarrow> b\<lparr>bq_mtx := None, bq_pc := (bq_pc b)[t := Waiting]\<rparr>
      | x # q \<Rightarrow> b\<lparr>bq_queue := q, bq_pulls := bq_pulls b @ [x], bq_pc := (bq_pc b)[t := Unlocking]\<rparr>)"

inductive bq_step :: "'a bq \<Rightarrow> 'a bq \<Rightarrow> bool" where
  call: "t < length (bq_pc b) \<Longrightarrow> bq_pc b ! t = Outside \<Longrightarrow> bq_step b (b\<lparr>bq_pc := (bq_pc b)[t := Want p]\<rparr>)"
| lock: "t < length (bq_pc b) \<Longrightarrow> bq_pc b ! t = Want p \<Longrightarrow> bq_mtx b = None \<Longrightarrow>
     bq_step b (b\<lparr>bq_mtx := Some t, bq_pc := (bq_pc b)[t := Hold p]\<rparr>)"
| put_signal: "t < length (bq_pc b) \<Longrightarrow> bq_pc b ! t = Hold (Put x) \<Longrightarrow>
     w < length (bq_pc b) \<Longrightarrow> bq_pc b ! w = Waiting \<Longrightarrow> bq_step b (bq_put t x (Some w) b)"
| put_nobody: "t < length (bq_pc b) \<Longrightarrow> bq_pc b ! t = Hold (Put x) \<Longrightarrow>
     Waiting \<notin> set (bq_pc b) \<Longrightarrow> bq_step b (bq_put t x None b)"
| pull: "t < length (bq_pc b) \<Longrightarrow> bq_pc b ! t = Hold Pull \<Longrightarrow> bq_step b (bq_pull t b)"
| spurious: "t < length (bq_pc b) \<Longrightarrow> bq_pc b ! t = Waiting \<Longrightarrow> bq_step b (b\<lparr>bq_pc := (bq_pc b)[t := Woken]\<rparr>)"
| relock: "t < length (bq_pc b) \<Longrightarrow> bq_pc b ! t = Woken \<Longrightarrow> bq_mtx b = None \<Longrightarrow>
     bq_step b (b\<lparr>bq_mtx := Some t, bq_pc := (bq_pc b)[t := Hold Pull]\<rparr>)"
| unlock: "t < length (bq_pc b) \<Longrightarrow> bq_pc b ! t = Unlocking \<Longrightarrow>
     bq_step b (b\<lparr>bq_mtx := None, bq_pc := (bq_pc b)[t := Outside]\<rparr>)"

abbreviation bq_reachable :: "nat \<Rightarrow> 'a bq \<Rightarrow> bool" where
  "bq_reachable n \<equiv> reach (\<lambda>b. b = BlockingQueue n) bq_step"

section \<open>States of a thread\<close>

definition inside :: "'a pc \<Rightarrow> bool" where
  "inside p \<longleftrightarrow> (case p of Hold _ \<Rightarrow> True | Unlocking \<Rightarrow> True | _ \<Rightarrow> False)"

definition awake :: "'a pc \<Rightarrow> bool" where
  "awake p \<longleftrightarrow> p = Woken \<or> p = Hold Pull"

definition asleep :: "'a pc \<Rightarrow> bool" where
  "asleep p \<longleftrightarrow> p = Waiting"

section \<open>The invariant\<close>

definition bq_inv :: "'a bq \<Rightarrow> bool" where
  "bq_inv b \<longleftrightarrow>
     (\<forall>t < length (bq_pc b). inside (bq_pc b ! t) \<longleftrightarrow> bq_mtx b = Some t) \<and>
     (\<forall>t. bq_mtx b = Some t \<longrightarrow> t < length (bq_pc b)) \<and>
     bq_puts b = bq_pulls b @ bq_queue b \<and>
     (count_if asleep (bq_pc b) > 0 \<longrightarrow> length (bq_queue b) \<le> count_if awake (bq_pc b))"

lemma bq_inv_start: "bq_inv (BlockingQueue n)"
  by (simp add: bq_inv_def BlockingQueue_def inside_def)

definition bq_mutex :: "'a bq \<Rightarrow> bool" where
  "bq_mutex b \<longleftrightarrow> (\<forall>t < length (bq_pc b). inside (bq_pc b ! t) \<longleftrightarrow> bq_mtx b = Some t) \<and>
     (\<forall>t. bq_mtx b = Some t \<longrightarrow> t < length (bq_pc b))"

lemma bq_mutex_step:
  assumes "bq_step b b'" "bq_mutex b"
  shows "bq_mutex b'"
  using assms
proof (cases rule: bq_step.cases)
  case (put_signal t x w)
  then have "w \<noteq> t" by auto
  with put_signal assms(2) show ?thesis
    by (auto simp: bq_mutex_def bq_put_def nth_list_update inside_def)
next
  case (pull t)
  with assms(2) show ?thesis
    by (auto simp: bq_mutex_def bq_pull_def nth_list_update inside_def split: list.splits)
qed (auto simp: bq_mutex_def bq_put_def nth_list_update inside_def)

lemma bq_fifo_step:
  assumes "bq_step b b'" "bq_puts b = bq_pulls b @ bq_queue b"
  shows "bq_puts b' = bq_pulls b' @ bq_queue b'"
  using assms by (cases rule: bq_step.cases) (auto simp: bq_put_def bq_pull_def split: list.splits)

definition wakeups :: "'a bq \<Rightarrow> bool" where
  "wakeups b \<longleftrightarrow> (count_if asleep (bq_pc b) > 0 \<longrightarrow> length (bq_queue b) \<le> count_if awake (bq_pc b))"

lemma wakeups_step:
  assumes "bq_step b b'" "wakeups b"
  shows "wakeups b'"
  using assms
proof (cases rule: bq_step.cases)
  case (put_signal t x w)
  have "w \<noteq> t" using put_signal by auto
  then have w: "w \<noteq> t" "t < length ((bq_pc b)[w := Woken])" "(bq_pc b)[w := Woken] ! t = Hold (Put x)"
    using put_signal by simp_all
  show ?thesis
    using put_signal assms(2) w count_if_update[OF put_signal(4), of awake Woken] count_if_update[OF put_signal(4), of asleep Woken]
      count_if_update[OF w(2), of awake Unlocking] count_if_update[OF w(2), of asleep Unlocking]
    by (auto simp: wakeups_def bq_put_def awake_def asleep_def)
next
  case (put_nobody t x)
  have "count_if asleep (bq_pc b') = 0"
    using put_nobody by (auto simp: count_if_0 asleep_def bq_put_def dest: set_update_subset_insert[THEN subsetD])
  then show ?thesis by (simp add: wakeups_def)
next
  case (pull t)
  then show ?thesis
    using assms(2) count_if_update[OF pull(2), of awake Unlocking] count_if_update[OF pull(2), of asleep Unlocking]
    by (auto simp: wakeups_def bq_pull_def awake_def asleep_def split: list.splits)
next
  case (call t q)
  then show ?thesis
    using assms(2) count_if_update[OF call(2), of awake "Want q"] count_if_update[OF call(2), of asleep "Want q"]
    by (auto simp: wakeups_def awake_def asleep_def)
next
  case (lock t q)
  then show ?thesis
    using assms(2) count_if_update[OF lock(2), of awake "Hold q"] count_if_update[OF lock(2), of asleep "Hold q"]
    by (auto simp: wakeups_def awake_def asleep_def split: if_splits)
next
  case (spurious t)
  then show ?thesis
    using assms(2) count_if_update[OF spurious(2), of awake Woken] count_if_update[OF spurious(2), of asleep Woken]
    by (auto simp: wakeups_def awake_def asleep_def)
next
  case (relock t)
  then show ?thesis
    using assms(2) count_if_update[OF relock(2), of awake "Hold Pull"] count_if_update[OF relock(2), of asleep "Hold Pull"]
    by (auto simp: wakeups_def awake_def asleep_def)
next
  case (unlock t)
  then show ?thesis
    using assms(2) count_if_update[OF unlock(2), of awake Outside] count_if_update[OF unlock(2), of asleep Outside]
    by (auto simp: wakeups_def awake_def asleep_def)
qed

lemma bq_inv_parts: "bq_inv b \<longleftrightarrow> bq_mutex b \<and> bq_puts b = bq_pulls b @ bq_queue b \<and> wakeups b"
  by (auto simp: bq_inv_def bq_mutex_def wakeups_def)

lemma bq_inv_step: "bq_step b b' \<Longrightarrow> bq_inv b \<Longrightarrow> bq_inv b'"
  unfolding bq_inv_parts using bq_mutex_step[of b b'] bq_fifo_step[of b b'] wakeups_step[of b b'] by simp

interpretation bqm: inductive_invariant "\<lambda>b. b = BlockingQueue n" bq_step bq_inv for n
  by unfold_locales (auto intro: bq_inv_start bq_inv_step)

text \<open>
  C13: the queue between threads. In every reachable state, for any number of threads: at most
  one thread is between acquiring and releasing the mutex; what has been returned by \<open>pull\<close>,
  followed by what is in the queue, is exactly what was put, in order, so nothing is lost,
  duplicated or reordered; and no wakeup is lost: while a thread waits on the condition
  variable, at least as many pullers are awake as there are elements in the queue, so an
  element is never left lying while everybody who could take it sleeps.
\<close>

theorem BlockingQueue_correct:
  assumes "bq_reachable n b"
  shows "(\<forall>t < length (bq_pc b). \<forall>t' < length (bq_pc b). inside (bq_pc b ! t) \<and> inside (bq_pc b ! t') \<longrightarrow> t = t') \<and>
    bq_puts b = bq_pulls b @ bq_queue b \<and>
    (Waiting \<in> set (bq_pc b) \<and> bq_queue b \<noteq> [] \<longrightarrow> (\<exists>t < length (bq_pc b). awake (bq_pc b ! t)))"
proof -
  have inv: "bq_inv b" using assms by (rule bqm.reach_inv)
  have "\<exists>t < length (bq_pc b). awake (bq_pc b ! t)" if "Waiting \<in> set (bq_pc b)" "bq_queue b \<noteq> []"
  proof -
    have "count_if asleep (bq_pc b) \<noteq> 0" using that(1) by (auto simp: count_if_0 asleep_def)
    moreover have "length (bq_queue b) \<noteq> 0" using that(2) by simp
    ultimately have "count_if awake (bq_pc b) \<noteq> 0" using inv unfolding bq_inv_def by linarith
    then show ?thesis by (auto simp: count_if_0 in_set_conv_nth)
  qed
  with inv show ?thesis by (auto simp: bq_inv_def)
qed

text \<open>A run of three threads: two pull and wait, the third puts an element and signals.\<close>

lemma bq_run:
  defines "S \<equiv> \<lambda>q m pcs. \<lparr>bq_queue = q, bq_mtx = m, bq_pc = pcs, bq_puts = q, bq_pulls = []\<rparr>"
  shows "bq_reachable 3 (S [7 :: nat] (Some 2) [Woken, Waiting, Unlocking])"
proof -
  note st = reach.step[where step = bq_step]
  have 0: "bq_reachable 3 (S [] None [Outside, Outside, Outside])"
    using reach_init[of "BlockingQueue 3" bq_step] by (simp add: S_def BlockingQueue_def numeral_3_eq_3)
  have 1: "bq_reachable 3 (S [] None [Want Pull, Outside, Outside])"
    using st[OF 0 bq_step.call[of 0 _ Pull]] by (simp add: S_def)
  have 2: "bq_reachable 3 (S [] (Some 0) [Hold Pull, Outside, Outside])"
    using st[OF 1 bq_step.lock[of 0 _ Pull]] by (simp add: S_def)
  have 3: "bq_reachable 3 (S [] None [Waiting, Outside, Outside])"
    using st[OF 2 bq_step.pull[of 0]] by (simp add: S_def bq_pull_def)
  have 4: "bq_reachable 3 (S [] None [Waiting, Want Pull, Outside])"
    using st[OF 3 bq_step.call[of 1 _ Pull]] by (simp add: S_def)
  have 5: "bq_reachable 3 (S [] (Some 1) [Waiting, Hold Pull, Outside])"
    using st[OF 4 bq_step.lock[of 1 _ Pull]] by (simp add: S_def)
  have 6: "bq_reachable 3 (S [] None [Waiting, Waiting, Outside])"
    using st[OF 5 bq_step.pull[of 1]] by (simp add: S_def bq_pull_def)
  have 7: "bq_reachable 3 (S [] None [Waiting, Waiting, Want (Put 7)])"
    using st[OF 6 bq_step.call[of 2 _ "Put 7"]] by (simp add: S_def)
  have 8: "bq_reachable 3 (S [] (Some 2) [Waiting, Waiting, Hold (Put 7)])"
    using st[OF 7 bq_step.lock[of 2 _ "Put 7"]] by (simp add: S_def)
  show ?thesis
    using st[OF 8 bq_step.put_signal[of 2 _ 7 0]] by (simp add: S_def bq_put_def)
qed

theorem BlockingQueue_correct_witness:
  "\<exists>t < 3. awake ([Woken, Waiting, Unlocking :: nat pc] ! t)"
  using BlockingQueue_correct[OF bq_run] by (simp add: numeral_3_eq_3)

end
