(* ===== verification/Map_Locking.thy ===== *)
theory Map_Locking
  imports Sync_Containers
begin

text \<open>
  \<open>SyncHashMap\<close> between threads: the user maps are shared by the command server, the GPS server and
  the broadcast threads, and every method holds the reader/writer lock of the map while it works
  on the \<open>unordered_map\<close> (\<open>src/include/thread/SyncHashMap.h\<close>, \<open>src/src/thread/RwLock.cpp\<close>,
  \<open>ScopeLockRd\<close>, \<open>ScopeLockWr\<close>).

  A thread is outside, waits for the lock in the mode its method asks for, is inside (the method's
  work on the map lasts until it leaves that state), or has done its work and still holds the
  lock. A reader/writer lock grants reading when no writer holds it and writing when nobody does.
\<close>

section \<open>The model\<close>

datatype ('k, 'p) mop = MPut 'k "'p option" | MGet 'k | MCount 'k | MErase 'k

text \<open>Which scope lock the method takes.\<close>

fun exclusive :: "('k, 'p) mop \<Rightarrow> bool" where
  "exclusive (MPut k d) = True"
| "exclusive (MGet k) = False"
| "exclusive (MCount k) = False"
| "exclusive (MErase k) = True"

text \<open>What the method does to the map, and whether it modifies the table.\<close>

fun apply_op :: "('k, 'p) mop \<Rightarrow> ('k, 'p) SyncHashMap \<Rightarrow> ('k, 'p) SyncHashMap" where
  "apply_op (MPut k d) m = SyncHashMap_put m k d"
| "apply_op (MGet k) m = snd (SyncHashMap_get m k)"
| "apply_op (MCount k) m = m"
| "apply_op (MErase k) m = SyncHashMap_erase m k"

fun modifies :: "('k, 'p) mop \<Rightarrow> ('k, 'p) SyncHashMap \<Rightarrow> bool" where
  "modifies (MPut k d) m = True"
| "modifies (MGet k) m = (m k = None)"
| "modifies (MCount k) m = False"
| "modifies (MErase k) m = (m k \<noteq> None)"

lemma apply_op_unmodified: "\<not> modifies p m \<Longrightarrow> apply_op p m = m"
  by (cases p) (auto simp: SyncHashMap_defs)

datatype ('k, 'p) mpc = MOut | MWant "('k, 'p) mop" | MIn "('k, 'p) mop" | MDone "('k, 'p) mop"

record ('k, 'p) lmap =
  lm_map :: "('k, 'p) SyncHashMap"
  lm_rd :: nat
  lm_wr :: bool
  lm_pc :: "('k, 'p) mpc list"

definition lm_start :: "('k, 'p) SyncHashMap \<Rightarrow> nat \<Rightarrow> ('k, 'p) lmap" where
  "lm_start m n = \<lparr>lm_map = m, lm_rd = 0, lm_wr = False, lm_pc = replicate n MOut\<rparr>"

inductive lm_step :: "('k, 'p) lmap \<Rightarrow> ('k, 'p) lmap \<Rightarrow> bool" where
  call: "t < length (lm_pc s) \<Longrightarrow> lm_pc s ! t = MOut \<Longrightarrow> lm_step s (s\<lparr>lm_pc := (lm_pc s)[t := MWant p]\<rparr>)"
| rdlock: "t < length (lm_pc s) \<Longrightarrow> lm_pc s ! t = MWant p \<Longrightarrow> \<not> exclusive p \<Longrightarrow> \<not> lm_wr s \<Longrightarrow>
     lm_step s (s\<lparr>lm_rd := Suc (lm_rd s), lm_pc := (lm_pc s)[t := MIn p]\<rparr>)"
| wrlock: "t < length (lm_pc s) \<Longrightarrow> lm_pc s ! t = MWant p \<Longrightarrow> exclusive p \<Longrightarrow> \<not> lm_wr s \<Longrightarrow> lm_rd s = 0 \<Longrightarrow>
     lm_step s (s\<lparr>lm_wr := True, lm_pc := (lm_pc s)[t := MIn p]\<rparr>)"
| work: "t < length (lm_pc s) \<Longrightarrow> lm_pc s ! t = MIn p \<Longrightarrow>
     lm_step s (s\<lparr>lm_map := apply_op p (lm_map s), lm_pc := (lm_pc s)[t := MDone p]\<rparr>)"
| rdunlock: "t < length (lm_pc s) \<Longrightarrow> lm_pc s ! t = MDone p \<Longrightarrow> \<not> exclusive p \<Longrightarrow>
     lm_step s (s\<lparr>lm_rd := lm_rd s - 1, lm_pc := (lm_pc s)[t := MOut]\<rparr>)"
| wrunlock: "t < length (lm_pc s) \<Longrightarrow> lm_pc s ! t = MDone p \<Longrightarrow> exclusive p \<Longrightarrow>
     lm_step s (s\<lparr>lm_wr := False, lm_pc := (lm_pc s)[t := MOut]\<rparr>)"

abbreviation lm_reachable :: "('k, 'p) SyncHashMap \<Rightarrow> nat \<Rightarrow> ('k, 'p) lmap \<Rightarrow> bool" where
  "lm_reachable m n \<equiv> reach (\<lambda>s. s = lm_start m n) lm_step"

section \<open>The lock\<close>

fun holds_lock :: "bool \<Rightarrow> ('k, 'p) mpc \<Rightarrow> bool" where
  "holds_lock x (MIn p) = (exclusive p = x)"
| "holds_lock x (MDone p) = (exclusive p = x)"
| "holds_lock x _ = False"

definition lm_inv :: "('k, 'p) lmap \<Rightarrow> bool" where
  "lm_inv s \<longleftrightarrow> lm_rd s = count_if (holds_lock False) (lm_pc s) \<and>
     count_if (holds_lock True) (lm_pc s) = (if lm_wr s then 1 else 0) \<and> (lm_wr s \<longrightarrow> lm_rd s = 0)"

text \<open>A thread that moves on changes the counts of holders only by what it holds before and after.\<close>

lemma lm_inv_move:
  assumes "lm_inv s" "t < length (lm_pc s)" "lm_pc s' = (lm_pc s)[t := p]"
    and "lm_rd s' + (if holds_lock False (lm_pc s ! t) then 1 else 0) = lm_rd s + (if holds_lock False p then 1 else 0)"
    and "(if lm_wr s' then 1 else 0) + (if holds_lock True (lm_pc s ! t) then 1 else 0) =
         (if lm_wr s then 1 else 0) + (if holds_lock True p then 1 else 0 :: nat)"
    and "lm_wr s' \<longrightarrow> lm_rd s' = 0"
  shows "lm_inv s'"
  using assms count_if_update[OF assms(2), of "holds_lock False" p] count_if_update[OF assms(2), of "holds_lock True" p]
  by (auto simp: lm_inv_def split: if_splits)

lemma lm_inv_writing:
  assumes "lm_inv s" "t < length (lm_pc s)" "holds_lock x (lm_pc s ! t)"
  shows "lm_wr s \<longleftrightarrow> x" "\<not> x \<Longrightarrow> lm_rd s \<noteq> 0"
proof -
  have "count_if (holds_lock x) (lm_pc s) \<noteq> 0" using assms(2,3) nth_mem[OF assms(2)] by (auto simp: count_if_0)
  then show "lm_wr s \<longleftrightarrow> x" "\<not> x \<Longrightarrow> lm_rd s \<noteq> 0"
    using assms(1) by (cases x; auto simp: lm_inv_def split: if_splits)+
qed

lemma lm_inv_readers: "lm_inv s \<Longrightarrow> lm_wr s \<longrightarrow> lm_rd s = 0"
  unfolding lm_inv_def by blast

lemma lm_inv_step:
  assumes "lm_step s s'" "lm_inv s"
  shows "lm_inv s'"
  using assms
proof (induction rule: lm_step.induct)
  case (call t s p)
  then show ?case using lm_inv_readers[OF call(3)] by - (rule lm_inv_move[OF call(3,1)], simp, simp_all)
next
  case (rdlock t s p)
  then show ?case by - (rule lm_inv_move[OF rdlock(5,1)], simp, simp_all)
next
  case (wrlock t s p)
  then show ?case by - (rule lm_inv_move[OF wrlock(6,1)], simp, simp_all)
next
  case (work t s p)
  then show ?case using lm_inv_readers[OF work(3)] by - (rule lm_inv_move[OF work(3,1)], simp, simp_all)
next
  case (rdunlock t s p)
  then show ?case using lm_inv_writing[OF rdunlock(4,1), of False]
    by - (rule lm_inv_move[OF rdunlock(4,1)], simp, simp_all)
next
  case (wrunlock t s p)
  then show ?case using lm_inv_writing(1)[OF wrunlock(4,1), of True]
    by - (rule lm_inv_move[OF wrunlock(4,1)], simp, simp_all)
qed

interpretation lm: inductive_invariant "\<lambda>s. s = lm_start m n" lm_step lm_inv for m n
  by unfold_locales (simp add: lm_inv_def lm_start_def count_if_replicate, rule lm_inv_step)

lemma lm_exclusive:
  assumes i: "lm_inv s" and t: "t < length (lm_pc s)" "t' < length (lm_pc s)" "t \<noteq> t'"
    and h: "holds_lock True (lm_pc s ! t)"
  shows "\<not> holds_lock x (lm_pc s ! t')"
proof -
  have "count_if (holds_lock True) (lm_pc s) \<noteq> 0" using h nth_mem[OF t(1)] by (auto simp: count_if_0)
  then have w: "lm_wr s" "count_if (holds_lock True) (lm_pc s) = 1" "count_if (holds_lock False) (lm_pc s) = 0"
    using i by (auto simp: lm_inv_def split: if_splits)
  show ?thesis
  proof (cases x)
    case True
    then show ?thesis using count_if_unique[of "holds_lock True" "lm_pc s" t t'] w(2) t h by auto
  next
    case False
    then show ?thesis using w(3) nth_mem[OF t(2)] by (auto simp: count_if_0)
  qed
qed

section \<open>Which accesses can collide\<close>

text \<open>
  C23: the locking of the shared maps, for any number of threads and any mix of method calls. While
  a thread works in \<open>put\<close> or \<open>erase\<close>, no other thread is inside any method. If a thread modifies the
  table while another one is inside, then the modifying method is \<open>get\<close>, its key is absent and both
  hold the lock only for reading: a lookup that misses is the only way two threads can collide.
\<close>

theorem map_collisions:
  assumes "lm_reachable m n s" "t < length (lm_pc s)" "t' < length (lm_pc s)" "t \<noteq> t'"
    and "lm_pc s ! t = MIn p" "lm_pc s ! t' = MIn p'"
  shows "\<not> exclusive p \<and> \<not> exclusive p' \<and>
    (modifies p (lm_map s) \<longrightarrow> (\<exists>k. p = MGet k \<and> lm_map s k = None))"
proof -
  note i = lm.reach_inv[OF assms(1)]
  have 1: "\<not> exclusive p" using lm_exclusive[OF i assms(2-4), of "exclusive p'"] assms(5,6) by auto
  have 2: "\<not> exclusive p'" using lm_exclusive[OF i assms(3,2), of "exclusive p"] assms(4-6) by auto
  from 1 have "\<exists>k. p = MGet k \<and> lm_map s k = None" if "modifies p (lm_map s)" using that by (cases p) auto
  with 1 2 show ?thesis by blast
qed

text \<open>Two threads that look up the same absent key.\<close>

lemma lm_two_gets:
  "lm_reachable Map.empty 2 \<lparr>lm_map = Map.empty, lm_rd = 2, lm_wr = False, lm_pc = [MIn (MGet k), MIn (MGet k)]\<rparr>"
proof -
  let ?S = "\<lambda>r pcs. \<lparr>lm_map = Map.empty, lm_rd = r, lm_wr = False, lm_pc = pcs\<rparr>"
  note st = reach.step[where step = lm_step]
  have 0: "lm_reachable Map.empty 2 (?S 0 [MOut, MOut])"
    using reach_init[of "lm_start Map.empty 2" lm_step] by (simp add: lm_start_def numeral_2_eq_2)
  have 1: "lm_reachable Map.empty 2 (?S 0 [MWant (MGet k), MOut])"
    using st[OF 0 lm_step.call[of 0 _ "MGet k"]] by simp
  have 2: "lm_reachable Map.empty 2 (?S 0 [MWant (MGet k), MWant (MGet k)])"
    using st[OF 1 lm_step.call[of 1 _ "MGet k"]] by simp
  have 3: "lm_reachable Map.empty 2 (?S (Suc 0) [MIn (MGet k), MWant (MGet k)])"
    using st[OF 2 lm_step.rdlock[of 0 _ "MGet k"]] by simp
  show ?thesis using st[OF 3 lm_step.rdlock[of 1 _ "MGet k"]] by (simp add: numeral_2_eq_2)
qed

theorem map_collisions_witness:
  "\<exists>s :: (nat, nat) lmap. lm_reachable Map.empty 2 s \<and> lm_pc s = [MIn (MGet 0), MIn (MGet 0)] \<and> \<not> exclusive (MGet 0 :: (nat, nat) mop)"
  using lm_two_gets[of "0 :: nat"] map_collisions[OF lm_two_gets[of "0 :: nat"], of 0 1]
  by (auto simp: numeral_2_eq_2)

text \<open>
  The collision happens. Two threads that look up a key nobody has (the GPS server with the id
  of any datagram, a broadcast thread with the id 0 that stops it) can both be inside \<open>get\<close>, each
  inserting an entry into the same table under a read lock.
\<close>

theorem get_race:
  fixes k :: "'k"
  shows "\<exists>s :: ('k, 'p) lmap. lm_reachable Map.empty 2 s \<and> lm_pc s ! 0 = MIn (MGet k) \<and> lm_pc s ! 1 = MIn (MGet k) \<and>
    modifies (MGet k) (lm_map s) \<and> apply_op (MGet k) (lm_map s) \<noteq> lm_map s"
  by (intro exI conjI, rule lm_two_gets[of k]) (simp_all add: SyncHashMap_get_def fun_upd_def fun_eq_iff)

end
