(* ===== verification/Spec2Isabelle.thy ===== *)
theory Spec2Isabelle
  imports Hub_History Hub_Construction Logout_Race Buddies_Copy Slot_Protocol Blocking_Queue Map_Locking
begin

text \<open>
  A verification of gpshub, a server through which hosts share their GPS positions.

  \<^bold>\<open>The program.\<close> A client opens a TCP connection to the command server (\<open>src/src/server/CommandServer.cpp\<close>),
  which cuts the byte stream into packages (\<open>CmdPkg.cpp\<close>, \<open>src/src/util/CircularBuffer.cpp\<close>) and hands them
  to the command handler (\<open>CommandHandler.cpp\<close>): register a nick, add and remove buddies. Registered users
  (\<open>src/src/user\<close>) are kept in two locked maps (\<open>src/include/thread/SyncHashMap.h\<close>). Over UDP the client
  registers an address with the token it was sent and then sends positions to the GPS data server
  (\<open>GpsDataServer.cpp\<close>), which stores them in one of the user's two slots and queues the user's id
  (\<open>src/include/thread/BlockingQueue.h\<close>). Broadcast threads (\<open>src/src/hubthread/CoordsBroadcastThread.cpp\<close>) take
  ids from the queue and send the position to the user's buddies. Both servers run an epoll loop
  (\<open>src/src/socket/Epoll.cpp\<close>) over sockets (\<open>Socket.cpp\<close>). \<open>src/src/main.cpp\<close> reads the options, starts the
  threads and stops everything on a signal.

  \<^bold>\<open>How it is modelled.\<close> Functions of the code are HOL functions on explicit state. The state that the command
  server, the GPS server and the broadcast threads share is the record \<open>hub\<close>: heaps of users, sockets, sessions
  and events indexed by references, the two user maps, the queue, the buffers, and what was sent over
  UDP. A call that may fail returns a sum: \<open>Undefined\<close> behaviour (access out of bounds, a read of
  uninitialised memory, a null or dangling pointer, a signed overflow), a thrown exception, or a loop
  that never ends. Memory is a list of cells that may be indeterminate. Machine integers are words, or
  \<open>int\<close> and \<open>nat\<close> with the overflow written out. What the kernel, the C library's network functions, \<open>rand\<close>
  and the clock return are arguments of the definitions or scripts in the state, so the theorems hold
  for every behaviour of them. Concurrency is modelled at two levels. The whole server is the step relation
  \<open>hub_step\<close>: the two servers, any number of broadcast threads, the signal handler and the network take turns, each
  call of a component (one callback, one datagram, one round of a broadcast thread) being a step. Where
  threads meet inside such a call (a position's slots, a map, the copy of the buddies, the queue, a logout during a broadcast, the
  flags of the shutdown), a theory of its own has a step for each memory access or lock operation of a list of threads; only
  in \<open>Logout_Race\<close> are the commands and datagrams of the other threads either whole calls or any writes with a stated effect. \<open>reach\<close> gives the
  reachable states of a relation and the locale \<open>inductive_invariant\<close> the argument by which an invariant holds
  in all of them.

  \<^bold>\<open>The theories.\<close>
  \<^item> \<open>Hub_Prelude\<close>: faults, bounds-checked memory, loops that may fail, counting threads in a state,
    transition systems.
  \<^item> \<open>Net_Util\<close> (\<open>netutil.cpp\<close>): byte order, comparison of addresses.
  \<^item> \<open>Circular_Buffer\<close> (\<open>CircularBuffer.cpp\<close>): all operations; the locale \<open>byte_fifo\<close> states the contract of a
    byte queue and its interpretation that the buffer keeps it while the counters do not overflow; how
    many bytes \<open>add\<close> and \<open>read\<close> really move in every other state.
  \<^item> \<open>Cmd_Pkg\<close> (\<open>CmdPkg.cpp\<close>): both constructors and the accessors; round trip from sender to receiver.
  \<^item> \<open>Sync_Containers\<close> (\<open>SyncHashMap.h\<close>, \<open>SyncMap.h\<close>, \<open>SyncHashSet.h\<close>, \<open>SyncSet.h\<close>, \<open>hashmaphelper.h\<close>): the containers
    as one caller sees them; the locales \<open>hash_equal\<close>, \<open>ptr_map\<close> and \<open>item_set\<close> with interpretations for each class.
  \<^item> \<open>Map_Locking\<close>: \<open>SyncHashMap\<close> with its reader/writer lock between any number of threads: which accesses can
    collide.
  \<^item> \<open>Buddies_Copy\<close>: a user's buddies between the command server, which changes them under the lock, and the
    broadcast threads, which copy first the set and then the lock without it: which copies are known, unknown or hang.
  \<^item> \<open>User_Model\<close> (\<open>User.cpp\<close>, \<open>UserIdGenerator.cpp\<close>): the user and its slots; when the search for an id ends.
  \<^item> \<open>Socket_Model\<close>, \<open>Socket_Setup\<close> (\<open>Socket.cpp\<close>): sending and receiving; binding, connecting, accepting.
  \<^item> \<open>Epoll_Model\<close> (\<open>Epoll.cpp\<close>): registration, the event array, the dispatch loop and the stop pipe.
  \<^item> \<open>Hub_State\<close>: the record \<open>hub\<close> and the registry invariant \<open>reg_inv\<close>.
  \<^item> \<open>Command_Handler\<close>, \<open>Command_Spec\<close> (\<open>CommandHandler.cpp\<close>): the commands, what they do to the registry and
    what they send on every branch.
  \<^item> \<open>Command_Server\<close>, \<open>Command_Framing\<close>, \<open>Command_Sessions\<close> (\<open>CommandServer.cpp\<close>): callbacks, loop and stop;
    packages out of fragments and the send queue; the invariant of sessions, sockets, events and users in every
    reachable state, and that closing a connection is memory safe.
  \<^item> \<open>Command_Relations\<close>: the locale \<open>command_relation\<close>: a relation on states that every command, a close and
    an accepted connection are in contains whatever the command server's steps do, however the data is cut up. It is
    interpreted for the part of the state the GPS side owns, and in \<open>Registry_Refinement\<close> and \<open>Service_Refinement\<close>
    for the abstractions.
  \<^item> \<open>Registry_Refinement\<close>: an abstract registry of nicks, ids and buddies; every command and every step of the
    command server implements changes of it.
  \<^item> \<open>Gps_Server\<close> (\<open>GpsDataServer.cpp\<close>): both datagrams on every branch, pending acknowledgements, loop and stop.
  \<^item> \<open>Gps_Effects\<close>: everything one datagram of any length, from anyone, can change.
  \<^item> \<open>Broadcast\<close> (\<open>CoordsBroadcastThread.cpp\<close>): a round, the loop, what is sent to whom.
  \<^item> \<open>Hub_System\<close>: the whole server as the step relation \<open>hub_step\<close>; its invariant \<open>hub_inv\<close> (well-formed objects; a
    ready position has its id on the queue; a UDP address is there when it is used); that a broadcast round never
    fails in a reachable state, and that broadcast threads which run often enough empty the queue.
  \<^item> \<open>Hub_Loops\<close>: the locale \<open>event_loop\<close> (what \<open>Epoll::loop\<close> asks of callbacks that may reallocate its array), interpreted on
    both servers; the loops of the components, from start-up on, serve exactly the events \<open>epoll_wait\<close> delivers and are
    paths (\<open>hub_path\<close>) of these steps from the state before to the state after.
  \<^item> \<open>Gps_Faults\<close>: the only ways in which the GPS server can fail in a reachable state, and that one of them, a queued
    acknowledgement for a closed connection, does occur.
  \<^item> \<open>Service_Refinement\<close>: an abstract position-sharing service (members with buddies, address, and a position that is or
    is not announced); every step of the whole server is matched by its steps, with the same datagrams sent.
  \<^item> \<open>Hub_Scenario\<close>, \<open>Hub_History\<close>: a concrete run from start-up to a reported position, and the properties of all
    reachable states and of all histories that rest on the theories above.
  \<^item> \<open>Logout_Race\<close>: rounds of broadcast threads and the closing of a connection, call by call: a round and a close are
    uninterrupted runs of the finer steps; what a round relies on (\<open>quiet\<close> writes of the others, no colliding lookup,
    copy or address) and that it is then safe; with a logout it need not be. So the atomic rounds of \<open>hub_step\<close> stand for the
    program only as far as nobody logs out during a round and none of the collisions of \<open>Map_Locking\<close> and \<open>Buddies_Copy\<close> happens.
  \<^item> \<open>Slot_Protocol\<close>: the lock-free hand-over of a position through the two slots as single memory accesses of the
    GPS thread and any number of broadcast threads; the sequential handler refines it.
  \<^item> \<open>Blocking_Queue\<close> (\<open>BlockingQueue.h\<close>): put and pull between any number of threads with mutex, condition
    variable and spurious wakeups.
  \<^item> \<open>Thread_Wrappers\<close> (\<open>Mutex.cpp\<close>, \<open>RwLock.cpp\<close>, \<open>ConditionVariable.cpp\<close>, \<open>Thread.cpp\<close>, the scope locks):
    error reporting and the release of locks.
  \<^item> \<open>Startup\<close> (\<open>main.cpp\<close>, \<open>ComponentRegistry.cpp\<close>, \<open>ServerThread.cpp\<close>): options and help, the constructors, the state of the
    process (\<open>process\<close>) after \<open>main\<close> for every outcome of making threads, serving and joining; the signal handler.
  \<^item> \<open>Shutdown\<close>: the flags and wake-ups of the broadcast threads' loops (rounds may fail to return; the loops of the two servers
    and their joins are not in it): whether a thread leaves its loop.
  \<^item> \<open>Hub_Construction\<close>: from an accepted command line and the constructed parts to the reachable states.
  \<^item> \<open>Logging\<close> (\<open>log.h\<close>, \<open>macros.h\<close>): levels, entries, filtering.
  \<^item> This theory: properties that span components, from a position datagram to the datagrams of the buddies,
    and from a second registration to the dangling socket.

  \<^bold>\<open>Bounds.\<close> No definition has fuel that could run out silently. Loops over received data recurse on the script of
  what arrives; \<open>generate_loop\<close> is a partial function whose result \<open>None\<close> means that it never returns, and the
  theorem about it says exactly when that is; the loops of the servers take the list of results of the waits,
  and \<open>bcast_run\<close> the values of the flag when it is tested. Buffer sizes are those of the code.

  \<^bold>\<open>What is taken as given.\<close> Accesses to a pointer or an \<open>int\<close> by different threads are atomic and in program
  order (the code uses no barriers outside the locks); the iteration order of an unordered set is the order of
  the list that models it; the contents of the maps and sets of the sequential theories are those seen by
  one thread between two calls; a lock that is copied (\<open>Buddies_Copy\<close>) is a value, as its bytes are, and is copied in one
  access after the set; after \<open>handle_stop\<close> has returned the GPS server puts nothing on the queue (\<open>Shutdown\<close>).

  \<^bold>\<open>Not modelled.\<close> The texts of log messages (output only, nothing depends on them; that the sockets they name can
  be printed is \<open>sess_inv_printable\<close>); destructors that only free memory nobody refers to, and the \<open>shutdown\<close> call before a socket's \<open>close\<close>; members that only return or
  set a field, which are selection and update of a record; the Windows branch of \<open>log.h\<close>; \<open>CoordsUpdateThread\<close>, an empty
  class; \<open>getopt_long\<close>, whose results are an argument. What remains outside the map is these, declarations that repeat a
  mapped definition, and comments.
\<close>

section \<open>From a position datagram to the buddies\<close>

text \<open>What the GPS server changed keeps the invariants the broadcast needs.\<close>

lemma udp_buddy_upd:
  assumes "users h r = Some u" "u_udp_ready u' = u_udp_ready u" "u_addr_udp u' = u_addr_udp u"
    and "users h' = (users h)(r \<mapsto> u')" "nick_umap h' = nick_umap h"
  shows "udp_buddy h' = udp_buddy h"
  using assms by (auto simp: udp_buddy_def fun_eq_iff split: option.splits)

lemma located_idle:
  assumes "u_ready u = None"
  shows "located r u i c h =
    h\<lparr>users := (users h)(r \<mapsto> setEmpty (setReady (setSlot u (u_empty u) c) (Some (u_empty u))) (otherSlot (u_empty u))),
      uqueue := uqueue h @ [i]\<rparr>"
  using assms by (simp add: located_def)

lemma reg_inv_frame:
  "reg_inv (h\<lparr>gps_buf := x\<rparr>) = reg_inv h" "reg_inv (h\<lparr>their_addr := y\<rparr>) = reg_inv h"
  "reg_inv (h\<lparr>uqueue := q\<rparr>) = reg_inv h"
  by (simp_all add: reg_inv_def)

text \<open>
  C5: a position datagram of a registered user from its registered address, followed by one round
  of a broadcast thread, sends exactly one datagram to the address of every buddy that is online
  and has registered UDP, and to nobody else; each datagram decodes to the sender's id and the
  position that was received, except that a negative altitude is read as 0. Afterwards the queue is
  empty and the user is ready for the next position.
\<close>

theorem position_relay:
  assumes inv: "reg_inv h" "udp_inv h" and ok: "\<forall>b. err b = None" and buf: "length buf = BCAST_BUF_LEN"
    and u: "id_umap h i = Some (Some r)" "users h r = Some u" "u_addr_udp u = Some a0" "u_id u = i"
    and idle: "u_ready u = None" "uqueue h = []"
    and gps: "length (gps_buf h) = BUF_LEN" "pending_cmd_queue h = []" "socket_equals a a0"
    and c: "c = \<lparr>longitude = lon, latitude = lat, altitude = (case alt of None \<Rightarrow> 0 | Some z \<Rightarrow> z)\<rparr>"
    and bs: "bs = be32 i @ be32 lon @ be32 lat @ (case alt of None \<Rightarrow> [] | Some z \<Rightarrow> be32 z)"
  shows "\<exists>h1 buf' h2 sent. gps_incomingData (Inr (bs, a)) h = Inr h1 \<and>
    bcast_run err [True, False] buf h1 = Inr (buf', h2) \<and>
    udp_out h2 = udp_out h @ map (\<lambda>b. (b, map Some sent)) (List.map_filter (udp_buddy h) (u_buddies u)) \<and>
    decode_coords sent = Some (i, c\<lparr>altitude := if sint (altitude c) > 0 then altitude c else 0\<rparr>) \<and>
    uqueue h2 = [] \<and> (\<exists>u'. users h2 r = Some u' \<and> u_ready u' = None \<and> u_buddies u' = u_buddies u)"
proof -
  let ?h = "h\<lparr>gps_buf := map Some bs @ drop (length bs) (gps_buf h), their_addr := a\<rparr>"
  let ?u = "setEmpty (setReady (setSlot u (u_empty u) c) (Some (u_empty u))) (otherSlot (u_empty u))"
  let ?r = "?h\<lparr>users := (users h)(r \<mapsto> ?u)\<rparr>"
  let ?g = "?r\<lparr>uqueue := [i]\<rparr>" and ?q = "?r\<lparr>uqueue := []\<rparr>"
  have g: "gps_incomingData (Inr (bs, a)) h = Inr ?g"
    using position_run[OF u(1-3) gps(1,2) bs, of a] idle gps(3) by (simp add: located_idle c)
  have us: "u_id ?u = i" "u_nick ?u = u_nick u" "u_buddies ?u = u_buddies u" "u_ready ?u = Some (u_empty u)"
      "u_udp_ready ?u = u_udp_ready u" "u_addr_udp ?u = u_addr_udp u" "slotOf ?u (u_empty u) = c"
    using u(4) slotOf_setSlot[of u "u_empty u" c "u_empty u"]
    by (cases "u_empty u"; simp add: setEmpty_def setReady_def)+
  have d: "distinct (u_buddies u)" using inv(1) u(2) by (auto simp: reg_inv_def)
  have r: "reg_inv ?q" using reg_inv_upd_user[OF _ u(2), of ?u] inv(1) d u(4) us(1-3)
    reg_inv_upd_user[of ?h r u ?u] by (simp add: reg_inv_frame u(2))
  have v: "udp_inv ?q" using inv(2) u(2) us(5,6) by (auto simp: udp_inv_def)
  have b: "udp_buddy ?q = udp_buddy h" by (rule udp_buddy_upd[OF u(2) us(5,6)]) simp_all
  from bcast_round_eq[OF r v ok buf, of i r ?u "u_empty u"] obtain buf' where
    br: "bcast_round err i buf ?q = Inr (buf', ?q\<lparr>udp_out := udp_out ?q @
        map (\<lambda>a. (a, map Some (coords_bytes (u_id ?u) (slotOf ?u (u_empty u))))) (List.map_filter (udp_buddy ?q) (u_buddies ?u)),
        users := (users ?q)(r \<mapsto> ?u\<lparr>u_ready := None\<rparr>)\<rparr>)"
    using u(1) us(4) by auto
  let ?f = "?q\<lparr>udp_out := udp_out ?q @
        map (\<lambda>a. (a, map Some (coords_bytes (u_id ?u) (slotOf ?u (u_empty u))))) (List.map_filter (udp_buddy ?q) (u_buddies ?u)),
        users := (users ?q)(r \<mapsto> ?u\<lparr>u_ready := None\<rparr>)\<rparr>"
  have run: "bcast_run err [True, False] buf ?g = Inr (buf', ?f)"
    using br by simp
  have o: "udp_out ?f = udp_out h @ map (\<lambda>a. (a, map Some (coords_bytes i c))) (List.map_filter (udp_buddy h) (u_buddies u))"
    by (simp add: us b)
  show ?thesis
    by (intro exI[of _ ?g] exI[of _ buf'] exI[of _ ?f] exI[of _ "coords_bytes i c"] conjI g run o)
      (simp_all add: us decode_coords_bytes)
qed

theorem position_relay_witness:
  "\<exists>h1 buf' h2 sent. gps_incomingData (Inr (be32 1 @ be32 21 @ be32 52 @ be32 100, no_addr))
      (hub_two\<lparr>users := Map.empty(1 \<mapsto> (setAddrUdp (newUser 1 [65]) no_addr)\<lparr>u_buddies := [[66], [67]]\<rparr>,
                                 2 \<mapsto> setAddrUdp (newUser 2 [66]) no_addr)\<rparr>) = Inr h1 \<and>
     bcast_run (\<lambda>_. None) [True, False] (replicate 16 None) h1 = Inr (buf', h2) \<and>
     udp_out h2 = [(no_addr, map Some sent)] \<and>
     decode_coords sent = Some (1, \<lparr>longitude = 21, latitude = 52, altitude = 100\<rparr>)"
proof -
  let ?u = "(setAddrUdp (newUser 1 [65]) no_addr)\<lparr>u_buddies := [[66], [67]]\<rparr>"
  let ?v = "setAddrUdp (newUser 2 [66]) no_addr"
  let ?g = "hub_two\<lparr>users := (users hub_two)(1 \<mapsto> ?u)\<rparr>"
  let ?h = "hub_two\<lparr>users := Map.empty(1 \<mapsto> ?u, 2 \<mapsto> ?v)\<rparr>"
  let ?c = "\<lparr>longitude = 21, latitude = 52, altitude = 100\<rparr>"
  have 1: "reg_inv ?g"
    by (rule reg_inv_upd_user[OF reg_inv_two, of 1 "setToken (setSockPtr (newUser 1 [65]) (Some 0)) 77"])
      (simp_all add: newUser_def user_setters)
  have "reg_inv (?g\<lparr>users := (users ?g)(2 \<mapsto> ?v)\<rparr>)"
    by (rule reg_inv_upd_user[OF 1, of 2 "newUser 2 [66]"]) (simp_all add: newUser_def user_setters)
  then have 2: "reg_inv ?h" by simp
  have 3: "udp_inv ?h" by (auto simp: udp_inv_def newUser_def user_setters split: if_splits)
  have 4: "length (replicate 16 None :: mem) = BCAST_BUF_LEN" by (simp add: BCAST_BUF_LEN_def)
  have 5: "length (gps_buf ?h) = BUF_LEN" using hub_two_gps by simp
  have buds: "List.map_filter (udp_buddy ?h) [[66], [67]] = [no_addr]"
    by (simp add: map_filter_simps udp_buddy_def newUser_def user_setters)
  have eq: "socket_equals no_addr no_addr" by (simp add: socket_equals_def)
  show ?thesis
    using position_relay[OF 2 3 _ 4 _ _ _ _ _ _ 5 _ eq, of "\<lambda>_. None" 1 1 ?u ?c 21 52 "Some 100"
        "be32 1 @ be32 21 @ be32 52 @ be32 100"] buds
    by (auto simp: newUser_def user_setters)
qed

section \<open>A second registration on the same connection\<close>

text \<open>A datagram that asks for UDP registration of a user whose socket object is gone.\<close>

lemma initAddrUdp_dangling:
  assumes "id_umap h i = Some (Some r)" "users h r = Some u" "u_token u = Some tok" "u_sock u = Some q"
    and "socks h q = None" "length (gps_buf h) = BUF_LEN"
  shows "gps_incomingData (Inr (be32 i @ be32 t, a)) h = Inl (Undefined UseAfterFree)"
proof -
  let ?buf = "map Some (be32 i @ be32 t) @ drop 8 (gps_buf h)"
  have rf: "Socket_Recvfrom (Inr (be32 i @ be32 t, a)) (gps_buf h) = Inr (?buf, 8, a)"
    using Recvfrom_ok[of "be32 i @ be32 t" "gps_buf h" a] assms(6) by (simp add: BUF_LEN_def)
  have ld: "toint host_order ?buf 0 = Inr i" "toint host_order ?buf 4 = Inr t"
    using toint_datagram[of "[]" 0 host_order i "be32 t" "drop 8 (gps_buf h)"]
      toint_datagram[of "be32 i" 4 host_order t "[]" "drop 8 (gps_buf h)"] by simp_all
  have "initAddrUdp (h\<lparr>gps_buf := ?buf, their_addr := a\<rparr>) = Inl (Undefined UseAfterFree)"
    using ld assms(1-5) get_live[of "id_umap h" i r]
    by (simp add: initAddrUdp_def sendUdpInitAck_def udp_ack_pkg Let_def)
  then show ?thesis by (simp add: gps_incomingData_def rf)
qed

text \<open>
  C27: a client that registers a second nick on the same connection leaves its first user behind.
  In every state the command server can be in, if a logged-in session registers another nick and
  the connection is then closed, the first user stays registered under its nick and id with a
  pointer to the deleted socket, and every UDP registration datagram with its id, whatever its
  token and sender, makes the GPS server use that socket after it was freed.
\<close>

theorem second_registration_orphan:
  assumes inv: "srv_inv h" and s: "sessions h s = Some se" "se_user se = Some r"
    and u: "users h r = Some u" "u_sock u = Some (se_sock se)" "u_token u = Some tok"
    and ev: "evs h e = Some ev" "ev_clbk ev = ClientSocketClbk" "ev_ptr ev = Some s"
    and ep: "removeEvent (cmd_epl h) (ev_fd ev) = Inr ep"
    and pkg: "getType pkg = Inr REGISTER_NICK" "getDataStr pkg = Inr nick" "nick_umap h nick = None"
    and sk: "socks h (se_sock se) = Some sk" "sk_tx sk = []"
    and gen: "generate (id_umap h) (idgen_current h) = Some (i, c)" and gps: "length (gps_buf h) = BUF_LEN"
  shows "\<exists>h1 h2. handle env pkg s h = Inr h1 \<and> closeConnection e h1 = Inr h2 \<and>
    users h2 r = Some u \<and> nick_umap h2 (u_nick u) = Some (Some r) \<and> id_umap h2 (u_id u) = Some (Some r) \<and>
    sessions h2 s = None \<and> socks h2 (se_sock se) = None \<and>
    (\<forall>t a. gps_incomingData (Inr (be32 (u_id u) @ be32 t, a)) h2 = Inl (Undefined UseAfterFree))"
proof -
  let ?u = "setToken (setSockPtr (newUser i nick) (Some (se_sock se))) (e_rand env (rand_calls h))"
  let ?s = "se\<lparr>se_user := Some (next_ref h)\<rparr>"
  let ?h1 = "(publish env i c nick s se h)\<lparr>rand_calls := rand_calls h + 1,
      users := (users h)(next_ref h \<mapsto> ?u),
      socks := (socks h)(se_sock se \<mapsto>
        sk\<lparr>sk_out := sk_out sk @ map Some (ack_bytes i @ init_udp_bytes (e_rand env (rand_calls h)))\<rparr>)\<rparr>"
  let ?h2 = "closed e s ?s ep ?h1"
  have h1: "handle env pkg s h = Inr ?h1"
    using registerNick_run[OF pkg(2,3) s(1) sk gen, of env] pkg(1) by (simp add: handle_def)
  have sel: "evs ?h1 = evs h" "cmd_epl ?h1 = cmd_epl h" "sessions ?h1 s = Some ?s" "gps_buf ?h1 = gps_buf h"
      "users ?h1 (next_ref h) = Some ?u" "nick_umap ?h1 = (nick_umap h)(nick \<mapsto> Some (next_ref h))"
      "id_umap ?h1 = (id_umap h)(i \<mapsto> Some (next_ref h))" "users ?h1 = (users h)(next_ref h \<mapsto> ?u)"
    by (simp_all add: publish_def Let_def SyncHashMap_put_def)
  have h2: "closeConnection e ?h1 = Inr ?h2"
  proof -
    have "evs ?h1 e = Some ev" using ev(1) sel(1) by simp
    from closeConnection_eq[OF srv_inv_handle[OF inv h1] this ev(2)] obtain s' se' where
      x: "ev_ptr ev = Some s'" "sessions ?h1 s' = Some se'"
        "closeConnection e ?h1 = bindF (removeEvent (cmd_epl ?h1) (ev_fd ev)) (\<lambda>ep. Inr (closed e s' se' ep ?h1))"
      by blast
    have y: "s' = s" using x(1) ev(3) by simp
    have z: "se' = ?s" using x(2) sel(3) unfolding y by (simp only: option.inject)
    show ?thesis by (simp only: x(3) sel(2) ep bindF.simps y z)
  qed
  have reg: "reg_inv h" using inv by (simp add: srv_inv_def)
  have old: "r < next_ref h" "nick_umap h (u_nick u) = Some (Some r)" "id_umap h (u_id u) = Some (Some r)"
    using reg u(1) by (auto simp: reg_inv_def)
  have new: "u_nick ?u = nick" "u_id ?u = i" by (simp_all add: newUser_def user_setters)
  have ne: "u_nick u \<noteq> nick" "u_id u \<noteq> i"
    using old pkg(3) generate_loop_result[OF gen[unfolded generate_def]] by (auto simp: free_id_def)
  have fin: "users ?h2 r = Some u" "nick_umap ?h2 (u_nick u) = Some (Some r)" "id_umap ?h2 (u_id u) = Some (Some r)"
      "sessions ?h2 s = None" "socks ?h2 (se_sock se) = None" "gps_buf ?h2 = gps_buf h"
    using sel old ne u(1) new by (simp_all add: closed_def)
  have uaf: "\<forall>t a. gps_incomingData (Inr (be32 (u_id u) @ be32 t, a)) ?h2 = Inl (Undefined UseAfterFree)"
    using initAddrUdp_dangling[OF fin(3,1) u(3,2) fin(5)] gps fin(6) by simp
  show ?thesis by (intro exI[of _ ?h1] exI[of _ ?h2] conjI h1 h2 fin(1-5) uaf)
qed

theorem second_registration_orphan_witness:
  "\<exists>h1 h2. handle env0 (pkg_of REGISTER_NICK [67]) 0 hub_client = Inr h1 \<and> closeConnection 2 h1 = Inr h2 \<and>
     users h2 1 = Some (setToken (setSockPtr (newUser 1 [65]) (Some 0)) 77) \<and> socks h2 0 = None \<and>
     gps_incomingData (Inr (be32 1 @ be32 77, no_addr)) h2 = Inl (Undefined UseAfterFree)"
proof -
  let ?u = "setToken (setSockPtr (newUser 1 [65]) (Some 0)) 77"
  let ?e = "\<lparr>ev_fd = 5, ev_ptr = Some 0, ev_clbk = ClientSocketClbk\<rparr>"
  let ?s = "session_one\<lparr>se_user := Some 1\<rparr>"
  let ?k = "sock_one\<lparr>sk_host := Str [49], sk_port := Str [50]\<rparr>"
  obtain ep where ep: "removeEvent (cmd_epl hub_client) (ev_fd ?e) = Inr ep" using hub_client_event by auto
  have b: "length (gps_buf hub_client) = BUF_LEN" using hub_two_gps by (simp add: hub_client_def)
  have h: "sessions hub_client 0 = Some ?s" "users hub_client 1 = Some ?u" "evs hub_client 2 = Some ?e"
    "nick_umap hub_client [67] = None" "socks hub_client (se_sock ?s) = Some ?k" "sk_tx ?k = []"
    by (simp_all add: hub_client_def)
  have u: "se_user ?s = Some 1" "u_sock ?u = Some (se_sock ?s)" "u_token ?u = Some 77" "u_id ?u = 1" "se_sock ?s = 0"
    by (simp_all add: newUser_def user_setters)
  from second_registration_orphan[OF hub_client_inv h(1) u(1) h(2) u(2,3) h(3) _ _ ep hub_client_pkg h(4,5,6) hub_client_id b, of env0]
  show ?thesis unfolding u(4,5) by auto
qed

end
